(* ===== verification/J7f_Prelude.thy ===== *)
theory J7f_Prelude
  imports Main "HOL-Library.Multiset" "HOL-Library.Signed_Division"
begin

text \<open>
  What every component of the development shares: the outcome of a Go call (a value or a
  run-time panic), the fixed-width integers of Go on a 64-bit platform, bounds-checked indexing
  and slicing, Go maps with an explicit iteration order, and the interfaces that several
  components implement (a printer with its parser, a cyclic selector).

  The collections declared here carry the component proofs: \<open>go_simps\<close> holds unconditional
  rewrite rules of the run-time operations, \<open>go_bounds\<close> the facts that keep machine integers
  in range.
\<close>

named_theorems go_simps \<open>rewrite rules of the Go run-time operations\<close>
named_theorems go_bounds \<open>range facts on machine integers\<close>

section \<open>Outcomes of a call\<close>

text \<open>
  A run-time panic aborts the call. The constructors name the run-time error; \<open>Explicit\<close> is a
  call of \<open>panic\<close> in the source, with its message. \<open>ConcurrentMapAccess\<close> is the fatal error of an access to a
  map while another goroutine writes it; it ends the process.
\<close>

datatype go_panic =
    IndexOutOfRange
  | SliceOutOfRange
  | DivideByZero
  | NilDereference
  | NilMapWrite
  | TypeAssertion
  | MakeSliceLen
  | ClosedChannel
  | ConcurrentMapAccess
  | Explicit string

datatype 'a go = Panic go_panic | Ret 'a

primrec go_bind :: "'a go \<Rightarrow> ('a \<Rightarrow> 'b go) \<Rightarrow> 'b go" where
  "go_bind (Panic p) f = Panic p"
| "go_bind (Ret x) f = f x"

lemma go_bind_split:
  "P (go_bind m f) \<longleftrightarrow> (\<forall>p. m = Panic p \<longrightarrow> P (Panic p)) \<and> (\<forall>x. m = Ret x \<longrightarrow> P (f x))"
  by (cases m) auto

lemma go_bind_cong [fundef_cong]:
  "m = m' \<Longrightarrow> (\<And>x. m' = Ret x \<Longrightarrow> f x = g x) \<Longrightarrow> go_bind m f = go_bind m' g"
  by (cases m') auto

lemma go_bind_eq_Ret [simp]:
  "go_bind m f = Ret y \<longleftrightarrow> (\<exists>x. m = Ret x \<and> f x = Ret y)"
  by (cases m) auto

lemma go_bind_eq_Panic:
  "go_bind m f = Panic p \<longleftrightarrow> m = Panic p \<or> (\<exists>x. m = Ret x \<and> f x = Panic p)"
  by (cases m) auto

lemma go_bind_Ret_right [simp]: "go_bind m Ret = m"
  by (cases m) auto

lemma go_bind_assoc: "go_bind (go_bind m f) g = go_bind m (\<lambda>x. go_bind (f x) g)"
  by (cases m) auto

lemma go_bind_Panic_case [simp]:
  "go_bind (case m of None \<Rightarrow> Panic p | Some x \<Rightarrow> Ret x) f = (case m of None \<Rightarrow> Panic p | Some x \<Rightarrow> f x)"
  by (cases m) auto

text \<open>A loop over a slice whose body may panic and updates a state.\<close>

fun go_fold :: "('a \<Rightarrow> 's \<Rightarrow> 's go) \<Rightarrow> 'a list \<Rightarrow> 's \<Rightarrow> 's go" where
  "go_fold f [] s = Ret s"
| "go_fold f (x # xs) s = go_bind (f x s) (go_fold f xs)"

lemma go_fold_append: "go_fold f (xs @ ys) s = go_bind (go_fold f xs s) (go_fold f ys)"
  by (induction xs arbitrary: s) (auto simp: go_bind_assoc intro!: go_bind_cong)

lemma go_fold_Ret: "go_fold (\<lambda>x s. Ret (f x s)) xs s = Ret (fold f xs s)"
  by (induction xs arbitrary: s) auto

lemma go_fold_invariant:
  assumes "go_fold f xs s = Ret s'" and "P s"
    and "\<And>x s s'. x \<in> set xs \<Longrightarrow> P s \<Longrightarrow> f x s = Ret s' \<Longrightarrow> P s'"
  shows "P s'"
  using assms(1,2,3)
proof (induction xs arbitrary: s)
  case (Cons x xs)
  then obtain t where t: "f x s = Ret t" "go_fold f xs t = Ret s'" by auto
  have "P t" by (rule Cons.prems(3) [OF _ Cons.prems(2) t(1)]) simp
  with t(2) show ?case using Cons.IH Cons.prems(3) by (meson list.set_intros(2))
qed simp

section \<open>Integers\<close>

text \<open>
  \<open>int\<close> and \<open>int64\<close> are 64 bits wide and wrap around in two's complement, \<open>uint64\<close> wraps modulo
  \<open>2 ^ 64\<close>, \<open>int32\<close> is the 32-bit conversion. Integers of the source are HOL integers here, and
  the conversion is applied wherever an operation can leave the range. Division truncates
  towards zero (\<open>sdiv\<close> and \<open>smod\<close>) and panics on a zero divisor.
\<close>

definition int64 :: "int \<Rightarrow> int" where
  "int64 x = (x + 2 ^ 63) mod 2 ^ 64 - 2 ^ 63"

definition uint64 :: "int \<Rightarrow> int" where
  "uint64 x = x mod 2 ^ 64"

definition int32 :: "int \<Rightarrow> int" where
  "int32 x = (x + 2 ^ 31) mod 2 ^ 32 - 2 ^ 31"

definition in_int64 :: "int \<Rightarrow> bool" where
  "in_int64 x \<longleftrightarrow> - (2 ^ 63) \<le> x \<and> x < 2 ^ 63"

definition go_div :: "int \<Rightarrow> int \<Rightarrow> int go" where
  "go_div a b = (if b = 0 then Panic DivideByZero else Ret (int64 (a sdiv b)))"

definition go_mod :: "int \<Rightarrow> int \<Rightarrow> int go" where
  "go_mod a b = (if b = 0 then Panic DivideByZero else Ret (a smod b))"

lemma int64_id [go_bounds]: "in_int64 x \<Longrightarrow> int64 x = x"
  by (simp add: int64_def in_int64_def)

lemma in_int64_int64 [simp]: "in_int64 (int64 x)"
  unfolding int64_def in_int64_def
  using pos_mod_sign [of "2 ^ 64" "x + 2 ^ 63"] pos_mod_bound [of "2 ^ 64" "x + 2 ^ 63"] by simp

lemma uint64_bounds [simp]: "0 \<le> uint64 x" "uint64 x < 2 ^ 64"
  by (simp_all add: uint64_def)

lemma uint64_id [go_bounds]: "0 \<le> x \<Longrightarrow> x < 2 ^ 64 \<Longrightarrow> uint64 x = x"
  by (simp add: uint64_def)

lemma int64_uint64 [simp]: "int64 (uint64 x) = int64 x"
proof -
  have "(x mod 2 ^ 64 + 2 ^ 63) mod 2 ^ 64 = (x + 2 ^ 63) mod (2 ^ 64 :: int)"
    by (rule mod_add_left_eq)
  then show ?thesis by (simp add: int64_def uint64_def)
qed

lemma sdiv_nonneg: "0 \<le> a \<Longrightarrow> 0 < b \<Longrightarrow> a sdiv b = a div (b :: int)"
  by (cases "a = 0") (simp_all add: signed_divide_int_def)

lemma smod_nonneg: "0 \<le> a \<Longrightarrow> 0 < b \<Longrightarrow> a smod b = a mod (b :: int)"
  by (cases "a = 0") (simp_all add: signed_modulo_int_def)

lemma in_int64_div: "in_int64 a \<Longrightarrow> 0 \<le> a \<Longrightarrow> 0 < b \<Longrightarrow> in_int64 (a div b)"
  using zdiv_mono2 [of a 1 b] pos_imp_zdiv_nonneg_iff [of b a] by (simp add: in_int64_def)

lemma go_div_pos [go_bounds]:
  "in_int64 a \<Longrightarrow> 0 \<le> a \<Longrightarrow> 0 < b \<Longrightarrow> go_div a b = Ret (a div b)"
  by (simp add: go_div_def sdiv_nonneg int64_id in_int64_div)

lemma go_mod_pos [go_bounds]: "0 \<le> a \<Longrightarrow> 0 < b \<Longrightarrow> go_mod a b = Ret (a mod b)"
  by (simp add: go_mod_def smod_nonneg)

section \<open>Indexing and slicing\<close>

definition go_index :: "'a list \<Rightarrow> int \<Rightarrow> 'a go" where
  "go_index xs i = (if 0 \<le> i \<and> i < int (length xs) then Ret (xs ! nat i) else Panic IndexOutOfRange)"

definition go_update :: "'a list \<Rightarrow> int \<Rightarrow> 'a \<Rightarrow> 'a list go" where
  "go_update xs i v =
     (if 0 \<le> i \<and> i < int (length xs) then Ret (xs[nat i := v]) else Panic IndexOutOfRange)"

definition go_slice :: "'a list \<Rightarrow> int \<Rightarrow> int \<Rightarrow> 'a list go" where
  "go_slice xs lo hi =
     (if 0 \<le> lo \<and> lo \<le> hi \<and> hi \<le> int (length xs)
      then Ret (take (nat (hi - lo)) (drop (nat lo) xs)) else Panic SliceOutOfRange)"

lemma go_index_in [go_bounds]: "i < length xs \<Longrightarrow> go_index xs (int i) = Ret (xs ! i)"
  by (simp add: go_index_def)

lemma go_index_Ret_iff: "go_index xs i = Ret x \<longleftrightarrow> 0 \<le> i \<and> i < int (length xs) \<and> x = xs ! nat i"
  by (auto simp: go_index_def)

lemma go_update_in [go_bounds]: "i < length xs \<Longrightarrow> go_update xs (int i) v = Ret (xs[i := v])"
  by (simp add: go_update_def)

lemma go_slice_in [go_bounds]:
  "lo \<le> hi \<Longrightarrow> hi \<le> length xs \<Longrightarrow> go_slice xs (int lo) (int hi) = Ret (take (hi - lo) (drop lo xs))"
  by (simp add: go_slice_def nat_diff_distrib')

section \<open>Lists\<close>

lemma mset_swap_update:
  assumes "i < length xs" and "j < length xs"
  shows "mset (xs[i := xs ! j, j := xs ! i]) = mset xs"
  using assms by (simp add: mset_swap)

lemma count_list_replicate [simp]: "count_list (replicate n x) y = (if x = y then n else 0)"
  by (induction n) auto

lemma count_mset_list: "count (mset xs) x = count_list xs x"
  by (induction xs) auto

lemma map_nth_rotate:
  "xs \<noteq> [] \<Longrightarrow> map (\<lambda>k. xs ! ((i + k) mod length xs)) [0..<length xs] = rotate i xs"
  by (rule nth_equalityI) (auto simp: nth_rotate)

lemma mset_rotate [simp]: "mset (rotate n xs) = mset xs"
proof -
  have "mset (drop k xs @ take k xs) = mset (take k xs @ drop k xs)" for k
    by (simp only: mset_append union_commute)
  then show ?thesis by (simp add: rotate_drop_take)
qed

lemma find_map_Suc: "List.find P (map Suc xs) = map_option Suc (List.find (\<lambda>i. P (Suc i)) xs)"
  by (induction xs) auto

lemma find_nth:
  "List.find P xs = map_option (\<lambda>i. xs ! i) (List.find (\<lambda>i. P (xs ! i)) [0..<length xs])"
proof (induction xs)
  case (Cons x xs)
  show ?case
    by (simp add: Cons.IH upt_conv_Cons map_Suc_upt [symmetric] find_map_Suc option.map_comp comp_def del: upt_Suc)
qed simp

lemma find_index:
  "List.find P xs = Some k \<Longrightarrow> P k \<and> k \<in> set xs" "List.find P xs = None \<longleftrightarrow> (\<forall>x \<in> set xs. \<not> P x)"
  by (auto simp: find_Some_iff find_None_iff)

section \<open>Reachable states\<close>

text \<open>
  The operations of a component with a state are steps; the states it can reach are the initial ones and whatever the
  steps make of them. A predicate that holds at first and that every step keeps holds in every reachable state.
\<close>

inductive reachable :: "('s \<Rightarrow> bool) \<Rightarrow> ('s \<Rightarrow> 's \<Rightarrow> bool) \<Rightarrow> 's \<Rightarrow> bool"
  for initial :: "'s \<Rightarrow> bool" and step :: "'s \<Rightarrow> 's \<Rightarrow> bool" where
  reach_init: "initial s \<Longrightarrow> reachable initial step s"
| reach_step: "reachable initial step s \<Longrightarrow> step s s' \<Longrightarrow> reachable initial step s'"

lemma reachable_steps: "reachable initial step s \<Longrightarrow> step\<^sup>*\<^sup>* s s' \<Longrightarrow> reachable initial step s'"
  by (rotate_tac, induction rule: rtranclp_induct) (auto intro: reach_step)

locale invariant_system =
  fixes initial :: "'s \<Rightarrow> bool"
    and step :: "'s \<Rightarrow> 's \<Rightarrow> bool"
    and inv :: "'s \<Rightarrow> bool"
  assumes initial_inv: "initial s \<Longrightarrow> inv s"
    and step_inv: "inv s \<Longrightarrow> step s s' \<Longrightarrow> inv s'"
begin

lemma reachable_inv: "reachable initial step s \<Longrightarrow> inv s"
  by (induction rule: reachable.induct) (auto intro: initial_inv step_inv)

lemma steps_inv: "step\<^sup>*\<^sup>* s s' \<Longrightarrow> inv s \<Longrightarrow> inv s'"
  by (induction rule: rtranclp_induct) (auto intro: step_inv)

end

text \<open>A system whose invariant excludes the states that must not occur.\<close>

locale safe_system = invariant_system +
  fixes bad :: "'s \<Rightarrow> bool"
  assumes inv_not_bad: "inv s \<Longrightarrow> \<not> bad s"
begin

lemma never_bad: "reachable initial step s \<Longrightarrow> \<not> bad s"
  by (rule inv_not_bad [OF reachable_inv])

end

section \<open>Interfaces\<close>

text \<open>
  A printer and the parser that reads its output back. The parser returns \<open>None\<close> where the
  source returns an error. Printed texts are then different for different values.
\<close>

locale printer_parser =
  fixes valid :: "'v \<Rightarrow> bool"
    and print :: "'v \<Rightarrow> 't"
    and parse :: "'t \<Rightarrow> 'v option"
  assumes parse_print: "valid v \<Longrightarrow> parse (print v) = Some v"
begin

lemma print_inj: "valid v \<Longrightarrow> valid w \<Longrightarrow> print v = print w \<longleftrightarrow> v = w"
  using parse_print by (metis option.inject)

lemma distinct_map_print: "(\<And>v. v \<in> set vs \<Longrightarrow> valid v) \<Longrightarrow> distinct (map print vs) \<longleftrightarrow> distinct vs"
  by (auto simp: distinct_map inj_on_def print_inj)

end

text \<open>
  A component that hands out the entries of a fixed queue in cyclic order: each call returns the
  entry under the cursor and moves the cursor by one. Two components of the program do this, the
  choice of a replica and the choice of a lookup server. A whole round of calls returns every
  entry as often as the queue holds it.
\<close>

locale cyclic_selector =
  fixes entries :: "'s \<Rightarrow> 'a list"
    and cursor :: "'s \<Rightarrow> nat"
    and pick :: "'s \<Rightarrow> ('a \<times> 's) option"
    and ready :: "'s \<Rightarrow> bool"
  assumes ready_entries: "ready s \<Longrightarrow> entries s \<noteq> []"
    and pick_ready: "ready s \<Longrightarrow> \<exists>s'. pick s = Some (entries s ! (cursor s mod length (entries s)), s')
           \<and> ready s' \<and> entries s' = entries s
           \<and> cursor s' mod length (entries s) = Suc (cursor s) mod length (entries s)"

fun picks :: "('s \<Rightarrow> ('a \<times> 's) option) \<Rightarrow> nat \<Rightarrow> 's \<Rightarrow> ('a list \<times> 's) option" where
  "picks p 0 s = Some ([], s)"
| "picks p (Suc n) s =
     (case p s of None \<Rightarrow> None
      | Some (x, s') \<Rightarrow> (case picks p n s' of None \<Rightarrow> None | Some (xs, s'') \<Rightarrow> Some (x # xs, s'')))"

context cyclic_selector
begin

lemma picks_ready:
  "ready s \<Longrightarrow> \<exists>s'. picks pick n s
      = Some (map (\<lambda>k. entries s ! ((cursor s + k) mod length (entries s))) [0..<n], s')
    \<and> ready s' \<and> entries s' = entries s"
proof (induction n arbitrary: s)
  case (Suc n)
  from pick_ready [OF Suc.prems] obtain t where t: "pick s = Some (entries s ! (cursor s mod length (entries s)), t)"
    "ready t" "entries t = entries s" "cursor t mod length (entries s) = Suc (cursor s) mod length (entries s)"
    by blast
  have shift: "(cursor t + k) mod length (entries s) = (cursor s + Suc k) mod length (entries s)" for k
    using t(4) by (metis add_Suc_shift mod_add_left_eq)
  from Suc.IH [OF t(2)] t(1,3) show ?case
    by (auto simp: shift upt_conv_Cons map_Suc_upt [symmetric] simp del: upt_Suc)
qed simp

lemma full_round:
  assumes "ready s"
  obtains s' where "picks pick (length (entries s)) s
      = Some (rotate (cursor s) (entries s), s')" and "ready s'" and "entries s' = entries s"
  using picks_ready [OF assms, of "length (entries s)"] map_nth_rotate [OF ready_entries [OF assms]]
  by auto

lemma full_round_count:
  assumes "ready s" and "picks pick (length (entries s)) s = Some (xs, s')"
  shows "mset xs = mset (entries s)"
  using assms full_round [OF assms(1)] by (metis mset_rotate option.inject prod.inject)

end

end
