(* ===== verification/Go_Strings.thy ===== *)
theory Go_Strings
  imports J7f_Prelude
begin

text \<open>
  The parts of Go's \<open>string\<close> type, of \<open>strconv\<close>, \<open>strings\<close> and of the run-time's UTF-8
  conversion that the program uses. A Go string is a sequence of bytes, here a \<open>string\<close> (its
  characters are the bytes); a \<open>rune\<close> is a code point, here a natural number.
\<close>

section \<open>strconv\<close>

definition digit_char :: "nat \<Rightarrow> char" where
  "digit_char d = char_of (48 + d)"

definition is_digit :: "char \<Rightarrow> bool" where
  "is_digit c \<longleftrightarrow> 48 \<le> (of_char c :: nat) \<and> (of_char c :: nat) \<le> 57"

definition digit_val :: "char \<Rightarrow> nat" where
  "digit_val c = of_char c - 48"

fun format_nat :: "nat \<Rightarrow> string" where
  "format_nat n = (if n < 10 then [digit_char n] else format_nat (n div 10) @ [digit_char (n mod 10)])"

declare format_nat.simps [simp del]

definition Itoa :: "int \<Rightarrow> string" where
  "Itoa x = (if x < 0 then ''-'' @ format_nat (nat (- x)) else format_nat (nat x))"

datatype num_error = ErrSyntax | ErrRange

text \<open>The loop of \<open>ParseUint\<close> in base 10 for 64 bits: it returns the value and the error.\<close>

fun ParseUint_loop :: "int \<Rightarrow> string \<Rightarrow> int \<times> num_error option" where
  "ParseUint_loop n [] = (n, None)"
| "ParseUint_loop n (c # cs) =
     (if \<not> is_digit c then (0, Some ErrSyntax)
      else if n \<ge> (2 ^ 64 - 1) div 10 + 1 then (2 ^ 64 - 1, Some ErrRange)
      else if n * 10 + int (digit_val c) \<ge> 2 ^ 64 then (2 ^ 64 - 1, Some ErrRange)
      else ParseUint_loop (n * 10 + int (digit_val c)) cs)"

definition ParseUint :: "string \<Rightarrow> int \<times> num_error option" where
  "ParseUint s = (if s = [] then (0, Some ErrSyntax) else ParseUint_loop 0 s)"

definition ParseInt :: "string \<Rightarrow> int \<times> num_error option" where
  "ParseInt s =
     (if s = [] then (0, Some ErrSyntax)
      else
        let neg = (hd s = CHR ''-'');
            s' = (if hd s = CHR ''+'' \<or> neg then tl s else s);
            (un, err) = ParseUint s'
        in if err = Some ErrSyntax then (0, err)
           else if \<not> neg \<and> un \<ge> 2 ^ 63 then (2 ^ 63 - 1, Some ErrRange)
           else if neg \<and> un > 2 ^ 63 then (- (2 ^ 63), Some ErrRange)
           else (if neg then - un else un, None))"

text \<open>\<open>Atoi\<close> is documented as \<open>ParseInt\<close> in base 10 at the width of \<open>int\<close>.\<close>

definition Atoi :: "string \<Rightarrow> int \<times> num_error option" where
  "Atoi s = ParseInt s"

definition parsed :: "int \<times> num_error option \<Rightarrow> int option" where
  "parsed r = (case snd r of None \<Rightarrow> Some (fst r) | Some _ \<Rightarrow> None)"

lemma of_char_digit_char [simp]: "d < 10 \<Longrightarrow> (of_char (digit_char d) :: nat) = 48 + d"
  by (simp add: digit_char_def)

lemma is_digit_digit_char [simp]: "d < 10 \<Longrightarrow> is_digit (digit_char d)"
  by (simp add: is_digit_def)

lemma digit_val_digit_char [simp]: "d < 10 \<Longrightarrow> digit_val (digit_char d) = d"
  by (simp add: digit_val_def)

lemma digit_char_digit_val [simp]: "is_digit c \<Longrightarrow> digit_char (digit_val c) = c"
  by (simp add: is_digit_def digit_char_def digit_val_def)

lemma digit_val_less [simp]: "is_digit c \<Longrightarrow> digit_val c < 10"
  unfolding is_digit_def digit_val_def by linarith

definition dec_value :: "string \<Rightarrow> nat" where
  "dec_value s = foldl (\<lambda>n c. n * 10 + digit_val c) 0 s"

lemma dec_value_append: "dec_value (s @ [c]) = dec_value s * 10 + digit_val c"
  by (simp add: dec_value_def)

lemma dec_value_format_nat [simp]: "dec_value (format_nat n) = n"
proof (induction n rule: format_nat.induct)
  case (1 n)
  then show ?case
    by (cases "n < 10") (simp_all add: format_nat.simps [of n] dec_value_append, simp add: dec_value_def)
qed

lemma format_nat_digits: "\<forall>c \<in> set (format_nat n). is_digit c"
proof (induction n rule: format_nat.induct)
  case (1 n)
  then show ?case by (cases "n < 10") (auto simp: format_nat.simps [of n])
qed

lemma format_nat_not_Nil [simp]: "format_nat n \<noteq> []"
  by (simp add: format_nat.simps [of n])

lemma format_nat_hd: "is_digit (hd (format_nat n))"
  using format_nat_digits format_nat_not_Nil hd_in_set by blast

lemma foldl_dec_ge: "int n \<le> int (foldl (\<lambda>n c. n * 10 + digit_val c) n s)"
proof (induction s arbitrary: n)
  case (Cons c s)
  show ?case using Cons.IH [of "n * 10 + digit_val c"] by simp
qed simp

lemma ParseUint_loop_value:
  "\<forall>c \<in> set s. is_digit c \<Longrightarrow> foldl (\<lambda>n c. n * 10 + digit_val c) n s < 2 ^ 64
   \<Longrightarrow> ParseUint_loop (int n) s = (int (foldl (\<lambda>n c. n * 10 + digit_val c) n s), None)"
proof (induction s arbitrary: n)
  case (Cons c s)
  have le: "n * 10 + digit_val c < 2 ^ 64"
    using foldl_dec_ge [of "n * 10 + digit_val c" s] Cons.prems(2) by simp
  have "ParseUint_loop (int (n * 10 + digit_val c)) s
      = (int (foldl (\<lambda>n c. n * 10 + digit_val c) n (c # s)), None)"
    using Cons.IH [of "n * 10 + digit_val c"] Cons.prems by simp
  with Cons.prems(1) le show ?case by simp
qed simp

lemma ParseUint_digits:
  "s \<noteq> [] \<Longrightarrow> \<forall>c \<in> set s. is_digit c \<Longrightarrow> dec_value s < 2 ^ 64 \<Longrightarrow> ParseUint s = (int (dec_value s), None)"
  using ParseUint_loop_value [of s 0] by (simp add: ParseUint_def dec_value_def)

lemma ParseUint_loop_ok:
  "ParseUint_loop n s = (v, None) \<Longrightarrow> 0 \<le> n \<Longrightarrow> n < 2 ^ 64 \<Longrightarrow>
     (\<forall>c \<in> set s. is_digit c) \<and> 0 \<le> v \<and> v < 2 ^ 64"
  by (induction s arbitrary: n) (auto split: if_splits)

lemma ParseUint_ok:
  "ParseUint s = (v, None) \<Longrightarrow> s \<noteq> [] \<and> (\<forall>c \<in> set s. is_digit c) \<and> 0 \<le> v \<and> v < 2 ^ 64"
  using ParseUint_loop_ok [of 0 s v] by (auto simp: ParseUint_def split: if_splits)

lemma ParseUint_loop_range: "0 \<le> n \<Longrightarrow> n < 2 ^ 64 \<Longrightarrow> 0 \<le> fst (ParseUint_loop n s)"
  by (induction s arbitrary: n) auto

lemma ParseUint_nonneg: "0 \<le> fst (ParseUint s)"
  by (simp add: ParseUint_def ParseUint_loop_range)

lemma ParseInt_in_range: "in_int64 (fst (ParseInt s))"
  using ParseUint_nonneg [of "tl s"] ParseUint_nonneg [of s]
  by (auto simp: ParseInt_def in_int64_def Let_def split: prod.splits)

lemma ParseUint_format_nat: "n < 2 ^ 64 \<Longrightarrow> ParseUint (format_nat n) = (int n, None)"
  using ParseUint_digits [of "format_nat n"] format_nat_digits by simp

lemma sign_not_digit [simp]: "\<not> is_digit CHR ''-''" "\<not> is_digit CHR ''+''"
  by (simp_all add: is_digit_def)

lemma ParseInt_Itoa:
  assumes "in_int64 x"
  shows "ParseInt (Itoa x) = (x, None)"
proof (cases "x < 0")
  case True
  with assms have "nat (- x) < 2 ^ 64" by (simp add: in_int64_def nat_less_iff)
  with True assms show ?thesis
    by (simp add: ParseInt_def Itoa_def ParseUint_format_nat in_int64_def)
next
  case False
  with assms have "nat x < 2 ^ 64" by (simp add: in_int64_def nat_less_iff)
  moreover have "hd (format_nat (nat x)) \<noteq> CHR ''-''" "hd (format_nat (nat x)) \<noteq> CHR ''+''"
    using format_nat_hd [of "nat x"] sign_not_digit by metis+
  ultimately show ?thesis using False assms
    by (simp add: ParseInt_def Itoa_def ParseUint_format_nat in_int64_def)
qed

interpretation itoa: printer_parser in_int64 Itoa "\<lambda>s. parsed (Atoi s)"
  by unfold_locales (simp add: parsed_def Atoi_def ParseInt_Itoa)

section \<open>Runes and UTF-8\<close>

type_synonym rune = nat

definition valid_rune :: "rune \<Rightarrow> bool" where
  "valid_rune r \<longleftrightarrow> r \<le> 0x10FFFF \<and> \<not> (0xD800 \<le> r \<and> r \<le> 0xDFFF)"

definition rune_error :: rune where
  "rune_error = 0xFFFD"

definition byte_at :: "string \<Rightarrow> nat \<Rightarrow> nat" where
  "byte_at s i = (if i < length s then of_char (s ! i) else 0)"

definition is_cont :: "nat \<Rightarrow> bool" where
  "is_cont b \<longleftrightarrow> 0x80 \<le> b \<and> b \<le> 0xBF"

text \<open>One step of the conversion \<open>[]rune(s)\<close>: the next rune and the bytes it takes.\<close>

definition decoderune :: "string \<Rightarrow> rune \<times> nat" where
  "decoderune s =
    (let b0 = byte_at s 0; b1 = byte_at s 1; b2 = byte_at s 2; b3 = byte_at s 3 in
     if b0 < 0x80 then (b0, 1)
     else if 0xC0 \<le> b0 \<and> b0 < 0xE0 then
       (let r = b0 mod 32 * 64 + b1 mod 64 in
        if length s > 1 \<and> is_cont b1 \<and> 0x7F < r then (r, 2) else (rune_error, 1))
     else if 0xE0 \<le> b0 \<and> b0 < 0xF0 then
       (let r = b0 mod 16 * 4096 + b1 mod 64 * 64 + b2 mod 64 in
        if length s > 2 \<and> is_cont b1 \<and> is_cont b2 \<and> 0x7FF < r \<and> \<not> (0xD800 \<le> r \<and> r \<le> 0xDFFF)
        then (r, 3) else (rune_error, 1))
     else if 0xF0 \<le> b0 \<and> b0 < 0xF8 then
       (let r = b0 mod 8 * 262144 + b1 mod 64 * 4096 + b2 mod 64 * 64 + b3 mod 64 in
        if length s > 3 \<and> is_cont b1 \<and> is_cont b2 \<and> is_cont b3 \<and> 0xFFFF < r \<and> r \<le> 0x10FFFF
        then (r, 4) else (rune_error, 1))
     else (rune_error, 1))"

lemma decoderune_width: "1 \<le> snd (decoderune s)"
  by (simp add: decoderune_def Let_def)

function runes_of :: "string \<Rightarrow> rune list" where
  "runes_of s = (if s = [] then [] else fst (decoderune s) # runes_of (drop (snd (decoderune s)) s))"
  by pat_completeness auto
termination
proof (relation "measure length")
  fix s :: string
  assume "s \<noteq> []"
  then show "(drop (snd (decoderune s)) s, s) \<in> measure length"
    using decoderune_width [of s] by simp
qed simp

declare runes_of.simps [simp del]

definition encoderune :: "rune \<Rightarrow> string" where
  "encoderune r =
    (if r \<le> 0x7F then [char_of r]
     else if r \<le> 0x7FF then [char_of (0xC0 + r div 64), char_of (0x80 + r mod 64)]
     else if r > 0x10FFFF \<or> (0xD800 \<le> r \<and> r \<le> 0xDFFF)
       then [char_of (0xEF :: nat), char_of (0xBF :: nat), char_of (0xBD :: nat)]
     else if r \<le> 0xFFFF
       then [char_of (0xE0 + r div 4096), char_of (0x80 + r div 64 mod 64), char_of (0x80 + r mod 64)]
     else [char_of (0xF0 + r div 262144), char_of (0x80 + r div 4096 mod 64),
           char_of (0x80 + r div 64 mod 64), char_of (0x80 + r mod 64)])"

definition string_of_runes :: "rune list \<Rightarrow> string" where
  "string_of_runes rs = concat (map encoderune rs)"

lemma string_of_runes_simps [simp]:
  "string_of_runes [] = []"
  "string_of_runes (r # rs) = encoderune r @ string_of_runes rs"
  "string_of_runes (rs @ rs') = string_of_runes rs @ string_of_runes rs'"
  by (simp_all add: string_of_runes_def)

lemma valid_rune_ascii [simp]: "r < 128 \<Longrightarrow> valid_rune r"
  by (simp add: valid_rune_def)

lemma valid_rune_error [simp]: "valid_rune rune_error"
  by (simp add: valid_rune_def rune_error_def)

lemma valid_decoderune: "valid_rune (fst (decoderune s))"
proof -
  define r2 where "r2 = byte_at s 0 mod 32 * 64 + byte_at s 1 mod 64"
  define r3 where "r3 = byte_at s 0 mod 16 * 4096 + byte_at s 1 mod 64 * 64 + byte_at s 2 mod 64"
  define r4 where "r4 = byte_at s 0 mod 8 * 262144 + byte_at s 1 mod 64 * 4096
    + byte_at s 2 mod 64 * 64 + byte_at s 3 mod 64"
  have two: "r2 \<le> 0x7FF"
    unfolding r2_def
    using mod_less_divisor [of 32 "byte_at s 0"] mod_less_divisor [of 64 "byte_at s 1"] by linarith
  have three: "r3 \<le> 0xFFFF"
    unfolding r3_def
    using mod_less_divisor [of 16 "byte_at s 0"] mod_less_divisor [of 64 "byte_at s 1"]
      mod_less_divisor [of 64 "byte_at s 2"] by linarith
  show ?thesis
    using two three
    unfolding decoderune_def Let_def r2_def [symmetric] r3_def [symmetric] r4_def [symmetric]
    by (simp add: valid_rune_def rune_error_def)
qed

lemma runes_of_Nil [simp]: "runes_of [] = []"
  by (simp add: runes_of.simps)

lemma runes_of_eq_Nil [simp]: "runes_of s = [] \<longleftrightarrow> s = []"
  by (simp add: runes_of.simps [of s])

lemma runes_of_valid: "\<forall>r \<in> set (runes_of s). valid_rune r"
proof (induction s rule: runes_of.induct)
  case (1 s)
  then show ?case
    by (cases "s = []") (simp_all add: runes_of.simps [of s] valid_decoderune)
qed

lemma encoderune_not_Nil [simp]: "encoderune r \<noteq> []"
  by (simp add: encoderune_def)

lemma string_of_runes_eq_Nil [simp]: "string_of_runes rs = [] \<longleftrightarrow> rs = []"
  by (cases rs) auto

lemma byte_at_simps [simp]:
  "byte_at (c # s) 0 = of_char c"
  "byte_at (c # s) (Suc n) = byte_at s n"
  "byte_at (c # s) (numeral k) = byte_at s (pred_numeral k)"
  by (simp_all add: byte_at_def)

lemma div_mod_64_digits:
  fixes r :: nat
  shows "r div 64 * 64 + r mod 64 = r"
    and "r div 4096 * 4096 + r div 64 mod 64 * 64 + r mod 64 = r"
    and "r div 262144 * 262144 + r div 4096 mod 64 * 4096 + r div 64 mod 64 * 64 + r mod 64 = r"
proof -
  show 1: "r div 64 * 64 + r mod 64 = r" for r :: nat
    by (rule div_mult_mod_eq)
  have 4096: "r div 4096 = r div 64 div 64" and 262144: "r div 262144 = r div 4096 div 64" for r :: nat
    using div_mult2_eq [of r 64 64] div_mult2_eq [of r 4096 64] by simp_all
  show 2: "r div 4096 * 4096 + r div 64 mod 64 * 64 + r mod 64 = r" for r :: nat
    using 1 [of r] 1 [of "r div 64"] unfolding 4096 [of r] by linarith
  show "r div 262144 * 262144 + r div 4096 mod 64 * 4096 + r div 64 mod 64 * 64 + r mod 64 = r"
    using 2 [of r] 1 [of "r div 4096"] unfolding 262144 [of r] by linarith
qed

lemma lead_byte_mod [simp]:
  fixes a :: nat
  shows "a < 32 \<Longrightarrow> (192 + a) mod 32 = a"
    and "a < 16 \<Longrightarrow> (224 + a) mod 16 = a"
    and "a < 8 \<Longrightarrow> (240 + a) mod 8 = a"
    and "a < 64 \<Longrightarrow> (128 + a) mod 64 = a"
  using mod_mult_self3 [of 6 32 a] mod_mult_self3 [of 14 16 a] mod_mult_self3 [of 30 8 a]
    mod_mult_self3 [of 2 64 a]
  by simp_all

lemma le_63 [simp]: "(a :: nat) mod 64 \<le> 63"
  using mod_less_divisor [of 64 a] by linarith

lemma cont_byte [simp]: "(of_char (char_of (128 + a mod 64 :: nat)) :: nat) = 128 + a mod 64"
  using le_63 [of a] by (simp only: of_char_of) simp

lemma lead_byte [simp]:
  fixes a :: nat
  shows "a < 32 \<Longrightarrow> (of_char (char_of (192 + a)) :: nat) = 192 + a"
    and "a < 16 \<Longrightarrow> (of_char (char_of (224 + a)) :: nat) = 224 + a"
    and "a < 8 \<Longrightarrow> (of_char (char_of (240 + a)) :: nat) = 240 + a"
  by simp_all

lemma decoderune_2:
  "of_char c0 = 192 + a \<Longrightarrow> a < 32 \<Longrightarrow> of_char c1 = 128 + b \<Longrightarrow> b < 64 \<Longrightarrow> r = a * 64 + b \<Longrightarrow> 0x7F < r
   \<Longrightarrow> decoderune (c0 # c1 # s) = (r, 2)"
  by (simp add: decoderune_def Let_def is_cont_def)

lemma decoderune_3:
  "of_char c0 = 224 + a \<Longrightarrow> a < 16 \<Longrightarrow> of_char c1 = 128 + b \<Longrightarrow> b < 64 \<Longrightarrow> of_char c2 = 128 + c \<Longrightarrow> c < 64
   \<Longrightarrow> r = a * 4096 + b * 64 + c \<Longrightarrow> 0x7FF < r \<Longrightarrow> \<not> (0xD800 \<le> r \<and> r \<le> 0xDFFF)
   \<Longrightarrow> decoderune (c0 # c1 # c2 # s) = (r, 3)"
  by (simp add: decoderune_def Let_def is_cont_def)

lemma decoderune_4:
  "of_char c0 = 240 + a \<Longrightarrow> a < 8 \<Longrightarrow> of_char c1 = 128 + b \<Longrightarrow> b < 64 \<Longrightarrow> of_char c2 = 128 + c \<Longrightarrow> c < 64
   \<Longrightarrow> of_char c3 = 128 + d \<Longrightarrow> d < 64 \<Longrightarrow> r = a * 262144 + b * 4096 + c * 64 + d
   \<Longrightarrow> 0xFFFF < r \<Longrightarrow> r \<le> 0x10FFFF \<Longrightarrow> decoderune (c0 # c1 # c2 # c3 # s) = (r, 4)"
  by (simp add: decoderune_def Let_def is_cont_def)

lemma decoderune_encoderune:
  assumes "valid_rune r"
  shows "decoderune (encoderune r @ s) = (r, length (encoderune r))"
proof -
  consider "r \<le> 0x7F" | "0x7F < r" "r \<le> 0x7FF" | "0x7FF < r" "r \<le> 0xFFFF" | "0xFFFF < r" "r \<le> 0x10FFFF"
    using assms by (fastforce simp: valid_rune_def)
  then show ?thesis
  proof cases
    case 1
    then show ?thesis by (simp add: encoderune_def decoderune_def)
  next
    case 2
    then have a: "r div 64 < 32" by simp
    have "decoderune (char_of (192 + r div 64) # char_of (128 + r mod 64) # s) = (r, 2)"
      by (rule decoderune_2 [OF lead_byte(1) [OF a] a cont_byte]) (use 2 div_mod_64_digits(1) [of r] in simp_all)
    with 2 show ?thesis by (simp add: encoderune_def)
  next
    case 3
    then have a: "r div 4096 < 16" by simp
    have "decoderune (char_of (224 + r div 4096) # char_of (128 + r div 64 mod 64) # char_of (128 + r mod 64) # s) = (r, 3)"
      by (rule decoderune_3 [OF lead_byte(2) [OF a] a cont_byte _ cont_byte])
        (use 3 assms div_mod_64_digits(2) [of r] in \<open>simp_all add: valid_rune_def\<close>)
    with 3 assms show ?thesis by (auto simp: encoderune_def valid_rune_def)
  next
    case 4
    then have a: "r div 262144 < 8" by simp
    have "decoderune (char_of (240 + r div 262144) # char_of (128 + r div 4096 mod 64)
        # char_of (128 + r div 64 mod 64) # char_of (128 + r mod 64) # s) = (r, 4)"
      by (rule decoderune_4 [OF lead_byte(3) [OF a] a cont_byte _ cont_byte _ cont_byte])
        (use 4 div_mod_64_digits(3) [of r] in simp_all)
    with 4 assms show ?thesis by (simp add: encoderune_def valid_rune_def)
  qed
qed

lemma runes_of_string_of_runes:
  "\<forall>r \<in> set rs. valid_rune r \<Longrightarrow> runes_of (string_of_runes rs) = rs"
  by (induction rs) (simp_all add: runes_of.simps [of "encoderune _ @ _"] decoderune_encoderune)

interpretation utf8: printer_parser "\<lambda>rs. \<forall>r \<in> set rs. valid_rune r" string_of_runes "\<lambda>s. Some (runes_of s)"
  by unfold_locales (simp add: runes_of_string_of_runes)

end
