(* ===== verification/Sensitive_Trie.thy ===== *)
theory Sensitive_Trie
  imports Go_Strings "HOL-Library.AList" "HOL-Library.Sublist"
begin

text \<open>
  Model of \<open>src/components/trie/trie.go\<close>, the keyword tree that censors texts.

  A node holds its children and the flag \<open>End\<close>. The nodes of a \<open>Trie\<close> form a tree: every node is
  created by \<open>NewTrieNode\<close> and stored in one parent, so a datatype is an exact model of the
  pointers. The \<open>sync.Map\<close> of a node is an association list whose order stands for the
  unspecified order of \<open>Range\<close>; every theorem on \<open>ReadAll\<close> holds for any order. The white lists
  of a trie are tries themselves; a \<open>nil\<close> white list is \<open>None\<close>, and using it panics.
\<close>

section \<open>Definitions\<close>

datatype node = Node (children: "(rune \<times> node) list") (End: bool)

datatype Trie = Trie (Root: node) (CheckWhiteList: bool) (WhitePrefix: "Trie option") (WhiteSuffix: "Trie option")

definition NewTrieNode :: node where
  "NewTrieNode = Node [] False"

definition NewTrie :: Trie where
  "NewTrie = Trie NewTrieNode False None None"

abbreviation load :: "node \<Rightarrow> rune \<Rightarrow> node option" where
  "load n c \<equiv> map_of (children n) c"

text \<open>\<open>Add\<close>: walk down, creating the missing nodes, and mark the last one.\<close>

fun add_path :: "rune list \<Rightarrow> node \<Rightarrow> node" where
  "add_path [] n = Node (children n) True"
| "add_path (c # cs) n =
     (let v = (case load n c of Some nc \<Rightarrow> nc | None \<Rightarrow> NewTrieNode)
      in Node (AList.update c (add_path cs v) (children n)) (End n))"

definition Add :: "string \<Rightarrow> Trie \<Rightarrow> Trie" where
  "Add keyword t =
     (let chars = runes_of keyword in
      if chars = [] then t
      else Trie (add_path chars (Root t)) (CheckWhiteList t) (WhitePrefix t) (WhiteSuffix t))"

text \<open>
  \<open>cycleDel\<close> on the runes from the current index on, which is never past the end. It returns the
  node after the call and \<open>shouldDel\<close>.
\<close>

fun cycleDel :: "node \<Rightarrow> rune \<Rightarrow> rune list \<Rightarrow> node \<times> bool" where
  "cycleDel n c rest =
     (case load n c of
        None \<Rightarrow> (n, False)
      | Some nc \<Rightarrow>
          (case rest of
             d # ds \<Rightarrow>
               (if \<not> End nc then
                  (let (nc', shouldDel) = cycleDel nc d ds in
                   if shouldDel then (Node (AList.delete c (children n)) (End n), True)
                   else (Node (AList.update c nc' (children n)) (End n), False))
                else (Node (AList.delete c (children n)) (End n), True))
           | [] \<Rightarrow>
               (if End nc then (Node (AList.delete c (children n)) (End n), True) else (n, False))))"

declare cycleDel.simps [simp del]

definition Del :: "string \<Rightarrow> Trie \<Rightarrow> Trie" where
  "Del keyword t =
     (case runes_of keyword of
        [] \<Rightarrow> t
      | c # cs \<Rightarrow> Trie (fst (cycleDel (Root t) c cs)) (CheckWhiteList t) (WhitePrefix t) (WhiteSuffix t))"

text \<open>\<open>replaceToAsterisk\<close> on the rune slice: the found word and the slice with \<open>i..j\<close> overwritten.\<close>

definition asterisk :: rune where
  "asterisk = 42"

definition replaceToAsterisk :: "string list \<Rightarrow> rune list \<Rightarrow> nat \<Rightarrow> nat \<Rightarrow> string list \<times> rune list" where
  "replaceToAsterisk found chars i j =
     (found @ [string_of_runes (take (j + 1 - i) (drop i chars))],
      take i chars @ replicate (j + 1 - i) asterisk @ drop (j + 1) chars)"

type_synonym query_result = "bool \<times> string list \<times> string"

definition isInWhitePreffixList :: "(string \<Rightarrow> query_result go) \<Rightarrow> rune list \<Rightarrow> nat \<Rightarrow> bool go" where
  "isInWhitePreffixList whitePrefixQuery chars i =
     (if i = 0 then Ret False
      else
        let prefixPos = i - 4;
            prefixWords = string_of_runes (take (i + 1 - prefixPos) (drop prefixPos chars))
        in go_bind (whitePrefixQuery prefixWords)
             (\<lambda>(exist, _, respChars).
                if exist then
                  let tmp = runes_of respChars in
                  go_bind (go_index tmp (int (length tmp) - 1)) (\<lambda>r. Ret (r = asterisk))
                else Ret False))"

definition isInWhiteSuffixList :: "(string \<Rightarrow> query_result go) \<Rightarrow> rune list \<Rightarrow> nat \<Rightarrow> bool go" where
  "isInWhiteSuffixList whiteSuffixQuery chars j =
     (if j + 1 = length chars then Ret False
      else
        let suffixPos = (if j + 5 > length chars then length chars else j + 5);
            suffixWords = string_of_runes (take (suffixPos - j) (drop j chars))
        in go_bind (whiteSuffixQuery suffixWords)
             (\<lambda>(exist, _, respChars).
                if exist then
                  let tmp = runes_of respChars in
                  go_bind (go_index tmp 0) (\<lambda>r. Ret (r = asterisk))
                else Ret False))"

definition isInWhiteList ::
  "(string \<Rightarrow> query_result go) \<Rightarrow> (string \<Rightarrow> query_result go) \<Rightarrow> rune list \<Rightarrow> nat \<Rightarrow> nat \<Rightarrow> bool go" where
  "isInWhiteList whitePrefixQuery whiteSuffixQuery chars i j =
     go_bind (isInWhitePreffixList whitePrefixQuery chars i)
       (\<lambda>inWhiteList. if \<not> inWhiteList then isInWhiteSuffixList whiteSuffixQuery chars j else Ret True)"

text \<open>
  The loops of \<open>Query\<close>. \<open>white\<close> is the test \<open>CheckWhiteList && isInWhiteList\<close>. \<open>hit\<close> is the
  treatment of a match \<open>i..j\<close>; it returns the new \<open>i\<close>. \<open>query_inner\<close> is the loop over \<open>j\<close> and
  \<open>query_outer\<close> the loop over \<open>i\<close>.
\<close>

type_synonym white_test = "rune list \<Rightarrow> nat \<Rightarrow> nat \<Rightarrow> bool go"

definition hit :: "white_test \<Rightarrow> rune list \<Rightarrow> string list \<Rightarrow> nat \<Rightarrow> nat \<Rightarrow> (nat \<times> string list \<times> rune list) go" where
  "hit white chars found i j =
     go_bind (white chars i j)
       (\<lambda>w. if w then Ret (j, found, chars) else Ret (j, replaceToAsterisk found chars i j))"

function query_inner ::
  "white_test \<Rightarrow> rune list \<Rightarrow> string list \<Rightarrow> nat \<Rightarrow> node \<Rightarrow> nat \<Rightarrow> nat \<Rightarrow> (nat \<times> string list \<times> rune list) go" where
  "query_inner white chars found i n jj j =
     (if j < length chars then
        (case load n (chars ! j) of
           None \<Rightarrow> if jj > 0 then hit white chars found i jj else Ret (i, found, chars)
         | Some n' \<Rightarrow>
             if End n' then
               (if j + 1 = length chars then hit white chars found i j
                else query_inner white chars found i n' j (j + 1))
             else query_inner white chars found i n' jj (j + 1))
      else Ret (i, found, chars))"
  by pat_completeness auto
termination
  by (relation "measure (\<lambda>(white, chars, found, i, n, jj, j). length chars - j)") auto

declare query_inner.simps [simp del]

lemma query_inner_progress:
  "query_inner white chars found i n jj j = Ret (i', found', chars') \<Longrightarrow> i < j \<Longrightarrow> jj = 0 \<or> i < jj \<and> jj < length chars
   \<Longrightarrow> i \<le> i' \<and> length chars' = length chars"
proof (induction white chars found i n jj j rule: query_inner.induct)
  case (1 white chars found i n jj j)
  have hit: "hit white chars found i e = Ret (i', found', chars') \<Longrightarrow> i < e \<Longrightarrow> e < length chars
    \<Longrightarrow> i \<le> i' \<and> length chars' = length chars" for e
    by (auto simp: hit_def replaceToAsterisk_def split: if_splits)
  show ?case
    using 1 hit [of jj] hit [of j] by (subst (asm) query_inner.simps) (auto split: if_splits option.splits)
qed

function query_outer :: "white_test \<Rightarrow> node \<Rightarrow> rune list \<Rightarrow> string list \<Rightarrow> nat \<Rightarrow> (string list \<times> rune list) go" where
  "query_outer white root chars found i =
     (if i < length chars then
        (case load root (chars ! i) of
           None \<Rightarrow> query_outer white root chars found (i + 1)
         | Some n \<Rightarrow>
             go_bind (query_inner white chars found i n 0 (i + 1))
               (\<lambda>r. query_outer white root (snd (snd r)) (fst (snd r)) (fst r + 1)))
      else Ret (found, chars))"
  by pat_completeness auto
termination
proof (relation "measure (\<lambda>(white, root, chars, found, i). length chars - i)")
  fix white :: white_test and root n :: node and chars :: "rune list" and found :: "string list"
    and i :: nat and r :: "nat \<times> string list \<times> rune list"
  assume "i < length chars" and "query_inner white chars found i n 0 (i + 1) = Ret r"
  with query_inner_progress [of white chars found i n 0 "i + 1" "fst r" "fst (snd r)" "snd (snd r)"]
  show "((white, root, snd (snd r), fst (snd r), fst r + 1), white, root, chars, found, i)
      \<in> measure (\<lambda>(white, root, chars, found, i). length chars - i)"
    by auto
qed auto

declare query_outer.simps [simp del]

fun Query :: "Trie \<Rightarrow> string \<Rightarrow> query_result go" where
  "Query (Trie root check wp ws) text =
     (let chars = runes_of text;
          wpQuery = (\<lambda>s. case wp of None \<Rightarrow> Panic NilDereference | Some p \<Rightarrow> Query p s);
          wsQuery = (\<lambda>s. case ws of None \<Rightarrow> Panic NilDereference | Some p \<Rightarrow> Query p s);
          white = (\<lambda>cs i j. if check then isInWhiteList wpQuery wsQuery cs i j else Ret False)
      in if chars = [] then Ret (False, [], text)
         else go_bind (query_outer white root chars [] 0)
                (\<lambda>(found, chars'). Ret (found \<noteq> [], found, string_of_runes chars')))"

declare Query.simps [simp del]

text \<open>\<open>ReadAll\<close>: the keywords, each node's children in the order of \<open>Range\<close>.\<close>

fun cycleRead :: "node \<Rightarrow> string list \<Rightarrow> string \<Rightarrow> string list" where
  "cycleRead (Node cs e) words parentWord =
     foldl (\<lambda>ws (c, nc).
              cycleRead nc (if End nc then ws @ [parentWord @ encoderune c] else ws) (parentWord @ encoderune c))
       words cs"

definition ReadAll :: "Trie \<Rightarrow> string list" where
  "ReadAll t = cycleRead (Root t) [] []"

section \<open>The keywords of a tree\<close>

text \<open>
  \<open>find_node\<close> follows a path, \<open>lang\<close> is the set of paths that end in a marked node and
  \<open>vocabulary\<close> the set of keywords a trie holds, its abstraction. \<open>wf_node\<close> is the invariant of the
  trees that \<open>Add\<close> and \<open>Del\<close> build: one child per rune, and no dead branch.
\<close>

fun find_node :: "node \<Rightarrow> rune list \<Rightarrow> node option" where
  "find_node n [] = Some n"
| "find_node n (c # cs) = (case load n c of None \<Rightarrow> None | Some nc \<Rightarrow> find_node nc cs)"

definition lang :: "node \<Rightarrow> rune list set" where
  "lang n = {w. \<exists>m. find_node n w = Some m \<and> End m}"

definition words :: "node \<Rightarrow> rune list set" where
  "words n = lang n - {[]}"

definition vocabulary :: "Trie \<Rightarrow> rune list set" where
  "vocabulary t = words (Root t)"

fun wf_node :: "node \<Rightarrow> bool" where
  "wf_node (Node cs e) \<longleftrightarrow>
     distinct (map fst cs) \<and>
     (\<forall>(c, n) \<in> set cs. valid_rune c \<and> (End n \<or> children n \<noteq> []) \<and> wf_node n)"

definition wf_trie :: "Trie \<Rightarrow> bool" where
  "wf_trie t \<longleftrightarrow> wf_node (Root t)"

lemma find_node_append:
  "find_node n (p @ q) = (case find_node n p of None \<Rightarrow> None | Some m \<Rightarrow> find_node m q)"
  by (induction p arbitrary: n) (auto split: option.splits)

lemma find_node_snoc:
  "find_node n p = Some m \<Longrightarrow> find_node n (p @ [c]) = load m c"
  by (auto simp: find_node_append split: option.splits)

lemma Nil_in_lang [simp]: "[] \<in> lang n \<longleftrightarrow> End n"
  by (auto simp: lang_def)

lemma Cons_in_lang: "c # w \<in> lang n \<longleftrightarrow> (\<exists>nc. load n c = Some nc \<and> w \<in> lang nc)"
  by (auto simp: lang_def split: option.splits)

lemma Cons_in_words [simp]: "c # w \<in> words n \<longleftrightarrow> c # w \<in> lang n"
  by (simp add: words_def)

lemma Nil_notin_words [simp]: "[] \<notin> words n"
  by (simp add: words_def)

lemma lang_Node: "lang n = (if End n then {[]} else {}) \<union> {c # w | c w nc. load n c = Some nc \<and> w \<in> lang nc}"
proof (rule set_eqI)
  fix w
  show "w \<in> lang n \<longleftrightarrow> w \<in> (if End n then {[]} else {}) \<union> {c # w | c w nc. load n c = Some nc \<and> w \<in> lang nc}"
    by (cases w) (auto simp: Cons_in_lang)
qed

lemma lang_NewTrieNode [simp]: "lang NewTrieNode = {}"
  by (subst lang_Node) (simp add: NewTrieNode_def)

lemma wf_NewTrieNode [simp]: "wf_node NewTrieNode"
  by (simp add: NewTrieNode_def)

subsection \<open>Add\<close>

lemma set_AList_update: "set (AList.update k v al) \<subseteq> insert (k, v) (set al)"
  by (induction al) auto

lemma set_AList_delete: "set (AList.delete k al) \<subseteq> set al"
  by (auto simp: AList.delete_eq)

lemma lang_add_path: "lang (add_path w n) = insert w (lang n)"
proof (induction w arbitrary: n)
  case Nil
  show ?case
    by (subst (1 2) lang_Node) auto
next
  case (Cons c cs)
  have "v \<in> lang (add_path (c # cs) n) \<longleftrightarrow> v = c # cs \<or> v \<in> lang n" for v
    by (cases v) (auto simp: Cons_in_lang Let_def update_conv' Cons.IH split: option.splits if_splits)
  then show ?case by auto
qed

lemma End_add_path [simp]: "End (add_path (c # cs) n) = End n"
  by (simp add: Let_def)

lemma live_add_path: "End (add_path w n) \<or> children (add_path w n) \<noteq> []"
  by (cases w) (auto simp: Let_def update_nonempty)

lemma wf_add_path: "wf_node n \<Longrightarrow> \<forall>c \<in> set w. valid_rune c \<Longrightarrow> wf_node (add_path w n)"
proof (induction w arbitrary: n)
  case Nil
  then show ?case by (cases n) simp
next
  case (Cons c w)
  obtain cs e where n: "n = Node cs e" by (cases n)
  define v where "v = (case load n c of Some nc \<Rightarrow> nc | None \<Rightarrow> NewTrieNode)"
  have v: "wf_node v"
    using Cons.prems(1) map_of_SomeD [of cs c] by (auto simp: v_def n split: option.splits)
  have "distinct (map fst (AList.update c (add_path w v) cs))"
    using Cons.prems(1) by (simp add: n distinct_update)
  moreover have "\<forall>(d, m) \<in> set (AList.update c (add_path w v) cs). valid_rune d \<and> (End m \<or> children m \<noteq> []) \<and> wf_node m"
    using set_AList_update [of c "add_path w v" cs] Cons.prems live_add_path [of w v] Cons.IH [OF v]
    by (fastforce simp: n)
  ultimately show ?case by (simp add: n v_def [unfolded n, simplified, symmetric] Let_def)
qed

subsection \<open>Del\<close>

lemma AList_update_same: "map_of al k = Some v \<Longrightarrow> AList.update k v al = al"
  by (induction al) (auto split: if_splits)

text \<open>Whether some keyword is a prefix of the path to delete.\<close>

definition keyword_prefix :: "node \<Rightarrow> rune list \<Rightarrow> bool" where
  "keyword_prefix n w \<longleftrightarrow> (\<exists>p. prefix p w \<and> p \<in> words n)"

lemma keyword_prefix_Cons:
  "keyword_prefix n (c # w) \<longleftrightarrow> (\<exists>nc. load n c = Some nc \<and> (End nc \<or> keyword_prefix nc w))"
proof
  assume "keyword_prefix n (c # w)"
  then obtain p where "prefix p (c # w)" "p \<in> words n" by (auto simp: keyword_prefix_def)
  then obtain q where q: "prefix q w" "c # q \<in> lang n"
    by (cases p) auto
  then show "\<exists>nc. load n c = Some nc \<and> (End nc \<or> keyword_prefix nc w)"
    by (cases q) (fastforce simp: Cons_in_lang keyword_prefix_def)+
next
  assume "\<exists>nc. load n c = Some nc \<and> (End nc \<or> keyword_prefix nc w)"
  then obtain nc where nc: "load n c = Some nc" "End nc \<or> keyword_prefix nc w" by blast
  then obtain q where "prefix q w" "q \<in> lang nc"
    by (auto simp: keyword_prefix_def words_def intro: that [of "[]"])
  with nc(1) show "keyword_prefix n (c # w)"
    by (auto simp: keyword_prefix_def Cons_in_lang intro!: exI [of _ "c # q"])
qed

lemma keyword_prefix_Nil [simp]: "\<not> keyword_prefix n []"
  by (auto simp: keyword_prefix_def)

lemma cycleDel_eq:
  "cycleDel n c rest =
     (if keyword_prefix n (c # rest) then (Node (AList.delete c (children n)) (End n), True) else (n, False))"
proof (induction rest arbitrary: n c)
  case Nil
  show ?case by (auto simp: cycleDel.simps keyword_prefix_Cons split: option.splits)
next
  case (Cons d ds)
  show ?case
    using Cons.IH
    by (auto simp: cycleDel.simps [of n c] keyword_prefix_Cons [of n c] AList_update_same split: option.splits)
qed

lemma words_delete: "words (Node (AList.delete c (children n)) e) = {w \<in> words n. hd w \<noteq> c}"
proof (rule set_eqI)
  fix w
  show "w \<in> words (Node (AList.delete c (children n)) e) \<longleftrightarrow> w \<in> {w \<in> words n. hd w \<noteq> c}"
    by (cases w) (auto simp: Cons_in_lang delete_conv')
qed

lemma wf_delete: "wf_node n \<Longrightarrow> wf_node (Node (AList.delete c (children n)) e)"
  using set_AList_delete [of c "children n"]
  by (cases n) (auto simp: distinct_delete)

subsection \<open>ReadAll\<close>

fun list_words :: "node \<Rightarrow> rune list list" where
  "list_words (Node cs e) =
     concat (map (\<lambda>(c, n). (if End n then [[c]] else []) @ map ((#) c) (list_words n)) cs)"

lemma cycleRead_eq:
  "cycleRead n ws pw = ws @ map (\<lambda>w. pw @ string_of_runes w) (list_words n)"
proof (induction n arbitrary: ws pw)
  case (Node cs e)
  have "foldl (\<lambda>ws (c, nc). cycleRead nc (if End nc then ws @ [pw @ encoderune c] else ws) (pw @ encoderune c)) ws cs'
      = ws @ concat (map (\<lambda>(c, n). (if End n then [pw @ encoderune c] else [])
          @ map (\<lambda>w. pw @ encoderune c @ string_of_runes w) (list_words n)) cs')"
    if "set cs' \<subseteq> set cs" for cs'
    using that Node.IH by (induction cs' arbitrary: ws) (auto simp: Basic_BNFs.snds.simps split: prod.splits)
  moreover have "map (\<lambda>w. pw @ string_of_runes w)
        (case x of (c, n) \<Rightarrow> (if End n then [[c]] else []) @ map ((#) c) (list_words n))
      = (case x of (c, n) \<Rightarrow> (if End n then [pw @ encoderune c] else [])
          @ map (\<lambda>w. pw @ encoderune c @ string_of_runes w) (list_words n))" for x
    by (cases x) (simp add: comp_def)
  ultimately show ?case
    by (simp only: cycleRead.simps list_words.simps map_concat map_map comp_def subset_refl)
qed

lemma set_list_words: "wf_node n \<Longrightarrow> set (list_words n) = words n"
proof (induction n)
  case (Node cs e)
  have load: "load (Node cs e) c = Some nc \<longleftrightarrow> (c, nc) \<in> set cs" for c nc
    using Node.prems by simp
  have IH: "set (list_words nc) = words nc" if "(c, nc) \<in> set cs" for c nc
    using Node.IH [OF that, of nc] Node.prems that by auto
  have "w \<in> set (list_words (Node cs e)) \<longleftrightarrow> w \<in> words (Node cs e)" for w
  proof (cases w)
    case (Cons c v)
    have "w \<in> set (list_words (Node cs e))
        \<longleftrightarrow> (\<exists>nc. (c, nc) \<in> set cs \<and> (v = [] \<and> End nc \<or> v \<in> set (list_words nc)))"
      by (fastforce simp: Cons split: if_splits)
    also have "\<dots> \<longleftrightarrow> (\<exists>nc. (c, nc) \<in> set cs \<and> v \<in> lang nc)"
      using IH by (auto simp: words_def)
    finally show ?thesis by (simp only: Cons Cons_in_words Cons_in_lang load)
  qed auto
  then show ?case by blast
qed

lemma distinct_list_words: "wf_node n \<Longrightarrow> distinct (list_words n)"
proof (induction n)
  case (Node cs e)
  define f where "f = (\<lambda>(c :: rune, n). (if End n then [[c]] else []) @ map ((#) c) (list_words n))"
  have hd: "hd w = fst x \<and> w \<noteq> []" if "w \<in> set (f x)" for w x
    using that by (auto simp: f_def split: prod.splits if_splits)
  have d: "distinct (f x)" if x: "x \<in> set cs" for x
  proof -
    have "distinct (list_words (snd x))" "[] \<notin> set (list_words (snd x))"
      using Node.IH [of x "snd x"] Node.prems x set_list_words [of "snd x"] by auto
    then show ?thesis by (auto simp: f_def distinct_map split: prod.splits)
  qed
  have "distinct (concat (map f cs'))" if "set cs' \<subseteq> set cs" "distinct (map fst cs')" for cs'
    using that
  proof (induction cs')
    case (Cons x cs')
    have "set (f x) \<inter> set (f y) = {}" if "y \<in> set cs'" for y
    proof -
      have "fst x \<noteq> fst y" using Cons.prems(2) that by force
      then show ?thesis using hd [of _ x] hd [of _ y] by force
    qed
    then have "set (f x) \<inter> set (concat (map f cs')) = {}" by auto
    with Cons d [of x] show ?case by simp
  qed simp
  from this [of cs] Node.prems show ?case by (simp add: f_def)
qed

lemma words_valid: "wf_node n \<Longrightarrow> w \<in> lang n \<Longrightarrow> \<forall>c \<in> set w. valid_rune c"
proof (induction w arbitrary: n)
  case (Cons c w)
  then obtain nc where nc: "load n c = Some nc" "w \<in> lang nc" by (auto simp: Cons_in_lang)
  then have "(c, nc) \<in> set (children n)" by (simp add: map_of_SomeD)
  with Cons.prems(1) have "valid_rune c" "wf_node nc" by (cases n; auto)+
  with Cons.IH [OF _ nc(2)] show ?case by simp
qed simp

section \<open>The specification of Query\<close>

text \<open>
  What \<open>Query\<close> computes, stated on the set of keywords only. A text is cut into segments: a
  rune that is kept, or a keyword that was hit, either masked or allowed by a white list.

  At a position with remaining text \<open>xs\<close>, \<open>longest_hit\<close> gives the length of the keyword that
  the scan takes: the longest keyword of at least two runes that \<open>xs\<close> starts with; but if the
  whole of \<open>xs\<close> can be continued to a keyword, only \<open>xs\<close> itself is considered.
\<close>

definition longest_hit :: "rune list set \<Rightarrow> rune list \<Rightarrow> nat option" where
  "longest_hit W xs =
     (if \<exists>w \<in> W. prefix xs w then (if xs \<in> W \<and> 2 \<le> length xs then Some (length xs) else None)
      else let K = {k. 2 \<le> k \<and> k \<le> length xs \<and> take k xs \<in> W} in
           if K = {} then None else Some (Max K))"

datatype segment = Keep rune | Masked "rune list" | Allowed "rune list"

primrec seg_source :: "segment \<Rightarrow> rune list" where
  "seg_source (Keep r) = [r]"
| "seg_source (Masked w) = w"
| "seg_source (Allowed w) = w"

primrec seg_output :: "segment \<Rightarrow> rune list" where
  "seg_output (Keep r) = [r]"
| "seg_output (Masked w) = replicate (length w) asterisk"
| "seg_output (Allowed w) = w"

primrec seg_found :: "segment \<Rightarrow> rune list list" where
  "seg_found (Keep r) = []"
| "seg_found (Masked w) = [w]"
| "seg_found (Allowed w) = []"

definition source_text :: "segment list \<Rightarrow> rune list" where
  "source_text ss = concat (map seg_source ss)"

definition output_text :: "segment list \<Rightarrow> rune list" where
  "output_text ss = concat (map seg_output ss)"

definition found_words :: "segment list \<Rightarrow> string list" where
  "found_words ss = map string_of_runes (concat (map seg_found ss))"

lemma longest_hit_ge2: "longest_hit W xs = Some k \<Longrightarrow> 2 \<le> k \<and> k \<le> length xs \<and> take k xs \<in> W"
proof -
  assume h: "longest_hit W xs = Some k"
  define K where "K = {k. 2 \<le> k \<and> k \<le> length xs \<and> take k xs \<in> W}"
  have "finite K"
    by (rule finite_subset [of _ "{..length xs}"]) (auto simp: K_def)
  then have max: "K \<noteq> {} \<Longrightarrow> Max K \<in> K" by (rule Max_in)
  show ?thesis
  proof (cases "\<exists>w \<in> W. prefix xs w")
    case True
    with h show ?thesis by (auto simp: longest_hit_def split: if_splits)
  next
    case False
    with h max have "k \<in> K"
      unfolding longest_hit_def Let_def K_def [symmetric] by (auto split: if_splits)
    then show ?thesis by (simp add: K_def)
  qed
qed

function censor :: "rune list set \<Rightarrow> rune list \<Rightarrow> segment list" where
  "censor W xs =
     (case xs of
        [] \<Rightarrow> []
      | x # ys \<Rightarrow>
          (case longest_hit W xs of
             None \<Rightarrow> Keep x # censor W ys
           | Some k \<Rightarrow> Masked (take k xs) # censor W (drop k xs)))"
  by pat_completeness auto
termination
proof (relation "measure (\<lambda>(W, xs). length xs)")
  fix W :: "rune list set" and xs ys :: "rune list" and x :: rune and k :: nat
  assume "xs = x # ys" and "longest_hit W xs = Some k"
  with longest_hit_ge2 [of W xs k] show "((W, drop k xs), W, xs) \<in> measure (\<lambda>(W, xs). length xs)"
    by simp
qed auto

declare censor.simps [simp del]

text \<open>A white list may turn a masked segment into an allowed one, and nothing else.\<close>

definition spared :: "bool \<Rightarrow> segment \<Rightarrow> segment \<Rightarrow> bool" where
  "spared b s s' \<longleftrightarrow> s' = s \<or> b \<and> (\<exists>w. s = Masked w \<and> s' = Allowed w)"

lemma source_text_simps [simp]:
  "source_text [] = []" "source_text (s # ss) = seg_source s @ source_text ss"
  by (simp_all add: source_text_def)

lemma output_text_simps [simp]:
  "output_text [] = []" "output_text (s # ss) = seg_output s @ output_text ss"
  by (simp_all add: output_text_def)

lemma found_words_simps [simp]:
  "found_words [] = []" "found_words (Keep r # ss) = found_words ss"
  "found_words (Masked w # ss) = string_of_runes w # found_words ss"
  "found_words (Allowed w # ss) = found_words ss"
  by (simp_all add: found_words_def)

lemma seg_output_length: "length (seg_output s) = length (seg_source s)"
  by (cases s) auto

lemma output_text_length: "length (output_text ss) = length (source_text ss)"
  by (induction ss) (auto simp: seg_output_length)

lemma censor_Nil [simp]: "censor W [] = []"
  by (simp add: censor.simps)

lemma censor_miss: "longest_hit W (x # ys) = None \<Longrightarrow> censor W (x # ys) = Keep x # censor W ys"
  by (simp add: censor.simps [of W "x # ys"])

lemma censor_hit:
  "longest_hit W xs = Some k \<Longrightarrow> censor W xs = Masked (take k xs) # censor W (drop k xs)"
  using longest_hit_ge2 [of W xs k] by (subst censor.simps) (auto split: list.split)

lemma censor_induct [case_names Nil miss hit]:
  assumes "P []"
    and "\<And>x ys. longest_hit W (x # ys) = None \<Longrightarrow> P ys \<Longrightarrow> P (x # ys)"
    and "\<And>xs k. longest_hit W xs = Some k \<Longrightarrow> 2 \<le> k \<Longrightarrow> k \<le> length xs \<Longrightarrow> take k xs \<in> W \<Longrightarrow> P (drop k xs) \<Longrightarrow> P xs"
  shows "P xs"
proof (induction xs rule: length_induct)
  case (1 xs)
  show ?case
  proof (cases "longest_hit W xs")
    case None
    with 1 assms(1,2) show ?thesis by (cases xs) auto
  next
    case (Some k)
    with longest_hit_ge2 [OF this] 1 assms(3) [of xs k] show ?thesis by auto
  qed
qed

lemma censor_source: "source_text (censor W xs) = xs"
  by (induction xs rule: censor_induct [where W = W]) (simp_all add: censor_miss censor_hit)

lemma censor_words: "Masked w \<in> set (censor W xs) \<Longrightarrow> w \<in> W \<and> 2 \<le> length w"
  by (induction xs rule: censor_induct [where W = W]) (auto simp: censor_miss censor_hit)

lemma censor_no_Allowed: "Allowed w \<notin> set (censor W xs)"
  by (induction xs rule: censor_induct [where W = W]) (auto simp: censor_miss censor_hit)

lemma spared_source: "list_all2 (spared b) ss ss' \<Longrightarrow> source_text ss' = source_text ss"
  by (induction rule: list_all2_induct) (auto simp: spared_def)

lemma spared_False: "list_all2 (spared False) ss ss' \<longleftrightarrow> ss' = ss"
  by (induction ss arbitrary: ss') (auto simp: list_all2_Cons1 spared_def)

section \<open>Query against the specification\<close>

subsection \<open>Paths and keywords\<close>

lemma live_lang: "wf_node n \<Longrightarrow> End n \<or> children n \<noteq> [] \<Longrightarrow> \<exists>w. w \<in> lang n"
proof (induction n)
  case (Node cs e)
  show ?case
  proof (cases e)
    case True
    then show ?thesis by (intro exI [of _ "[]"]) simp
  next
    case False
    with Node.prems(2) obtain x where "x \<in> set cs" by (cases cs) auto
    then obtain c nc where c: "(c, nc) \<in> set cs" by (metis surj_pair)
    with Node.prems(1) have "wf_node nc" "End nc \<or> children nc \<noteq> []" by auto
    with Node.IH [OF c, of nc] obtain w where "w \<in> lang nc" by auto
    moreover have "load (Node cs e) c = Some nc" using c Node.prems(1) by simp
    ultimately show ?thesis by (intro exI [of _ "c # w"]) (simp add: Cons_in_lang)
  qed
qed

lemma wf_find_node:
  "wf_node n \<Longrightarrow> find_node n p = Some m \<Longrightarrow> wf_node m \<and> (p \<noteq> [] \<longrightarrow> End m \<or> children m \<noteq> [])"
proof (induction p arbitrary: n)
  case (Cons c p)
  then obtain nc where nc: "load n c = Some nc" "find_node nc p = Some m"
    by (auto split: option.splits)
  have "(c, nc) \<in> set (children n)" using nc(1) by (rule map_of_SomeD)
  with Cons.prems(1) have wf: "wf_node nc" "End nc \<or> children nc \<noteq> []" by (cases n; auto)+
  from Cons.IH [OF wf(1) nc(2)] wf nc(2) show ?case by (cases p) auto
qed simp

lemma path_iff_prefix:
  assumes "wf_node n" and "p \<noteq> []"
  shows "find_node n p \<noteq> None \<longleftrightarrow> (\<exists>w \<in> words n. prefix p w)"
proof
  assume "find_node n p \<noteq> None"
  then obtain m where m: "find_node n p = Some m" by blast
  with wf_find_node [OF assms(1)] assms(2) obtain w where "w \<in> lang m"
    using live_lang by blast
  then have "p @ w \<in> words n"
    using m assms(2) by (auto simp: words_def lang_def find_node_append)
  then show "\<exists>w \<in> words n. prefix p w" by (intro bexI [of _ "p @ w"]) simp_all
next
  assume "\<exists>w \<in> words n. prefix p w"
  then show "find_node n p \<noteq> None"
    by (auto simp: words_def lang_def prefix_def find_node_append split: option.splits)
qed

lemma in_words_iff_End:
  "find_node n p = Some m \<Longrightarrow> p \<noteq> [] \<Longrightarrow> p \<in> words n \<longleftrightarrow> End m"
  by (simp add: words_def lang_def)

subsection \<open>The inner loop\<close>

text \<open>
  The state of the inner loop at index \<open>j\<close>: the node reached, and in \<open>jj\<close> the end of the longest
  keyword seen so far (0 for none).
\<close>

definition seen :: "rune list set \<Rightarrow> rune list \<Rightarrow> nat \<Rightarrow> nat set" where
  "seen W ys m = {k. 2 \<le> k \<and> k \<le> m \<and> take k ys \<in> W}"

definition last_end :: "rune list set \<Rightarrow> rune list \<Rightarrow> nat \<Rightarrow> nat \<Rightarrow> nat" where
  "last_end W ys i m = (if seen W ys m = {} then 0 else i + Max (seen W ys m) - 1)"

lemma finite_seen [simp]: "finite (seen W ys m)"
  by (rule finite_subset [of _ "{..m}"]) (auto simp: seen_def)

lemma seen_Suc:
  "1 \<le> m \<Longrightarrow> seen W ys (Suc m) = (if take (Suc m) ys \<in> W then insert (Suc m) (seen W ys m) else seen W ys m)"
  by (auto simp: seen_def le_Suc_eq)

lemma seen_le: "k \<in> seen W ys m \<Longrightarrow> 2 \<le> k \<and> k \<le> m"
  by (simp add: seen_def)

lemma last_end_Suc:
  assumes "1 \<le> m"
  shows "last_end W ys i (Suc m) = (if take (Suc m) ys \<in> W then i + m else last_end W ys i m)"
proof -
  have "Max (insert (Suc m) (seen W ys m)) = Suc m"
    by (rule Max_eqI) (auto dest: seen_le)
  with assms show ?thesis by (auto simp: last_end_def seen_Suc)
qed

lemma last_end_1 [simp]: "last_end W ys i (Suc 0) = 0"
  using seen_le [of _ W ys "Suc 0"] by (fastforce simp: last_end_def)

lemma last_end_pos: "last_end W ys i m > 0 \<longleftrightarrow> seen W ys m \<noteq> {}"
proof (cases "seen W ys m = {}")
  case False
  with seen_le [OF Max_in [OF finite_seen]] have "2 \<le> Max (seen W ys m)" by blast
  with False show ?thesis by (simp add: last_end_def)
qed (simp add: last_end_def)

lemma longest_hit_blocked:
  assumes "\<forall>w \<in> W. \<not> prefix (take (Suc m) ys) w" and "m < length ys"
  shows "longest_hit W ys = (if seen W ys m = {} then None else Some (Max (seen W ys m)))"
proof -
  have "\<not> prefix ys w" if "w \<in> W" for w
    using assms(1) that take_is_prefix prefix_order.trans by blast
  moreover have "{k. 2 \<le> k \<and> k \<le> length ys \<and> take k ys \<in> W} = seen W ys m"
  proof -
    have "k \<le> m" if "take k ys \<in> W" for k
    proof (rule ccontr)
      assume "\<not> k \<le> m"
      then have "prefix (take (Suc m) ys) (take k ys)"
        by (metis Suc_leI not_le take_is_prefix take_take min.absorb1)
      with assms(1) that show False by blast
    qed
    with assms(2) show ?thesis by (fastforce simp: seen_def)
  qed
  ultimately show ?thesis by (simp add: longest_hit_def)
qed

text \<open>The result of the inner loop, and the ways in which a turn of it goes.\<close>

definition inner_result :: "white_test \<Rightarrow> rune list \<Rightarrow> string list \<Rightarrow> nat \<Rightarrow> nat option \<Rightarrow> (nat \<times> string list \<times> rune list) go" where
  "inner_result white chars found i h =
     (case h of None \<Rightarrow> Ret (i, found, chars) | Some k \<Rightarrow> hit white chars found i (i + k - 1))"

definition inner_at :: "node \<Rightarrow> rune list \<Rightarrow> nat \<Rightarrow> nat \<Rightarrow> node \<Rightarrow> nat \<Rightarrow> nat \<Rightarrow> bool" where
  "inner_at root ys i m n jj j \<longleftrightarrow> find_node root (take m ys) = Some n \<and> 1 \<le> m \<and> m \<le> length ys
    \<and> jj = last_end (words root) ys i m \<and> j = i + m \<and> (m = length ys \<longrightarrow> 2 \<le> m \<longrightarrow> ys \<notin> words root)"

lemma inner_text_ends:
  assumes "wf_node root" and "inner_at root ys i m n jj j" and "m = length ys"
  shows "longest_hit (words root) ys = None"
proof -
  have "ys \<noteq> []" "find_node root ys \<noteq> None" using assms(2,3) by (auto simp: inner_at_def)
  with path_iff_prefix [OF assms(1), of ys] have "\<exists>w \<in> words root. prefix ys w" by simp
  with assms(2,3) show ?thesis by (auto simp: inner_at_def longest_hit_def)
qed

lemma inner_path_ends:
  assumes "wf_node root" and "inner_at root ys i m n jj j" and "m < length ys" and "load n (ys ! m) = None"
  shows "inner_result white chars found i (longest_hit (words root) ys) =
    (if jj > 0 then hit white chars found i jj else Ret (i, found, chars))"
proof -
  have tk: "take (Suc m) ys = take m ys @ [ys ! m]" using assms(3) by (simp add: take_Suc_conv_app_nth)
  then have "find_node root (take (Suc m) ys) = None"
    using find_node_snoc [of root "take m ys" n "ys ! m"] assms(2,4) by (simp add: inner_at_def)
  then have "longest_hit (words root) ys = (if seen (words root) ys m = {} then None else Some (Max (seen (words root) ys m)))"
    using path_iff_prefix [OF assms(1), of "take (Suc m) ys"] assms(3) tk by (intro longest_hit_blocked) auto
  with assms(2) last_end_pos [of "words root" ys i m] show ?thesis
    by (auto simp: inner_at_def inner_result_def last_end_def)
qed

lemma inner_child:
  assumes "inner_at root ys i m n jj j" and "m < length ys" and "load n (ys ! m) = Some n'"
  shows "find_node root (take (Suc m) ys) = Some n'" and "take (Suc m) ys \<in> words root \<longleftrightarrow> End n'"
proof -
  have "take (Suc m) ys = take m ys @ [ys ! m]" using assms(2) by (simp add: take_Suc_conv_app_nth)
  then show find: "find_node root (take (Suc m) ys) = Some n'"
    using find_node_snoc [of root "take m ys" n "ys ! m"] assms(1,3) by (simp add: inner_at_def)
  show "take (Suc m) ys \<in> words root \<longleftrightarrow> End n'" using assms(2) by (intro in_words_iff_End [OF find]) auto
qed

lemma query_inner_eq:
  assumes "wf_node root" and "ys = drop i chars" and "inner_at root ys i m n jj j"
  shows "query_inner white chars found i n jj j = inner_result white chars found i (longest_hit (words root) ys)"
  using assms(3)
proof (induction "length ys - m" arbitrary: m n jj j)
  case 0
  then have m: "m = length ys" and j: "\<not> j < length chars" by (auto simp: assms(2) inner_at_def)
  from j show ?case
    using inner_text_ends [OF assms(1) "0.prems" m] by (subst query_inner.simps) (simp add: inner_result_def)
next
  case (Suc d)
  let ?W = "words root"
  from Suc(2) Suc.prems have m: "m < length ys" "1 \<le> m" and j: "j < length chars" "j = i + m" and jm: "chars ! j = ys ! m"
    by (auto simp: assms(2) inner_at_def)
  show ?case
  proof (cases "load n (ys ! m)")
    case None
    with j(1) jm inner_path_ends [OF assms(1) Suc.prems m(1) None] show ?thesis by (subst query_inner.simps) simp
  next
    case (Some n')
    note child = inner_child [OF Suc.prems m(1) Some]
    show ?thesis
    proof (cases "End n' \<and> j + 1 = length chars")
      case True
      with m j have ys: "take (Suc m) ys = ys" "Suc m = length ys" by (auto simp: assms(2))
      with True child(2) m(2) have "longest_hit ?W ys = Some (Suc m)" by (auto simp: longest_hit_def)
      moreover have "length chars - Suc 0 = j" "i + Suc m - 1 = j" using True j(2) by linarith+
      ultimately show ?thesis using True Some j(1) jm by (subst query_inner.simps) (simp add: inner_result_def)
    next
      case False
      have "inner_at root ys i (Suc m) n' (last_end ?W ys i (Suc m)) (i + Suc m)"
        using child m j False by (auto simp: inner_at_def assms(2))
      with Suc(1) [of "Suc m"] Suc(2) have
        "query_inner white chars found i n' (last_end ?W ys i (Suc m)) (i + Suc m) = inner_result white chars found i (longest_hit ?W ys)"
        by simp
      moreover have "jj = last_end ?W ys i m" using Suc.prems by (simp add: inner_at_def)
      ultimately show ?thesis
        using False Some j jm child(2) last_end_Suc [OF m(2), of ?W ys i] by (subst query_inner.simps) auto
    qed
  qed
qed

subsection \<open>The outer loop\<close>

definition hit_step :: "white_test \<Rightarrow> rune list \<Rightarrow> nat \<Rightarrow> nat \<Rightarrow> segment go" where
  "hit_step white chars i k =
     go_bind (white chars i (i + k - 1))
       (\<lambda>w. Ret ((if w then Allowed else Masked) (take k (drop i chars))))"

lemma hit_eq:
  assumes "1 \<le> k" and "i + k \<le> length chars"
  shows "hit white chars found i (i + k - 1) =
    go_bind (hit_step white chars i k)
      (\<lambda>s. Ret (i + k - 1, found @ map string_of_runes (seg_found s), take i chars @ seg_output s @ drop (i + k) chars))"
  using assms
  by (cases "white chars i (i + k - 1)")
    (auto simp: hit_def hit_step_def replaceToAsterisk_def min_def take_add [symmetric] simp flip: append_assoc)

lemma query_outer_step:
  assumes "wf_node root" and "i < length chars"
  shows "query_outer white root chars found i =
    (case longest_hit (words root) (drop i chars) of
       None \<Rightarrow> query_outer white root chars found (i + 1)
     | Some k \<Rightarrow>
         go_bind (hit_step white chars i k)
           (\<lambda>s. query_outer white root (take i chars @ seg_output s @ drop (i + k) chars)
                 (found @ map string_of_runes (seg_found s)) (i + k)))"
proof (cases "load root (chars ! i)")
  case None
  let ?ys = "drop i chars"
  have ys: "?ys \<noteq> []" "take (Suc 0) ?ys = [chars ! i]"
    using assms(2) by (simp_all add: take_Suc hd_drop_conv_nth)
  have "longest_hit (words root) ?ys = (if seen (words root) ?ys 0 = {} then None else Some (Max (seen (words root) ?ys 0)))"
    using path_iff_prefix [OF assms(1), of "[chars ! i]"] None assms(2) ys
    by (intro longest_hit_blocked) auto
  also have "\<dots> = None" by (auto simp: seen_def)
  finally show ?thesis using None assms(2) by (subst query_outer.simps) simp
next
  case (Some n)
  let ?ys = "drop i chars"
  have ys: "take (Suc 0) ?ys = [chars ! i]"
    using assms(2) by (simp add: take_Suc hd_drop_conv_nth)
  have "inner_at root ?ys i 1 n 0 (i + 1)" using Some ys assms(2) by (auto simp: inner_at_def)
  from query_inner_eq [OF assms(1) refl this] show ?thesis
    using Some assms(2) longest_hit_ge2 [of "words root" ?ys] hit_eq [of _ i chars white found]
    by (subst query_outer.simps) (auto simp: inner_result_def go_bind_assoc split: option.splits)
qed

lemma take_drop_segment:
  fixes chars :: "rune list"
  assumes "i + k \<le> length chars" and "length seg = k"
  shows "drop (i + k) (take i chars @ seg @ drop (i + k) chars) = drop (i + k) chars"
    and "take (i + k) (take i chars @ seg @ drop (i + k) chars) = take i chars @ seg"
    and "length (take i chars @ seg @ drop (i + k) chars) = length chars"
  using assms by (auto simp: min_def)

lemma hit_step_segment:
  assumes "hit_step white chars i k = Ret s" and "i + k \<le> length chars" and "1 \<le> k"
  shows "length (seg_output s) = k"
    and "spared (\<exists>cs i j. white cs i j = Ret True) (Masked (take k (drop i chars))) s"
  using assms by (auto simp: hit_step_def spared_def min_def split: if_splits)

text \<open>What is left of the text after position \<open>i\<close>, cut into segments, with the results that the loop has collected so far.\<close>

definition outer_result :: "bool \<Rightarrow> rune list set \<Rightarrow> rune list \<Rightarrow> string list \<Rightarrow> nat \<Rightarrow> string list \<times> rune list \<Rightarrow> bool" where
  "outer_result sp W chars found i r \<longleftrightarrow>
     (\<exists>ss. list_all2 (spared sp) (censor W (drop i chars)) ss
        \<and> fst r = found @ found_words ss \<and> snd r = take i chars @ output_text ss)"

lemma outer_result_miss:
  assumes "i < length chars" and "longest_hit W (drop i chars) = None" and "outer_result sp W chars found (i + 1) r"
  shows "outer_result sp W chars found i r"
proof -
  have ys: "drop i chars = chars ! i # drop (i + 1) chars" using assms(1) by (simp add: Cons_nth_drop_Suc)
  from assms(3) obtain ss where "list_all2 (spared sp) (censor W (drop (i + 1) chars)) ss"
    "fst r = found @ found_words ss" "snd r = take (i + 1) chars @ output_text ss" by (auto simp: outer_result_def)
  moreover have "spared sp (Keep (chars ! i)) (Keep (chars ! i))" by (simp add: spared_def)
  ultimately show ?thesis
    using assms(1,2) censor_miss [of W "chars ! i" "drop (i + 1) chars"] unfolding outer_result_def
    by (intro exI [of _ "Keep (chars ! i) # ss"]) (simp add: ys take_Suc_conv_app_nth)
qed

lemma outer_result_hit:
  assumes "longest_hit W (drop i chars) = Some k" and "i < length chars" and "length (seg_output s) = k"
    and "spared sp (Masked (take k (drop i chars))) s"
    and "outer_result sp W (take i chars @ seg_output s @ drop (i + k) chars) (found @ map string_of_runes (seg_found s)) (i + k) r"
  shows "outer_result sp W chars found i r"
proof -
  have k: "2 \<le> k" "i + k \<le> length chars" using longest_hit_ge2 [OF assms(1)] assms(2) by auto
  from assms(5) obtain ss where "list_all2 (spared sp) (censor W (drop (i + k) chars)) ss"
    "fst r = (found @ map string_of_runes (seg_found s)) @ found_words ss" "snd r = (take i chars @ seg_output s) @ output_text ss"
    unfolding outer_result_def take_drop_segment [OF k(2) assms(3)] by blast
  with assms(4) k(1) censor_hit [OF assms(1)] show ?thesis
    unfolding outer_result_def by (intro exI [of _ "s # ss"]) (auto simp: found_words_def add.commute)
qed

lemma query_outer_spec:
  assumes "wf_node root" and "i \<le> length chars" and "query_outer white root chars found i = Ret r"
  shows "outer_result (\<exists>cs i j. white cs i j = Ret True) (words root) chars found i r"
  using assms(2,3)
proof (induction "length chars - i" arbitrary: chars found i rule: less_induct)
  case less
  show ?case
  proof (cases "i < length chars")
    case False
    with less.prems show ?thesis by (auto simp: query_outer.simps outer_result_def intro: exI [of _ "[]"])
  next
    case i: True
    note step = query_outer_step [OF assms(1) i, of white found]
    show ?thesis
    proof (cases "longest_hit (words root) (drop i chars)")
      case None
      with less.prems(2) step have "query_outer white root chars found (i + 1) = Ret r" by simp
      with less.hyps [of chars "i + 1" found] i show ?thesis by (intro outer_result_miss [OF i None]) simp
    next
      case (Some k)
      with longest_hit_ge2 [of "words root" "drop i chars" k] i have k: "2 \<le> k" "i + k \<le> length chars" by auto
      from less.prems(2) Some step obtain s where s: "hit_step white chars i k = Ret s"
        and rest: "query_outer white root (take i chars @ seg_output s @ drop (i + k) chars)
            (found @ map string_of_runes (seg_found s)) (i + k) = Ret r"
        by auto
      note seg = hit_step_segment [OF s k(2)]
      have "length (take i chars @ seg_output s @ drop (i + k) chars) = length chars"
        using take_drop_segment(3) [OF k(2)] seg(1) k(1) by simp
      moreover have "length chars - (i + k) < length chars - i" using k i by simp
      ultimately show ?thesis using less.hyps [OF _ _ rest] k seg by (intro outer_result_hit [OF Some i]) simp_all
    qed
  qed
qed

lemma query_outer_total:
  assumes "wf_node root" and "i \<le> length chars" and "\<And>cs i j. \<exists>b. white cs i j = Ret b"
  shows "\<exists>r. query_outer white root chars found i = Ret r"
  using assms(2)
proof (induction "length chars - i" arbitrary: chars found i rule: less_induct)
  case less
  show ?case
  proof (cases "i < length chars")
    case False
    then show ?thesis by (simp add: query_outer.simps)
  next
    case i: True
    note step = query_outer_step [OF assms(1) i, of white found]
    show ?thesis
    proof (cases "longest_hit (words root) (drop i chars)")
      case None
      with step i less.hyps [of chars "i + 1" found] show ?thesis by auto
    next
      case (Some k)
      with longest_hit_ge2 [of "words root" "drop i chars" k] have k: "2 \<le> k" "i + k \<le> length chars" by auto
      obtain b where "white chars i (i + k - 1) = Ret b" using assms(3) by blast
      then obtain s where s: "hit_step white chars i k = Ret s" by (simp add: hit_step_def)
      note td = take_drop_segment [OF k(2), of "seg_output s"] hit_step_segment(1) [OF s k(2)]
      have "length (take i chars @ seg_output s @ drop (i + k) chars) - (i + k) < length chars - i"
        and "i + k \<le> length (take i chars @ seg_output s @ drop (i + k) chars)"
        using td k i by auto
      from less.hyps [OF this] step Some s show ?thesis by auto
    qed
  qed
qed

subsection \<open>The whole query\<close>

text \<open>A trie with the white lists it checks, all the way down.\<close>

fun complete_trie :: "Trie \<Rightarrow> bool" where
  "complete_trie (Trie root check wp ws) \<longleftrightarrow>
     wf_node root \<and>
     (check \<longrightarrow> (case wp of None \<Rightarrow> False | Some p \<Rightarrow> complete_trie p) \<and>
                (case ws of None \<Rightarrow> False | Some p \<Rightarrow> complete_trie p))"

definition answers :: "(string \<Rightarrow> query_result go) \<Rightarrow> bool" where
  "answers q \<longleftrightarrow> (\<forall>s. \<exists>e f out. q s = Ret (e, f, out) \<and> (e \<longrightarrow> out \<noteq> []))"

lemma isInWhitePreffixList_answers: "answers q \<Longrightarrow> \<exists>b. isInWhitePreffixList q chars i = Ret b"
proof -
  assume "answers q"
  then obtain e f out where "q (string_of_runes (take (i + 1 - (i - 4)) (drop (i - 4) chars))) = Ret (e, f, out)"
    "e \<longrightarrow> out \<noteq> []" unfolding answers_def by blast
  then show ?thesis
    by (auto simp: isInWhitePreffixList_def go_index_def Let_def)
qed

lemma isInWhiteSuffixList_answers: "answers q \<Longrightarrow> \<exists>b. isInWhiteSuffixList q chars j = Ret b"
proof -
  assume "answers q"
  define s where "s = string_of_runes (take ((if j + 5 > length chars then length chars else j + 5) - j) (drop j chars))"
  from \<open>answers q\<close> obtain e f out where "q s = Ret (e, f, out)" "e \<longrightarrow> out \<noteq> []"
    unfolding answers_def by blast
  then show ?thesis
    unfolding isInWhiteSuffixList_def Let_def s_def [symmetric] by (auto simp: go_index_def)
qed

lemma isInWhiteList_answers: "answers q \<Longrightarrow> answers q' \<Longrightarrow> \<exists>b. isInWhiteList q q' chars i j = Ret b"
  using isInWhitePreffixList_answers [of q chars i] isInWhiteSuffixList_answers [of q' chars j]
  unfolding isInWhiteList_def by fastforce

definition query_spec :: "Trie \<Rightarrow> string \<Rightarrow> query_result \<Rightarrow> bool" where
  "query_spec t text r \<longleftrightarrow>
     (\<exists>ss. list_all2 (spared (CheckWhiteList t)) (censor (vocabulary t) (runes_of text)) ss
        \<and> r = (found_words ss \<noteq> [], found_words ss, string_of_runes (output_text ss)))"

text \<open>A query that finds a word returns a text: this is what the white lists rely on when they look at its first or last rune.\<close>

lemma query_spec_text:
  assumes "query_spec t s (e, f, out)" and e
  shows "out \<noteq> []"
proof
  assume "out = []"
  from assms obtain ss where ss: "list_all2 (spared (CheckWhiteList t)) (censor (vocabulary t) (runes_of s)) ss"
    "found_words ss \<noteq> []" "out = string_of_runes (output_text ss)"
    unfolding query_spec_def by blast
  have "output_text ss = []" using ss(3) \<open>out = []\<close> string_of_runes_eq_Nil by metis
  then have "source_text ss = []" using output_text_length [of ss] by simp
  then have "runes_of s = []" using spared_source [OF ss(1)] by (simp add: censor_source)
  with ss(1,2) show False by simp
qed

lemma query_spec_answers:
  assumes "\<And>s. \<exists>r. Query t s = Ret r \<and> query_spec t s r"
  shows "answers (Query t)"
  unfolding answers_def
proof
  fix s
  obtain e f out where "Query t s = Ret (e, f, out)" "query_spec t s (e, f, out)" using assms [of s] by (metis prod_cases3)
  with query_spec_text show "\<exists>e f out. Query t s = Ret (e, f, out) \<and> (e \<longrightarrow> out \<noteq> [])" by blast
qed

definition white_of :: "bool \<Rightarrow> Trie option \<Rightarrow> Trie option \<Rightarrow> white_test" where
  "white_of check wp ws = (\<lambda>cs i j. if check
     then isInWhiteList (\<lambda>s. case wp of None \<Rightarrow> Panic NilDereference | Some p \<Rightarrow> Query p s)
       (\<lambda>s. case ws of None \<Rightarrow> Panic NilDereference | Some p \<Rightarrow> Query p s) cs i j
     else Ret False)"

lemma Query_outer:
  "Query (Trie root check wp ws) input =
     (if input = [] then Ret (False, [], [])
      else go_bind (query_outer (white_of check wp ws) root (runes_of input) [] 0)
        (\<lambda>(found, chars). Ret (found \<noteq> [], found, string_of_runes chars)))"
  by (simp add: Query.simps white_of_def Let_def split: prod.split)

lemma Query_correct: "complete_trie t \<Longrightarrow> \<exists>r. Query t input = Ret r \<and> query_spec t input r"
proof (induction t arbitrary: input)
  case (Trie root check wp ws)
  let ?white = "white_of check wp ws"
  have wf: "wf_node root" using Trie.prems by simp
  have "\<exists>b. ?white cs i j = Ret b" for cs i j
  proof (cases check)
    case True
    with Trie.prems obtain p p' where p: "wp = Some p" "complete_trie p" "ws = Some p'" "complete_trie p'"
      by (auto split: option.splits)
    with Trie.IH query_spec_answers have "answers (Query p)" "answers (Query p')" by auto
    with True p isInWhiteList_answers show ?thesis by (simp add: white_of_def)
  qed (auto simp: white_of_def)
  then obtain found chars where out: "query_outer ?white root (runes_of input) [] 0 = Ret (found, chars)"
    using query_outer_total [of root 0 "runes_of input" ?white "[]"] wf by auto
  from query_outer_spec [OF wf _ this] obtain ss where ss:
    "list_all2 (spared (\<exists>cs i j. ?white cs i j = Ret True)) (censor (words root) (runes_of input)) ss"
    "found = found_words ss" "chars = output_text ss"
    by (auto simp: outer_result_def)
  have "spared (\<exists>cs i j. ?white cs i j = Ret True) s s' \<Longrightarrow> spared check s s'" for s s'
    by (auto simp: spared_def white_of_def split: if_splits)
  with ss(1) have ss': "list_all2 (spared check) (censor (words root) (runes_of input)) ss"
    using list_all2_mono by blast
  have "Query (Trie root check wp ws) input = Ret (found_words ss \<noteq> [], found_words ss, string_of_runes (output_text ss))"
    using out ss ss' by (cases "input = []") (simp_all add: Query_outer)
  with ss' show ?case by (auto simp: query_spec_def vocabulary_def)
qed

section \<open>The trie as a store of keywords\<close>

text \<open>
  The contract the users of the trie rely on: loading a dictionary gives exactly its non-empty
  keywords, and the listing shows each of them once.
\<close>

locale keyword_store =
  fixes inv :: "'s \<Rightarrow> bool"
    and empty :: 's
    and add :: "string \<Rightarrow> 's \<Rightarrow> 's"
    and vocab :: "'s \<Rightarrow> rune list set"
    and listing :: "'s \<Rightarrow> string list"
  assumes inv_empty: "inv empty"
    and vocab_empty: "vocab empty = {}"
    and inv_add: "inv s \<Longrightarrow> inv (add k s)"
    and vocab_add: "inv s \<Longrightarrow> vocab (add k s) = vocab s \<union> ({runes_of k} - {[]})"
    and set_listing: "inv s \<Longrightarrow> set (listing s) = string_of_runes ` vocab s"
    and distinct_listing: "inv s \<Longrightarrow> distinct (listing s)"
begin

lemma load_vocab: "inv s \<Longrightarrow> inv (fold add ks s) \<and> vocab (fold add ks s) = vocab s \<union> (runes_of ` set ks - {[]})"
  by (induction ks arbitrary: s) (auto simp: inv_add vocab_add)

lemma load_listing:
  "set (listing (fold add ks empty)) = string_of_runes ` (runes_of ` set ks - {[]})
   \<and> distinct (listing (fold add ks empty))"
  using load_vocab [OF inv_empty, of ks] by (simp add: set_listing distinct_listing vocab_empty)

end

lemma wf_Add: "wf_trie t \<Longrightarrow> wf_trie (Add k t)"
  by (auto simp: wf_trie_def Add_def Let_def wf_add_path runes_of_valid)

lemma vocabulary_Add: "vocabulary (Add k t) = vocabulary t \<union> ({runes_of k} - {[]})"
  by (auto simp: vocabulary_def Add_def Let_def words_def lang_add_path)

lemma wf_Del: "wf_trie t \<Longrightarrow> wf_trie (Del k t)"
  by (auto simp: wf_trie_def Del_def cycleDel_eq wf_delete simp del: wf_node.simps split: list.splits)

lemma CheckWhiteList_Add [simp]: "CheckWhiteList (Add k t) = CheckWhiteList t"
  by (simp add: Add_def Let_def)

interpretation trie_store: keyword_store wf_trie NewTrie Add vocabulary ReadAll
proof unfold_locales
  show "wf_trie NewTrie" "vocabulary NewTrie = {}"
    by (simp_all add: wf_trie_def NewTrie_def vocabulary_def words_def)
  fix s k
  assume wf: "wf_trie s"
  show "wf_trie (Add k s)" using wf by (rule wf_Add)
  show "vocabulary (Add k s) = vocabulary s \<union> ({runes_of k} - {[]})" by (rule vocabulary_Add)
  show "set (ReadAll s) = string_of_runes ` vocabulary s"
    using wf by (simp add: ReadAll_def cycleRead_eq wf_trie_def vocabulary_def set_list_words)
  have "\<forall>w \<in> set (list_words (Root s)). \<forall>r \<in> set w. valid_rune r"
    using wf words_valid by (auto simp: wf_trie_def set_list_words words_def)
  then have "distinct (map string_of_runes (list_words (Root s)))"
    using utf8.distinct_map_print [of "list_words (Root s)"] wf
    by (simp add: wf_trie_def distinct_list_words)
  then show "distinct (ReadAll s)" by (simp add: ReadAll_def cycleRead_eq)
qed

lemma complete_wf: "complete_trie t \<Longrightarrow> wf_trie t"
  by (cases t) (simp add: wf_trie_def)

lemma complete_unchecked: "wf_trie t \<Longrightarrow> \<not> CheckWhiteList t \<Longrightarrow> complete_trie t"
  by (cases t) (simp add: wf_trie_def)

lemma wf_dictionary [simp]: "wf_trie (fold Add ks NewTrie)"
  using trie_store.load_vocab [OF trie_store.inv_empty] by simp

lemma vocabulary_dictionary: "vocabulary (fold Add ks NewTrie) = runes_of ` set ks - {[]}"
  using trie_store.load_vocab [OF trie_store.inv_empty] by (simp add: trie_store.vocab_empty)

lemma CheckWhiteList_dictionary [simp]: "CheckWhiteList (fold Add ks NewTrie) = False"
proof -
  have "CheckWhiteList (fold Add ks t) = CheckWhiteList t" for t
    by (induction ks arbitrary: t) simp_all
  then show ?thesis by (simp add: NewTrie_def)
qed

lemma complete_dictionary [simp]: "complete_trie (fold Add ks NewTrie)"
  by (rule complete_unchecked) simp_all

lemma longest_hit_NoneD:
  assumes "longest_hit W xs = None" and "w \<in> W" and "2 \<le> length w" and "prefix w xs"
  shows "xs \<notin> W \<and> (\<exists>v \<in> W. prefix xs v)"
proof -
  have "length w \<in> {k. 2 \<le> k \<and> k \<le> length xs \<and> take k xs \<in> W}"
    using assms(2,3,4) by (auto simp: prefix_length_le prefix_def)
  then have "\<exists>v \<in> W. prefix xs v"
    using assms(1) by (auto simp: longest_hit_def Let_def split: if_splits)
  moreover from this have "xs \<in> W \<Longrightarrow> \<not> 2 \<le> length xs"
    using assms(1) by (auto simp: longest_hit_def split: if_splits)
  ultimately show ?thesis using assms(3,4) prefix_length_le by fastforce
qed

lemma censor_clean:
  "found_words (censor W xs) = [] \<Longrightarrow> longest_hit W (drop i xs) = None \<or> drop i xs = []"
proof (induction i arbitrary: xs)
  case 0
  then show ?case by (cases "longest_hit W xs") (auto simp: censor_hit)
next
  case (Suc i)
  show ?case
  proof (cases xs)
    case (Cons x ys)
    with Suc.prems have "longest_hit W xs = None" by (cases "longest_hit W xs") (auto simp: censor_hit)
    with Suc Cons censor_miss [of W x ys] show ?thesis by simp
  qed simp
qed

lemma seg_output_pointwise:
  "k < length (seg_source s) \<Longrightarrow> seg_output s ! k = seg_source s ! k \<or> seg_output s ! k = asterisk"
  by (cases s) auto

lemma output_text_pointwise:
  "k < length (source_text ss) \<Longrightarrow> output_text ss ! k = source_text ss ! k \<or> output_text ss ! k = asterisk"
proof (induction ss arbitrary: k)
  case (Cons s ss)
  show ?case
  proof (cases "k < length (seg_source s)")
    case True
    then show ?thesis using seg_output_pointwise [of k s] by (simp add: nth_append seg_output_length)
  next
    case False
    then show ?thesis
      using Cons.IH [of "k - length (seg_source s)"] Cons.prems by (simp add: nth_append seg_output_length)
  qed
qed simp

lemma output_text_valid:
  "\<forall>r \<in> set (source_text ss). valid_rune r \<Longrightarrow> \<forall>r \<in> set (output_text ss). valid_rune r"
  using output_text_pointwise [of _ ss] output_text_length [of ss]
  by (fastforce simp: in_set_conv_nth asterisk_def)

lemma found_words_spared:
  assumes "list_all2 (spared b) (censor W xs) ss" and "f \<in> set (found_words ss)"
  shows "\<exists>w \<in> W. f = string_of_runes w \<and> 2 \<le> length w"
proof -
  from assms(2) obtain s w where s: "s \<in> set ss" "w \<in> set (seg_found s)" "f = string_of_runes w"
    by (auto simp: found_words_def)
  have "s = Masked w" using s(2) by (cases s) auto
  moreover from s(1) obtain s0 where "s0 \<in> set (censor W xs)" "spared b s0 s"
    using assms(1) by (metis in_set_conv_nth list_all2_conv_all_nth)
  ultimately have "Masked w \<in> set (censor W xs)" by (auto simp: spared_def)
  with censor_words s(3) show ?thesis by blast
qed

section \<open>The trie as a filter\<close>

text \<open>
  The contract of a store that also deletes and scans texts. A scan cuts the text with the set of keywords alone; a store that
  checks white lists may spare a masked word. A deletion removes all keywords with the first rune of its argument, if
  some keyword is a prefix of the argument, and otherwise nothing.
\<close>

definition forget :: "string \<Rightarrow> rune list set \<Rightarrow> rune list set" where
  "forget k W = (if \<exists>p \<in> W. prefix p (runes_of k) then {w \<in> W. hd w \<noteq> hd (runes_of k)} else W)"

text \<open>A history of a store, and what it does to a plain set of words.\<close>

datatype trie_op = AddOp string | DelOp string

primrec store_apply :: "(string \<Rightarrow> 's \<Rightarrow> 's) \<Rightarrow> (string \<Rightarrow> 's \<Rightarrow> 's) \<Rightarrow> trie_op \<Rightarrow> 's \<Rightarrow> 's" where
  "store_apply add remove (AddOp k) s = add k s"
| "store_apply add remove (DelOp k) s = remove k s"

primrec words_apply :: "trie_op \<Rightarrow> rune list set \<Rightarrow> rune list set" where
  "words_apply (AddOp k) W = (if k = [] then W else insert (runes_of k) W)"
| "words_apply (DelOp k) W = forget k W"

locale keyword_filter = keyword_store +
  fixes remove :: "string \<Rightarrow> 'a \<Rightarrow> 'a"
    and scan :: "'a \<Rightarrow> string \<Rightarrow> query_result go"
    and checks :: "'a \<Rightarrow> bool"
    and usable :: "'a \<Rightarrow> bool"
  assumes inv_remove: "inv s \<Longrightarrow> inv (remove k s)"
    and vocab_remove: "inv s \<Longrightarrow> vocab (remove k s) = forget k (vocab s)"
    and checks_empty: "\<not> checks empty"
    and checks_add: "checks (add k s) = checks s"
    and checks_remove: "checks (remove k s) = checks s"
    and unchecked_usable: "inv s \<Longrightarrow> \<not> checks s \<Longrightarrow> usable s"
    and scan_result: "usable s \<Longrightarrow> \<exists>ss. list_all2 (spared (checks s)) (censor (vocab s) (runes_of input)) ss
        \<and> scan s input = Ret (found_words ss \<noteq> [], found_words ss, string_of_runes (output_text ss))"
begin

lemma masks_in_place:
  assumes "usable s" and "scan s input = Ret (exist, found, out)"
  shows "length (runes_of out) = length (runes_of input)
    \<and> (\<forall>k < length (runes_of input). runes_of out ! k = runes_of input ! k \<or> runes_of out ! k = asterisk)
    \<and> (\<forall>f \<in> set found. \<exists>w \<in> vocab s. f = string_of_runes w \<and> 2 \<le> length w)
    \<and> (exist \<longleftrightarrow> found \<noteq> [])"
proof -
  from scan_result [OF assms(1), of input] assms(2) obtain ss where
    ss: "list_all2 (spared (checks s)) (censor (vocab s) (runes_of input)) ss"
    and r: "exist = (found_words ss \<noteq> [])" "found = found_words ss" "out = string_of_runes (output_text ss)"
    by auto
  have src: "source_text ss = runes_of input" using spared_source [OF ss] by (simp add: censor_source)
  then have "runes_of out = output_text ss"
    using output_text_valid [of ss] runes_of_valid [of input] by (simp add: r(3) runes_of_string_of_runes)
  with src r found_words_spared [OF ss] show ?thesis
    using output_text_length [of ss] output_text_pointwise [of _ ss] by simp
qed

lemma clean_verdict:
  assumes "inv s" and "\<not> checks s" and "scan s input = Ret (False, found, out)"
    and "w \<in> vocab s" and "2 \<le> length w" and "prefix w (drop i (runes_of input))"
  shows "drop i (runes_of input) \<notin> vocab s \<and> (\<exists>v \<in> vocab s. prefix (drop i (runes_of input)) v)"
proof -
  have "found_words (censor (vocab s) (runes_of input)) = []"
    using scan_result [OF unchecked_usable [OF assms(1,2)], of input] assms(2,3) by (auto simp: spared_False)
  then have "longest_hit (vocab s) (drop i (runes_of input)) = None"
    using censor_clean [of "vocab s" "runes_of input" i] assms(5,6) by auto
  then show ?thesis using assms(4-6) by (rule longest_hit_NoneD)
qed

lemma history_from:
  assumes "inv s"
  shows "inv (fold (store_apply add remove) ops s)
    \<and> vocab (fold (store_apply add remove) ops s) = fold words_apply ops (vocab s)
    \<and> checks (fold (store_apply add remove) ops s) = checks s"
  using assms
proof (induction ops arbitrary: s)
  case (Cons opn ops)
  have "inv (store_apply add remove opn s)" "checks (store_apply add remove opn s) = checks s"
    "vocab (store_apply add remove opn s) = words_apply opn (vocab s)"
    using Cons.prems by (cases opn; auto simp: inv_add inv_remove checks_add checks_remove vocab_add vocab_remove)+
  then show ?case using Cons.IH [of "store_apply add remove opn s"] by simp
qed simp

lemma history:
  fixes ops
  defines "s \<equiv> fold (store_apply add remove) ops empty"
  shows "inv s \<and> vocab s = fold words_apply ops {} \<and> set (listing s) = string_of_runes ` fold words_apply ops {}
    \<and> distinct (listing s) \<and> (\<exists>r. scan s input = Ret r)"
proof -
  have "inv s" "vocab s = fold words_apply ops {}" "\<not> checks s"
    using history_from [OF inv_empty, of ops] by (simp_all add: s_def vocab_empty checks_empty)
  with set_listing [of s] distinct_listing [of s] scan_result [OF unchecked_usable, of s input] show ?thesis by auto
qed

end

lemma vocabulary_Del:
  "vocabulary (Del k t) =
     (if \<exists>p \<in> vocabulary t. prefix p (runes_of k)
      then {w \<in> vocabulary t. hd w \<noteq> hd (runes_of k)} else vocabulary t)"
proof -
  have "vocabulary (Del k t) =
      (if keyword_prefix (Root t) (runes_of k)
       then {w \<in> vocabulary t. hd w \<noteq> hd (runes_of k)} else vocabulary t)"
    by (cases "runes_of k") (auto simp: vocabulary_def Del_def cycleDel_eq words_delete)
  then show ?thesis by (auto simp: keyword_prefix_def vocabulary_def)
qed

lemma CheckWhiteList_Del [simp]: "CheckWhiteList (Del k t) = CheckWhiteList t"
  by (simp add: Del_def split: list.split prod.split)

lemma Query_result:
  assumes "complete_trie t"
  shows "\<exists>ss. list_all2 (spared (CheckWhiteList t)) (censor (vocabulary t) (runes_of input)) ss
    \<and> Query t input = Ret (found_words ss \<noteq> [], found_words ss, string_of_runes (output_text ss))"
  using Query_correct [OF assms, of input] by (auto simp: query_spec_def)

interpretation trie_filter: keyword_filter wf_trie NewTrie Add vocabulary ReadAll Del Query CheckWhiteList complete_trie
proof
  show "\<not> CheckWhiteList NewTrie" by (simp add: NewTrie_def)
  show "vocabulary (Del k t) = forget k (vocabulary t)" for k t by (simp add: vocabulary_Del forget_def)
qed (simp_all add: wf_Del complete_unchecked Query_result)

section \<open>Properties\<close>

text \<open>
  C1. A query never panics on a trie whose white lists are present, and its three results are
  those of the specification: the text is cut by \<open>censor\<close> on the set of keywords alone, a white
  list can only spare a masked keyword (and only if \<open>CheckWhiteList\<close> is set), the found words are
  the masked ones in order, the flag says whether there is one, and the text has each of them
  replaced by asterisks.
\<close>

theorem Query_meets_specification:
  assumes "complete_trie t"
  shows "\<exists>ss. list_all2 (spared (CheckWhiteList t)) (censor (vocabulary t) (runes_of input)) ss
    \<and> Query t input = Ret (found_words ss \<noteq> [], found_words ss, string_of_runes (output_text ss))"
  by (rule trie_filter.scan_result [OF assms])

theorem Query_meets_specification_witness:
  "complete_trie (fold Add [''bad''] NewTrie) \<and>
   (\<exists>ss. list_all2 (spared False) (censor (vocabulary (fold Add [''bad''] NewTrie)) (runes_of ''a bad day'')) ss
     \<and> found_words ss = [''bad''] \<and> string_of_runes (output_text ss) = ''a *** day'')"
proof -
  have "Query (fold Add [''bad''] NewTrie) ''a bad day'' = Ret (True, [''bad''], ''a *** day'')"
    by code_simp
  with Query_meets_specification [OF complete_dictionary, of "[''bad'']" "''a bad day''"]
  show ?thesis by (simp only: CheckWhiteList_dictionary complete_dictionary) (metis go.inject(2) prod.inject)
qed

text \<open>
  C17. Masking is in place: the text returned has as many runes as the given one, and each is the
  given rune or an asterisk; every found word is a keyword of at least two runes.
\<close>

theorem Query_masks_in_place:
  assumes "complete_trie t" and "Query t input = Ret (exist, found, out)"
  shows "length (runes_of out) = length (runes_of input)
    \<and> (\<forall>k < length (runes_of input). runes_of out ! k = runes_of input ! k \<or> runes_of out ! k = asterisk)
    \<and> (\<forall>f \<in> set found. \<exists>w \<in> vocabulary t. f = string_of_runes w \<and> 2 \<le> length w)
    \<and> (exist \<longleftrightarrow> found \<noteq> [])"
  by (rule trie_filter.masks_in_place [OF assms])

theorem Query_masks_in_place_witness:
  "Query (fold Add [''bad''] NewTrie) ''a bad day'' = Ret (True, [''bad''], ''a *** day'')
   \<and> length (runes_of ''a *** day'') = length (runes_of ''a bad day'')
   \<and> (\<exists>w. w \<in> vocabulary (fold Add [''bad''] NewTrie) \<and> ''bad'' = string_of_runes w \<and> 2 \<le> length w)"
proof -
  have eval: "Query (fold Add [''bad''] NewTrie) ''a bad day'' = Ret (True, [''bad''], ''a *** day'')"
    by code_simp
  show ?thesis
    using eval Query_masks_in_place [OF complete_dictionary eval] by (auto simp del: fold.simps)
qed

text \<open>
  C18. A verdict "no sensitive word" of a trie without white lists: wherever the text does contain a
  keyword of at least two runes, the rest of the text from there is not a keyword but the proper
  beginning of a longer one. Only there does the scan miss a keyword.
\<close>

theorem Query_clean_verdict:
  assumes "wf_trie t" and "\<not> CheckWhiteList t" and "Query t input = Ret (False, found, out)"
    and "w \<in> vocabulary t" and "2 \<le> length w" and "prefix w (drop i (runes_of input))"
  shows "drop i (runes_of input) \<notin> vocabulary t \<and> (\<exists>v \<in> vocabulary t. prefix (drop i (runes_of input)) v)"
  by (rule trie_filter.clean_verdict [OF assms])

theorem Query_clean_verdict_witness:
  "Query (fold Add [''ab'', ''abcd''] NewTrie) ''xabc'' = Ret (False, [], ''xabc'')
   \<and> drop 1 (runes_of ''xabc'') \<notin> vocabulary (fold Add [''ab'', ''abcd''] NewTrie)
   \<and> (\<exists>v. v \<in> vocabulary (fold Add [''ab'', ''abcd''] NewTrie) \<and> prefix (drop 1 (runes_of ''xabc'')) v)"
proof -
  have eval: "Query (fold Add [''ab'', ''abcd''] NewTrie) ''xabc'' = Ret (False, [], ''xabc'')"
    by code_simp
  have runes: "runes_of ''ab'' = [97, 98]" "drop 1 (runes_of ''xabc'') = [97, 98, 99]"
    by code_simp+
  have "runes_of ''ab'' \<in> vocabulary (fold Add [''ab'', ''abcd''] NewTrie)"
    by (simp only: vocabulary_dictionary) simp
  from Query_clean_verdict [OF wf_dictionary _ eval this, of 1] eval show ?thesis
    by (simp add: runes del: fold.simps drop_Suc_Cons One_nat_def) blast
qed

text \<open>
  C15. Loading a list of keywords into a new trie and reading it back gives exactly the non-empty
  keywords (invalid UTF-8 replaced as Go does), each once.
\<close>

theorem ReadAll_after_Add:
  "set (ReadAll (fold Add ks NewTrie)) = string_of_runes ` (runes_of ` set ks - {[]})
   \<and> distinct (ReadAll (fold Add ks NewTrie))"
  by (rule trie_store.load_listing)

text \<open>
  C16. The exact effect of \<open>Del\<close>: if some keyword is a prefix of the argument (the argument itself,
  for one), every keyword with the same first rune goes; otherwise nothing changes. The tree
  invariant is kept.
\<close>

theorem Del_vocabulary:
  assumes "wf_trie t"
  shows "wf_trie (Del k t) \<and>
    vocabulary (Del k t) =
      (if \<exists>p \<in> vocabulary t. prefix p (runes_of k)
       then {w \<in> vocabulary t. hd w \<noteq> hd (runes_of k)} else vocabulary t)"
  using wf_Del [OF assms] vocabulary_Del by blast

theorem Del_vocabulary_witness:
  "wf_trie (fold Add [''ab'', ''ac'', ''bc''] NewTrie)
   \<and> vocabulary (Del ''ab'' (fold Add [''ab'', ''ac'', ''bc''] NewTrie)) = {runes_of ''bc''}"
proof -
  define t where "t = fold Add [''ab'', ''ac'', ''bc''] NewTrie"
  have runes: "runes_of ''ab'' = [97, 98]" "runes_of ''ac'' = [97, 99]" "runes_of ''bc'' = [98, 99]"
    by code_simp+
  have wf: "wf_trie t" unfolding t_def by (rule wf_dictionary)
  have "vocabulary t = runes_of ` set [''ab'', ''ac'', ''bc''] - {[]}"
    unfolding t_def by (rule vocabulary_dictionary)
  then have voc: "vocabulary t = {[97, 98], [97, 99], [98, 99]}" by (auto simp: runes)
  have "vocabulary (Del ''ab'' t) = {w \<in> vocabulary t. hd w \<noteq> 97}"
    using Del_vocabulary [OF wf, of "''ab''"] by (simp add: voc runes)
  also have "\<dots> = {runes_of ''bc''}" by (auto simp: voc runes)
  finally show ?thesis using wf unfolding t_def by blast
qed

text \<open>
  C19: whatever keywords are added and deleted, in whatever order, the trie stays well-formed, the words it holds are those of the set on which the same
  operations act, the listing shows each of them once, and a query returns a result for every text, without a panic.
\<close>

theorem trie_history_typed:
  "wf_trie (fold (store_apply Add Del) ops NewTrie) \<and> vocabulary (fold (store_apply Add Del) ops NewTrie) = fold words_apply ops {}
   \<and> set (ReadAll (fold (store_apply Add Del) ops NewTrie)) = string_of_runes ` fold words_apply ops {}
   \<and> distinct (ReadAll (fold (store_apply Add Del) ops NewTrie))
   \<and> (\<exists>r. Query (fold (store_apply Add Del) ops NewTrie) input = Ret r)"
  by (rule trie_filter.history)

end
