(* ===== verification/Dao_Errors.thy ===== *)
theory Dao_Errors
  imports Go_Strings
begin

text \<open>
  The errors of the database component (\<open>components/dao/errors/errors.go\<close>): one constructor for each
  error variable of the package and its message, and the errors the component passes on, made by
  \<open>fmt.Errorf\<close> or \<open>errors.New\<close> at the place of the failure, by \<open>strconv\<close>, or by the database driver.
\<close>

section \<open>Definitions\<close>

datatype dao_sentinel =
    ErrNoMasterConn
  | ErrNoSlaveConn
  | ErrNoDefaultNode
  | ErrNoMasterDB
  | ErrNoSlaveDB
  | ErrNoDatabase
  | ErrMasterDown
  | ErrSlaveDown
  | ErrDatabaseClose
  | ErrConnIsNil
  | ErrBadConn
  | ErrIgnoreSQL
  | ErrAddressNull
  | ErrInvalidArgument
  | ErrInvalidCharset
  | ErrCmdUnsupport
  | ErrLocationsCount
  | ErrNoCriteria
  | ErrNoRouteNode
  | ErrResultNil
  | ErrSumColumnType
  | ErrSelectInInsert
  | ErrInsertInMulti
  | ErrUpdateInMulti
  | ErrDeleteInMulti
  | ErrReplaceInMulti
  | ErrExecInMulti
  | ErrTransInMulti
  | ErrNoPlan
  | ErrNoPlanRule
  | ErrUpdateKey
  | ErrStmtConvert
  | ErrExprConvert
  | ErrConnNotEqual
  | ErrKeyOutOfRange
  | ErrKeyNotExist
  | ErrMultiShard
  | ErrIRNoColumns
  | ErrIRNoShardingKey
  | ErrColsLenNotMatch
  | ErrDateIllegal
  | ErrDateRangeIllegal
  | ErrDateRangeCount
  | ErrSlaveExist
  | ErrSlaveNotExist
  | ErrBlackSqlExist
  | ErrBlackSqlNotExist
  | ErrInsertTooComplex
  | ErrSQLNULL
  | ErrInternalServer

primrec dao_message :: "dao_sentinel \<Rightarrow> string" where
  "dao_message ErrNoMasterConn = ''no master connection''"
| "dao_message ErrNoSlaveConn = ''no slave connection''"
| "dao_message ErrNoDefaultNode = ''no default node''"
| "dao_message ErrNoMasterDB = ''no master database''"
| "dao_message ErrNoSlaveDB = ''no slave database''"
| "dao_message ErrNoDatabase = ''no database''"
| "dao_message ErrMasterDown = ''master is down''"
| "dao_message ErrSlaveDown = ''slave is down''"
| "dao_message ErrDatabaseClose = ''database is close''"
| "dao_message ErrConnIsNil = ''connection is nil''"
| "dao_message ErrBadConn = ''connection was bad''"
| "dao_message ErrIgnoreSQL = ''ignore this sql''"
| "dao_message ErrAddressNull = ''address is nil''"
| "dao_message ErrInvalidArgument = ''argument is invalid''"
| "dao_message ErrInvalidCharset = ''charset is invalid''"
| "dao_message ErrCmdUnsupport = ''command unsupport''"
| "dao_message ErrLocationsCount = ''locations count is not equal''"
| "dao_message ErrNoCriteria = ''plan have no criteria''"
| "dao_message ErrNoRouteNode = ''no route node''"
| "dao_message ErrResultNil = ''result is nil''"
| "dao_message ErrSumColumnType = ''sum column type error''"
| "dao_message ErrSelectInInsert = ''select in insert not allowed''"
| "dao_message ErrInsertInMulti = ''insert in multi node''"
| "dao_message ErrUpdateInMulti = ''update in multi node''"
| "dao_message ErrDeleteInMulti = ''delete in multi node''"
| "dao_message ErrReplaceInMulti = ''replace in multi node''"
| "dao_message ErrExecInMulti = ''exec in multi node''"
| "dao_message ErrTransInMulti = ''transaction in multi node''"
| "dao_message ErrNoPlan = ''statement have no plan''"
| "dao_message ErrNoPlanRule = ''statement have no plan rule''"
| "dao_message ErrUpdateKey = ''routing key in update expression''"
| "dao_message ErrStmtConvert = ''statement fail to convert''"
| "dao_message ErrExprConvert = ''expr fail to convert''"
| "dao_message ErrConnNotEqual = ''the length of conns not equal sqls''"
| "dao_message ErrKeyOutOfRange = ''shard key not in key range''"
| "dao_message ErrKeyNotExist = ''shard key not exist''"
| "dao_message ErrMultiShard = ''insert or replace has multiple shard targets''"
| "dao_message ErrIRNoColumns = ''insert or replace must specify columns''"
| "dao_message ErrIRNoShardingKey = ''insert or replace not contain sharding key''"
| "dao_message ErrColsLenNotMatch = ''insert or replace cols and values length not match''"
| "dao_message ErrDateIllegal = ''date format illegal''"
| "dao_message ErrDateRangeIllegal = ''date range format illegal''"
| "dao_message ErrDateRangeCount = ''date range count is not equal''"
| "dao_message ErrSlaveExist = ''slave has exist''"
| "dao_message ErrSlaveNotExist = ''slave has not exist''"
| "dao_message ErrBlackSqlExist = ''black sql has exist''"
| "dao_message ErrBlackSqlNotExist = ''black sql has not exist''"
| "dao_message ErrInsertTooComplex = ''insert is too complex''"
| "dao_message ErrSQLNULL = ''sql is null''"
| "dao_message ErrInternalServer = ''internal server error''"

datatype dao_error = Sentinel dao_sentinel | Errorf string | Strconv num_error | Driver string

definition all_sentinels :: "dao_sentinel list" where
  "all_sentinels =
    [ErrNoMasterConn, ErrNoSlaveConn, ErrNoDefaultNode, ErrNoMasterDB, ErrNoSlaveDB,
     ErrNoDatabase, ErrMasterDown, ErrSlaveDown, ErrDatabaseClose, ErrConnIsNil, ErrBadConn,
     ErrIgnoreSQL, ErrAddressNull, ErrInvalidArgument, ErrInvalidCharset, ErrCmdUnsupport,
     ErrLocationsCount, ErrNoCriteria, ErrNoRouteNode, ErrResultNil, ErrSumColumnType,
     ErrSelectInInsert, ErrInsertInMulti, ErrUpdateInMulti, ErrDeleteInMulti,
     ErrReplaceInMulti, ErrExecInMulti, ErrTransInMulti, ErrNoPlan, ErrNoPlanRule,
     ErrUpdateKey, ErrStmtConvert, ErrExprConvert, ErrConnNotEqual, ErrKeyOutOfRange,
     ErrKeyNotExist, ErrMultiShard, ErrIRNoColumns, ErrIRNoShardingKey, ErrColsLenNotMatch,
     ErrDateIllegal, ErrDateRangeIllegal, ErrDateRangeCount, ErrSlaveExist, ErrSlaveNotExist,
     ErrBlackSqlExist, ErrBlackSqlNotExist, ErrInsertTooComplex, ErrSQLNULL,
     ErrInternalServer]"

section \<open>Messages identify the error\<close>

lemma all_sentinels_complete: "s \<in> set all_sentinels"
  by (cases s) (simp_all add: all_sentinels_def)

lemma distinct_dao_messages: "distinct (map dao_message all_sentinels)"
  by code_simp

lemma dao_message_inj: "dao_message s = dao_message t \<longleftrightarrow> s = t"
  using distinct_dao_messages all_sentinels_complete by (auto simp: distinct_map inj_on_def)

end
