(* ===== verification/Go_Time.thy ===== *)
theory Go_Time
  imports Go_Strings
begin

text \<open>
  The calendar of Go's \<open>time\<close> package as the shard rules use it: \<open>time.Unix(sec, 0)\<close> in a location
  given by its offset from UTC in seconds, \<open>Year\<close>, and \<open>Format\<close> with the layout \<open>2006-01-02\<close>. The
  computation on the absolute second count is the package's own, on 64-bit integers. The lemmas show
  that the date grows with the time.
\<close>

section \<open>Definitions\<close>

definition absoluteZeroYear :: int where
  "absoluteZeroYear = - 292277022399"

definition unixToAbsolute :: int where
  "unixToAbsolute = 9223372028715321600"

definition abs_seconds :: "int \<Rightarrow> int \<Rightarrow> nat" where
  "abs_seconds offset sec = nat (uint64 (sec + offset + unixToAbsolute))"

text \<open>The year counted from the absolute zero year, and the day of the year.\<close>

definition absYear :: "nat \<Rightarrow> nat \<times> nat" where
  "absYear d =
     (let n4 = d div 146097; d1 = d - 146097 * n4;
          c0 = d1 div 36524; c = c0 - c0 div 4; d2 = d1 - 36524 * c;
          q = d2 div 1461; d3 = d2 - 1461 * q;
          u0 = d3 div 365; u = u0 - u0 div 4; d4 = d3 - 365 * u
      in (400 * n4 + 100 * c + 4 * q + u, d4))"

definition isLeap :: "int \<Rightarrow> bool" where
  "isLeap year \<longleftrightarrow> year mod 4 = 0 \<and> (year mod 100 \<noteq> 0 \<or> year mod 400 = 0)"

definition daysBefore :: "nat list" where
  "daysBefore = [0, 31, 59, 90, 120, 151, 181, 212, 243, 273, 304, 334, 365]"

definition monthDay :: "bool \<Rightarrow> nat \<Rightarrow> nat \<times> nat" where
  "monthDay leap yday =
     (if leap \<and> yday = 59 then (2, 29)
      else
        let day = (if leap \<and> yday > 59 then yday - 1 else yday);
            m = day div 31; end_m = daysBefore ! (m + 1)
        in if day \<ge> end_m then (m + 2, day - end_m + 1) else (m + 1, day - daysBefore ! m + 1))"

record date =
  year :: int
  month :: nat
  day :: nat

definition date_of :: "int \<Rightarrow> int \<Rightarrow> date" where
  "date_of offset sec =
     (let (y, yday) = absYear (abs_seconds offset sec div 86400);
          yr = int y + absoluteZeroYear; (m, d) = monthDay (isLeap yr) yday
      in \<lparr>year = yr, month = m, day = d\<rparr>)"

definition pad_int :: "nat \<Rightarrow> int \<Rightarrow> string" where
  "pad_int width x =
     (let ds = format_nat (nat \<bar>x\<bar>) in
      (if x < 0 then ''-'' else []) @ replicate (width - length ds) (CHR ''0'') @ ds)"

definition format_date :: "date \<Rightarrow> string" where
  "format_date t = pad_int 4 (year t) @ ''-'' @ pad_int 2 (int (month t)) @ ''-'' @ pad_int 2 (int (day t))"

section \<open>The calendar grows with time\<close>

definition days_to_year :: "nat \<Rightarrow> nat" where
  "days_to_year y = 365 * y + y div 4 + y div 400 - y div 100"

lemma days_to_year_Suc:
  "days_to_year (Suc y) =
     days_to_year y + 365 + (if 4 dvd Suc y \<and> (\<not> 100 dvd Suc y \<or> 400 dvd Suc y) then 1 else 0)"
proof -
  have Suc_div: "Suc y div k = y div k + (if k dvd Suc y then 1 else 0)" for k
    by (simp add: div_Suc dvd_eq_mod_eq_0)
  have "100 dvd Suc y \<Longrightarrow> 4 dvd Suc y" "400 dvd Suc y \<Longrightarrow> 100 dvd Suc y"
    by (rule dvd_trans [of _ 100], simp, assumption, rule dvd_trans [of _ 400], simp, assumption)
  moreover have "y div 100 \<le> 365 * y" by (rule order_trans [OF div_le_dividend]) simp
  moreover have "365 * Suc y + (a + (if P then 1 else 0)) + (c + (if R then 1 else 0)) - (b + (if Q then 1 else 0))
      = 365 * y + a + c - b + 365 + (if P \<and> (\<not> Q \<or> R) then 1 else 0)"
    if "Q \<Longrightarrow> P" "R \<Longrightarrow> Q" "b \<le> 365 * y" for a b c :: nat and P Q R
    using that by (cases P; cases Q; cases R) simp_all
  ultimately show ?thesis unfolding days_to_year_def Suc_div by blast
qed

lemma days_to_year_mono: "y \<le> z \<Longrightarrow> days_to_year y \<le> days_to_year z"
  by (rule lift_Suc_mono_le [of days_to_year]) (simp_all add: days_to_year_Suc)

text \<open>A quotient by the length of a period of which the fourth is one longer: it is capped at three.\<close>

lemma capped_quotient:
  fixes d n c :: nat
  assumes "d \<le> 4 * n" and "0 < n" and "c = d div n - d div n div 4"
  shows "c \<le> 3" and "n * c \<le> d" and "d - n * c \<le> n" and "d - n * c = n \<Longrightarrow> c = 3"
proof -
  define q where "q = d div n"
  have q: "n * q \<le> d" "d < n * q + n"
    unfolding q_def using dividend_less_times_div [OF assms(2), of d] by simp_all
  have "q \<le> 4" unfolding q_def using assms(1,2) div_le_mono [OF assms(1), of n] by simp
  then have "q < 4 \<and> c = q \<or> q = 4 \<and> c = 3"
    using assms(3) unfolding q_def [symmetric] by (cases "q = 4") auto
  with q assms(1) show "c \<le> 3" "n * c \<le> d" "d - n * c \<le> n" "d - n * c = n \<Longrightarrow> c = 3" by auto
qed

text \<open>The count of days split into periods of 400, 100, 4 years and one year.\<close>

lemma absYear_split:
  assumes "absYear d = (y, yday)"
  obtains n4 c q u where "y = 400 * n4 + 100 * c + 4 * q + u" and "d = 146097 * n4 + 36524 * c + 1461 * q + 365 * u + yday"
    and "c \<le> 3" and "q \<le> 24" and "u \<le> 3" and "yday \<le> 365" and "yday = 365 \<longrightarrow> u = 3"
    and "1461 * q + 365 * u + yday = 36524 \<longrightarrow> c = 3"
proof -
  define n4 where "n4 = d div 146097"
  define d1 where "d1 = d - 146097 * n4"
  define c where "c = d1 div 36524 - d1 div 36524 div 4"
  define d2 where "d2 = d1 - 36524 * c"
  define q where "q = d2 div 1461"
  define d3 where "d3 = d2 - 1461 * q"
  define u where "u = d3 div 365 - d3 div 365 div 4"
  note defs = n4_def [symmetric] d1_def [symmetric] c_def [symmetric] d2_def [symmetric]
    q_def [symmetric] d3_def [symmetric] u_def [symmetric]
  have y: "y = 400 * n4 + 100 * c + 4 * q + u" and yday: "yday = d3 - 365 * u"
    using assms unfolding absYear_def Let_def defs by auto
  have d: "d = 146097 * n4 + d1" and d1: "d1 < 146097"
    unfolding d1_def n4_def by (simp_all add: minus_mult_div_eq_mod)
  have c: "c \<le> 3" "d1 = 36524 * c + d2" "d2 \<le> 36524" "d2 = 36524 \<Longrightarrow> c = 3"
    using capped_quotient [OF _ _ c_def] d1 by (simp_all add: d2_def)
  have d3: "d2 = 1461 * q + d3" "d3 < 1461"
    unfolding d3_def q_def by (simp_all add: minus_mult_div_eq_mod)
  have q: "q \<le> 24" unfolding q_def using c(3) by linarith
  have u: "u \<le> 3" "d3 = 365 * u + yday" "yday \<le> 365" "yday = 365 \<Longrightarrow> u = 3"
    using capped_quotient [OF _ _ u_def] d3(2) by (simp_all add: yday)
  show thesis
    using that [OF y] d c d3 q u by simp
qed

lemma absYear_correct:
  assumes "absYear d = (y, yday)"
  shows "d = days_to_year y + yday" and "d < days_to_year (Suc y)"
proof -
  from assms obtain n4 c q u where y: "y = 400 * n4 + 100 * c + 4 * q + u"
    and d: "d = 146097 * n4 + 36524 * c + 1461 * q + 365 * u + yday"
    and b: "c \<le> 3" "q \<le> 24" "u \<le> 3" "yday \<le> 365" "yday = 365 \<longrightarrow> u = 3" "1461 * q + 365 * u + yday = 36524 \<longrightarrow> c = 3"
    by (rule absYear_split)
  have "y div 4 = 100 * n4 + 25 * c + q" "y div 100 = 4 * n4 + c" "y div 400 = n4"
    using b(1-3) unfolding y by linarith+
  then have "days_to_year y = 146097 * n4 + 36524 * c + 1461 * q + 365 * u"
    by (simp add: days_to_year_def y)
  then show eq: "d = days_to_year y + yday" using d by simp
  have leap: "4 dvd Suc y \<and> (\<not> 100 dvd Suc y \<or> 400 dvd Suc y)" if last: "yday = 365"
  proof -
    have "Suc y = 4 * (100 * n4 + 25 * c + q + 1)" and Suc_y: "Suc y = 100 * (4 * n4 + c) + (4 * q + 4)"
      unfolding y using b(5) last by simp_all
    moreover have "400 dvd Suc y" if "100 dvd Suc y"
    proof -
      have "100 dvd 4 * q + 4" using that Suc_y by (metis dvd_add_right_iff dvd_triv_left)
      then obtain k where "4 * q + 4 = 100 * k" by (rule dvdE)
      moreover from this have "1 \<le> k" by (cases k) simp_all
      ultimately have "q = 24" using b(2) by linarith
      then have "Suc y = 400 * (n4 + 1)" using b(5,6) last Suc_y by simp
      then show ?thesis by (metis dvd_triv_left)
    qed
    ultimately show ?thesis by (metis dvd_triv_left)
  qed
  show "d < days_to_year (Suc y)"
    using eq b(4) leap by (cases "yday = 365") (auto simp: days_to_year_Suc)
qed

lemma absYear_mono:
  assumes "absYear d = (y, yday)" and "absYear d' = (y', yday')" and "d \<le> d'"
  shows "y \<le> y'" and "y = y' \<Longrightarrow> yday \<le> yday'"
proof -
  show "y \<le> y'"
  proof (rule ccontr)
    assume "\<not> y \<le> y'"
    then have "days_to_year (Suc y') \<le> days_to_year y" by (intro days_to_year_mono) simp
    with absYear_correct [OF assms(1)] absYear_correct [OF assms(2)] assms(3) show False by simp
  qed
  show "y = y' \<Longrightarrow> yday \<le> yday'"
    using absYear_correct(1) [OF assms(1)] absYear_correct(1) [OF assms(2)] assms(3) by simp
qed

lemma absYear_unique:
  assumes "d = days_to_year y + yday" and "d < days_to_year (Suc y)"
  shows "absYear d = (y, yday)"
proof -
  obtain y' yday' where e: "absYear d = (y', yday')" by fastforce
  note c = absYear_correct [OF e]
  have "y' = y"
  proof (rule ccontr)
    assume "y' \<noteq> y"
    then consider "Suc y' \<le> y" | "Suc y \<le> y'" by linarith
    then show False
    proof cases
      case 1
      then show False using days_to_year_mono [OF 1] c(2) assms by simp
    next
      case 2
      then show False using days_to_year_mono [OF 2] c assms by simp
    qed
  qed
  with e c(1) assms(1) show ?thesis by simp
qed

definition month_day_code :: "nat \<times> nat \<Rightarrow> nat" where
  "month_day_code md = fst md * 100 + snd md"

lemma month_table:
  assumes "m = d div 31" and "d < 365"
  shows "m < 12 \<and> daysBefore ! m \<le> d \<and> (d < daysBefore ! Suc m \<or> m < 11 \<and> d < daysBefore ! Suc (Suc m))"
proof -
  have m: "31 * m \<le> d" "d < 31 * m + 31" using assms(1) dividend_less_times_div [of 31 d] by simp_all
  with assms(2) have "m < 12" by simp
  then have "m = 0 \<or> m = 1 \<or> m = 2 \<or> m = 3 \<or> m = 4 \<or> m = 5 \<or> m = 6 \<or> m = 7 \<or> m = 8 \<or> m = 9 \<or> m = 10 \<or> m = 11"
    by presburger
  with m assms(2) show ?thesis
    by (elim disjE) (simp_all add: daysBefore_def)
qed

lemma month_of_day:
  assumes "d < 365"
  obtains k where "k < 12" "daysBefore ! k \<le> d" "d < daysBefore ! Suc k"
    "monthDay False d = (Suc k, Suc (d - daysBefore ! k))"
proof (cases "d < daysBefore ! Suc (d div 31)")
  case True
  with month_table [OF refl assms] that [of "d div 31"] show ?thesis by (auto simp: monthDay_def Let_def)
next
  case False
  with month_table [OF refl assms] that [of "Suc (d div 31)"] show ?thesis by (auto simp: monthDay_def Let_def)
qed

lemma daysBefore_mono: "k \<le> k' \<Longrightarrow> k' < 13 \<Longrightarrow> daysBefore ! k \<le> daysBefore ! k'"
proof (rule sorted_nth_mono)
  show "sorted daysBefore" by (simp add: daysBefore_def)
qed (simp_all add: daysBefore_def)

lemma daysBefore_step: "k < 12 \<Longrightarrow> daysBefore ! Suc k \<le> daysBefore ! k + 31"
proof -
  have "list_all (\<lambda>k. daysBefore ! Suc k \<le> daysBefore ! k + 31) [0..<12]" by code_simp
  then show "k < 12 \<Longrightarrow> daysBefore ! Suc k \<le> daysBefore ! k + 31" by (simp only: list_all_iff) simp
qed

lemma month_day_bounds_common:
  assumes "d < 365"
  shows "1 \<le> fst (monthDay False d) \<and> fst (monthDay False d) \<le> 12
    \<and> 1 \<le> snd (monthDay False d) \<and> snd (monthDay False d) \<le> 31"
proof (rule month_of_day [OF assms])
  fix k
  assume "k < 12" "daysBefore ! k \<le> d" "d < daysBefore ! Suc k"
    "monthDay False d = (Suc k, Suc (d - daysBefore ! k))"
  with daysBefore_step [of k] show ?thesis by simp
qed

lemma month_day_code_less_common:
  assumes "a < b" and "b < 365"
  shows "month_day_code (monthDay False a) < month_day_code (monthDay False b)"
proof -
  have "a < 365" using assms by simp
  then obtain k where k: "k < 12" "daysBefore ! k \<le> a" "a < daysBefore ! Suc k"
    "monthDay False a = (Suc k, Suc (a - daysBefore ! k))" by (rule month_of_day)
  from assms(2) obtain l where l: "l < 12" "daysBefore ! l \<le> b" "b < daysBefore ! Suc l"
    "monthDay False b = (Suc l, Suc (b - daysBefore ! l))" by (rule month_of_day)
  have "k \<le> l"
  proof (rule ccontr)
    assume "\<not> k \<le> l"
    then have "daysBefore ! Suc l \<le> daysBefore ! k" using k(1) by (intro daysBefore_mono) simp_all
    with k l assms(1) show False by simp
  qed
  then consider "k = l" | "Suc k \<le> l" by linarith
  then show ?thesis
    using assms(1) k l daysBefore_step [of k] by cases (auto simp: month_day_code_def)
qed

lemma monthDay_leap:
  "monthDay True d = (if d = 59 then (2, 29) else monthDay False (if d > 59 then d - 1 else d))"
  by (simp add: monthDay_def)

lemma month_day_leap_day: "monthDay False 58 = (2, 28)" "monthDay False 59 = (3, 1)"
  by code_simp+

lemma month_day_bounds:
  assumes "yday < 365 + (if l then 1 else 0)"
  shows "1 \<le> fst (monthDay l yday) \<and> fst (monthDay l yday) \<le> 12
    \<and> 1 \<le> snd (monthDay l yday) \<and> snd (monthDay l yday) \<le> 31"
  using assms month_day_bounds_common [of yday] month_day_bounds_common [of "yday - 1"]
  by (cases l) (auto simp: monthDay_leap)

lemma month_day_code_less:
  assumes "a < b" and "b < 365 + (if l then 1 else 0)"
  shows "month_day_code (monthDay l a) < month_day_code (monthDay l b)"
proof (cases l)
  case True
  have "month_day_code (monthDay False a) < 229" if "a < 59"
    using month_day_code_less_common [of a 59] month_day_code_less_common [of a 58] that
    by (cases "a = 58") (simp_all add: month_day_leap_day month_day_code_def)
  moreover have "301 \<le> month_day_code (monthDay False (b - 1))" if "59 < b"
  proof (cases "b = 60")
    case False
    with that have "59 < b - 1" "b - 1 < 365" using assms(2) True by simp_all
    from month_day_code_less_common [OF this] show ?thesis by (simp add: month_day_leap_day month_day_code_def)
  qed (simp add: month_day_leap_day month_day_code_def)
  moreover have "month_day_code (monthDay False (if a > 59 then a - 1 else a))
      < month_day_code (monthDay False (if b > 59 then b - 1 else b))" if "a \<noteq> 59" "b \<noteq> 59"
    using assms True that by (intro month_day_code_less_common) auto
  ultimately show ?thesis
    using assms(1) True by (auto simp: monthDay_leap month_day_code_def)
next
  case False
  with assms month_day_code_less_common [of a b] show ?thesis by simp
qed

definition date_code :: "date \<Rightarrow> int" where
  "date_code t = year t * 10000 + int (month t) * 100 + int (day t)"

text \<open>Seconds that the 64-bit count represents without wrapping.\<close>

definition in_calendar :: "int \<Rightarrow> int \<Rightarrow> bool" where
  "in_calendar offset sec \<longleftrightarrow> 0 \<le> sec + offset + unixToAbsolute \<and> sec + offset + unixToAbsolute < 2 ^ 64"

lemma absYear_leap:
  assumes "absYear d = (y, yday)"
  shows "yday < 365 + (if isLeap (int y + absoluteZeroYear) then 1 else 0)"
proof -
  have "isLeap (int y + absoluteZeroYear) \<longleftrightarrow> 4 dvd Suc y \<and> (\<not> 100 dvd Suc y \<or> 400 dvd Suc y)"
  proof -
    have dvd: "(int y + absoluteZeroYear) mod k = 0 \<longleftrightarrow> nat k dvd Suc y" if "k dvd 292277022400" "0 < k" for k
    proof -
      have "(int y + absoluteZeroYear) mod k = 0 \<longleftrightarrow> k dvd (int (Suc y) - 292277022400)"
        by (simp add: absoluteZeroYear_def dvd_eq_mod_eq_0 algebra_simps)
      also have "\<dots> \<longleftrightarrow> k dvd int (Suc y)" using that(1) by (metis dvd_diff_right_iff dvd_diff_left_iff)
      also have "\<dots> \<longleftrightarrow> nat k dvd Suc y"
        using that(2) by (metis int_dvd_int_iff int_nat_eq less_imp_le)
      finally show ?thesis .
    qed
    show ?thesis using dvd [of 4] dvd [of 100] dvd [of 400] by (simp add: isLeap_def)
  qed
  with absYear_correct [OF assms] show ?thesis by (auto simp: days_to_year_Suc split: if_splits)
qed

lemma date_of_eq:
  assumes "absYear (abs_seconds offset sec div 86400) = (y, yday)"
  shows "year (date_of offset sec) = int y + absoluteZeroYear"
    and "(month (date_of offset sec), day (date_of offset sec)) = monthDay (isLeap (int y + absoluteZeroYear)) yday"
  using assms by (simp_all add: date_of_def Let_def split: prod.split)

lemma date_of_bounds:
  "1 \<le> month (date_of offset sec) \<and> month (date_of offset sec) \<le> 12
   \<and> 1 \<le> day (date_of offset sec) \<and> day (date_of offset sec) \<le> 31"
proof -
  obtain y yday where y: "absYear (abs_seconds offset sec div 86400) = (y, yday)" by fastforce
  from month_day_bounds [OF absYear_leap [OF y]] date_of_eq(2) [OF y] show ?thesis
    by (metis fst_conv snd_conv)
qed

text \<open>Two instants on different days have different dates, and the later day has the later date.\<close>

definition day_number :: "int \<Rightarrow> int \<Rightarrow> nat" where
  "day_number offset sec = abs_seconds offset sec div 86400"

lemma date_of_day: "day_number offset s = day_number offset' s' \<Longrightarrow> date_of offset s = date_of offset' s'"
  by (simp add: date_of_def day_number_def)

lemma date_code_less:
  assumes "day_number offset s < day_number offset s'"
  shows "date_code (date_of offset s) < date_code (date_of offset s')"
proof -
  obtain y yday where y: "absYear (abs_seconds offset s div 86400) = (y, yday)" by fastforce
  obtain y' yday' where y': "absYear (abs_seconds offset s' div 86400) = (y', yday')" by fastforce
  have less: "abs_seconds offset s div 86400 < abs_seconds offset s' div 86400" using assms by (simp add: day_number_def)
  note b = date_of_bounds [of offset s] date_of_bounds [of offset s']
  show ?thesis
  proof (cases "y = y'")
    case True
    then have "yday < yday'" using absYear_correct(1) [OF y] absYear_correct(1) [OF y'] less by simp
    then have "month_day_code (month (date_of offset s), day (date_of offset s))
        < month_day_code (month (date_of offset s'), day (date_of offset s'))"
      unfolding date_of_eq(2) [OF y] date_of_eq(2) [OF y'] True
      by (rule month_day_code_less) (rule absYear_leap [OF y'])
    then show ?thesis
      using True by (simp add: date_code_def date_of_eq(1) [OF y] date_of_eq(1) [OF y'] month_day_code_def)
  next
    case False
    with absYear_mono(1) [OF y y' less_imp_le [OF less]] have "year (date_of offset s) + 1 \<le> year (date_of offset s')"
      by (simp add: date_of_eq(1) [OF y] date_of_eq(1) [OF y'])
    with b show ?thesis unfolding date_code_def by linarith
  qed
qed

lemma abs_seconds_mono:
  "in_calendar offset s \<Longrightarrow> in_calendar offset s' \<Longrightarrow> abs_seconds offset s < abs_seconds offset s' \<longleftrightarrow> s < s'"
  by (auto simp: abs_seconds_def uint64_def in_calendar_def nat_less_eq_zless)

lemma date_code_mono:
  assumes "in_calendar offset s" and "in_calendar offset s'" and "s \<le> s'"
  shows "date_code (date_of offset s) \<le> date_code (date_of offset s')"
proof -
  have "day_number offset s \<le> day_number offset s'"
    unfolding day_number_def using abs_seconds_mono [OF assms(2,1)] assms(3) by (intro div_le_mono) simp
  then consider "day_number offset s = day_number offset s'" | "day_number offset s < day_number offset s'" by linarith
  then show ?thesis
  proof cases
    case 1
    then show ?thesis using date_of_day [OF 1] by simp
  next
    case 2
    then show ?thesis using date_code_less [OF 2] by simp
  qed
qed

end
