(* ===== verification/Dao_Shard.thy ===== *)
theory Dao_Shard
  imports Dao_Errors Go_Time "HOL-Library.Word"
begin

unbundle bit_operations_syntax

text \<open>
  The sharding rules (\<open>components/dao/shard/shard.go\<close>, \<open>components/dao/shard/numkey.go\<close>): how a key
  becomes the number of a table. A key is a value of the empty interface; the model has one
  constructor for each dynamic type the rules distinguish. A rule returns the pair of Go results, a
  number and an error, or panics. The time zone of the process is a parameter \<open>tz\<close>: it gives the
  offset from UTC at a Unix time.
\<close>

section \<open>Keys\<close>

datatype key =
    KInt int
  | KUint64 int
  | KInt64 int
  | KString string
  | KBytes string
  | KSlice "key list"
  | KOther

text \<open>Integer keys lie in the range of their type.\<close>

fun wf_key :: "key \<Rightarrow> bool" where
  "wf_key (KInt v) = in_int64 v"
| "wf_key (KUint64 v) = (0 \<le> v \<and> v < 2 ^ 64)"
| "wf_key (KInt64 v) = in_int64 v"
| "wf_key _ = True"

text \<open>The CRC-32 of \<open>hash/crc32\<close>, one bit at a time, with the reversed IEEE polynomial.\<close>

definition crc32_bit :: "32 word \<Rightarrow> 32 word" where
  "crc32_bit c = (if bit c 0 then drop_bit 1 c XOR 0xEDB88320 else drop_bit 1 c)"

definition crc32_byte :: "32 word \<Rightarrow> char \<Rightarrow> 32 word" where
  "crc32_byte c b = (crc32_bit ^^ 8) (c XOR of_nat (of_char b))"

definition ChecksumIEEE :: "string \<Rightarrow> 32 word" where
  "ChecksumIEEE s = NOT (foldl crc32_byte 0xFFFFFFFF s)"

definition ModValue :: "key \<Rightarrow> int \<times> dao_error option" where
  "ModValue value =
     (case value of
        KInt val \<Rightarrow> (uint64 val, None)
      | KUint64 val \<Rightarrow> (val, None)
      | KInt64 val \<Rightarrow> (uint64 val, None)
      | KString val \<Rightarrow>
          (case ParseUint val of
             (v, Some err) \<Rightarrow> (uint (ChecksumIEEE val), None)
           | (v, None) \<Rightarrow> (v, None))
      | KBytes val \<Rightarrow> (uint (ChecksumIEEE val), None)
      | KSlice val \<Rightarrow> (if val = [] then (0, Some (Sentinel ErrKeyNotExist)) else (0, Some (Sentinel ErrKeyNotExist)))
      | KOther \<Rightarrow> (0, Some (Sentinel ErrKeyNotExist)))"

definition parse_num :: "string \<Rightarrow> (int \<times> dao_error option) go" where
  "parse_num val =
     (case ParseInt val of
        (v, Some err) \<Rightarrow> Panic (Explicit (''invalid num format '' @ Itoa v))
      | (v, None) \<Rightarrow> Ret (v, None))"

definition NumValue :: "key \<Rightarrow> (int \<times> dao_error option) go" where
  "NumValue value =
     (case value of
        KInt val \<Rightarrow> Ret (val, None)
      | KUint64 val \<Rightarrow> Ret (int64 val, None)
      | KInt64 val \<Rightarrow> Ret (val, None)
      | KString val \<Rightarrow> parse_num val
      | KBytes val \<Rightarrow> parse_num val
      | KSlice val \<Rightarrow>
          (if val = [] then Ret (0, Some (Sentinel ErrKeyNotExist)) else Ret (0, Some (Sentinel ErrKeyNotExist)))
      | KOther \<Rightarrow> Ret (0, Some (Sentinel ErrKeyNotExist)))"

section \<open>Numeric key ranges\<close>

definition MaxNumKey :: int where
  "MaxNumKey = 2 ^ 63 - 1"

record NumKeyRange =
  Start :: int
  End :: int

definition MapKey :: "NumKeyRange \<Rightarrow> string" where
  "MapKey kr = Itoa (Start kr) @ ''-'' @ Itoa (End kr)"

definition Contains :: "NumKeyRange \<Rightarrow> int \<Rightarrow> bool" where
  "Contains kr i \<longleftrightarrow> Start kr \<le> i \<and> (End kr = MaxNumKey \<or> i < End kr)"

definition String :: "NumKeyRange \<Rightarrow> string" where
  "String kr = ''{Start: '' @ Itoa (Start kr) @ '', End: '' @ Itoa (End kr) @ ''}''"

text \<open>
  \<open>make\<close> panics on a negative length and on one whose bytes exceed the address space of the platform
  (48 bits). A range takes 16 bytes.
\<close>

definition make_ok :: "int \<Rightarrow> int \<Rightarrow> bool" where
  "make_ok bytes n \<longleftrightarrow> 0 \<le> n \<and> bytes * n \<le> 2 ^ 48"

definition ParseNumSharding :: "int \<Rightarrow> int \<Rightarrow> (NumKeyRange list \<times> dao_error option) go" where
  "ParseNumSharding Locations TableRowLimit =
     (let tableCount = Locations in
      if \<not> make_ok 16 tableCount then Panic MakeSliceLen
      else Ret (map (\<lambda>i. \<lparr>Start = int64 (int i * TableRowLimit), End = int64 ((int i + 1) * TableRowLimit)\<rparr>)
                 [0..<nat tableCount], None))"

section \<open>The rules\<close>

definition MIN_LEN_KEY :: nat where
  "MIN_LEN_KEY = 1"

text \<open>Several keys are combined into the text of their numbers; keys without a number are skipped.\<close>

definition mod_join :: "key list \<Rightarrow> string" where
  "mod_join key = foldl (\<lambda>keys v. case ModValue v of (r, Some err) \<Rightarrow> keys | (r, None) \<Rightarrow> keys @ Itoa (int64 r)) [] key"

definition ModShard_FindForKey :: "int \<Rightarrow> key list \<Rightarrow> (int \<times> dao_error option) go" where
  "ModShard_FindForKey ShardNum key =
     (let (m, err) = (if length key = MIN_LEN_KEY then ModValue (key ! 0) else ModValue (KString (mod_join key)))
      in if uint64 ShardNum = 0 then Panic DivideByZero
         else Ret (int64 (m mod uint64 ShardNum), err))"

definition num_join :: "key list \<Rightarrow> string go" where
  "num_join key =
     go_fold (\<lambda>v keys. go_bind (NumValue v)
       (\<lambda>(r, err). case err of Some _ \<Rightarrow> Ret keys | None \<Rightarrow> Ret (keys @ Itoa r))) key []"

fun range_loop :: "int \<Rightarrow> int \<Rightarrow> NumKeyRange list \<Rightarrow> int \<times> dao_error option" where
  "range_loop i v [] = (-1, Some (Sentinel ErrKeyOutOfRange))"
| "range_loop i v (r # rs) = (if Contains r v then (i, None) else range_loop (i + 1) v rs)"

definition NumRangeShard_FindForKey :: "NumKeyRange list \<Rightarrow> key list \<Rightarrow> (int \<times> dao_error option) go" where
  "NumRangeShard_FindForKey Shards key =
     (if Shards = [] then Ret (-1, Some (Sentinel ErrMultiShard))
      else
        go_bind (if length key = MIN_LEN_KEY then NumValue (key ! 0)
                 else go_bind (num_join key) (\<lambda>keys. NumValue (KString keys)))
          (\<lambda>(v, err). case err of Some e \<Rightarrow> Ret (0, Some e) | None \<Rightarrow> Ret (range_loop 0 v Shards)))"

definition EqualStart :: "NumKeyRange list \<Rightarrow> key \<Rightarrow> int \<Rightarrow> (bool \<times> dao_error option) go" where
  "EqualStart Shards key index =
     go_bind (NumValue key) (\<lambda>(v, err). case err of
         Some e \<Rightarrow> Ret (False, Some e)
       | None \<Rightarrow> go_bind (go_index Shards index) (\<lambda>r. Ret (Start r = v, None)))"

definition EqualStop :: "NumKeyRange list \<Rightarrow> key \<Rightarrow> int \<Rightarrow> (bool \<times> dao_error option) go" where
  "EqualStop Shards key index =
     go_bind (NumValue key) (\<lambda>(v, err). case err of
         Some e \<Rightarrow> Ret (False, None)
       | None \<Rightarrow> go_bind (go_index Shards index) (\<lambda>r. Ret (End r = v, None)))"

text \<open>The time a numeric key denotes, \<open>time.Unix(int64(val), 0)\<close> in the local time zone.\<close>

definition unix_date :: "(int \<Rightarrow> int) \<Rightarrow> int \<Rightarrow> date" where
  "unix_date tz sec = date_of (tz sec) sec"

definition DateYearShard_FindForKey :: "(int \<Rightarrow> int) \<Rightarrow> key list \<Rightarrow> (int \<times> dao_error option) go" where
  "DateYearShard_FindForKey tz key =
     go_bind (go_index key 0) (\<lambda>keyT. case keyT of
         KInt val \<Rightarrow> Ret (year (unix_date tz val), None)
       | KUint64 val \<Rightarrow> Ret (year (unix_date tz (int64 val)), None)
       | KInt64 val \<Rightarrow> Ret (year (unix_date tz val), None)
       | KString val \<Rightarrow>
           go_bind (go_slice val 0 4) (\<lambda>s.
             case Atoi s of
               (v, Some err) \<Rightarrow> Ret (0, Some (Sentinel ErrKeyNotExist))
             | (v, None) \<Rightarrow> Ret (v, None))
       | _ \<Rightarrow> Ret (0, Some (Sentinel ErrKeyNotExist)))"

text \<open>The slices \<open>s[:4] + s[5:7]\<close> and \<open>s[:4] + s[5:7] + s[8:10]\<close> of a date text.\<close>

definition year_month_text :: "string \<Rightarrow> string go" where
  "year_month_text s =
     go_bind (go_slice s 0 4) (\<lambda>a. go_bind (go_slice s 5 7) (\<lambda>b. Ret (a @ b)))"

definition year_month_day_text :: "string \<Rightarrow> string go" where
  "year_month_day_text s =
     go_bind (go_slice s 0 4) (\<lambda>a. go_bind (go_slice s 5 7) (\<lambda>b. go_bind (go_slice s 8 10) (\<lambda>c. Ret (a @ b @ c))))"

definition date_number :: "(string \<Rightarrow> string go) \<Rightarrow> date \<Rightarrow> (int \<times> dao_error option) go" where
  "date_number part tm =
     go_bind (part (format_date tm)) (\<lambda>s.
       case Atoi s of
         (v, Some err) \<Rightarrow> Ret (0, Some (Strconv err))
       | (v, None) \<Rightarrow> Ret (v, None))"

definition date_text_number :: "(string \<Rightarrow> string go) \<Rightarrow> string \<Rightarrow> (int \<times> dao_error option) go" where
  "date_text_number part val =
     (if length val < length ''2006-01-02'' then Ret (0, Some (Errorf (''invalid date format '' @ val)))
      else
        go_bind (part val) (\<lambda>s.
          case Atoi s of
            (v, Some err) \<Rightarrow> Ret (0, Some (Errorf (''invalid date format '' @ val)))
          | (v, None) \<Rightarrow> Ret (v, None)))"

definition DateMonthShard_FindForKey :: "(int \<Rightarrow> int) \<Rightarrow> key list \<Rightarrow> (int \<times> dao_error option) go" where
  "DateMonthShard_FindForKey tz key =
     go_bind (go_index key 0) (\<lambda>keyT. case keyT of
         KInt val \<Rightarrow> date_number year_month_text (unix_date tz val)
       | KUint64 val \<Rightarrow> date_number year_month_text (unix_date tz (int64 val))
       | KInt64 val \<Rightarrow> date_number year_month_text (unix_date tz val)
       | KString val \<Rightarrow> date_text_number year_month_text val
       | _ \<Rightarrow> Ret (0, Some (Sentinel ErrKeyNotExist)))"

definition DateDayShard_FindForKey :: "(int \<Rightarrow> int) \<Rightarrow> key list \<Rightarrow> (int \<times> dao_error option) go" where
  "DateDayShard_FindForKey tz key =
     go_bind (go_index key 0) (\<lambda>keyT. case keyT of
         KInt val \<Rightarrow> date_number year_month_day_text (unix_date tz val)
       | KUint64 val \<Rightarrow> date_number year_month_day_text (unix_date tz (int64 val))
       | KInt64 val \<Rightarrow> date_number year_month_day_text (unix_date tz val)
       | KString val \<Rightarrow> date_text_number year_month_day_text val
       | _ \<Rightarrow> Ret (0, Some (Sentinel ErrKeyNotExist)))"

text \<open>The interface \<open>Shard\<close>: the dynamic types that implement it and the dispatch of its method.\<close>

datatype shard =
    ModShard (ShardNum: int)
  | NumRangeShard (Shards: "NumKeyRange list")
  | DateYearShard
  | DateMonthShard
  | DateDayShard

definition FindForKey :: "(int \<Rightarrow> int) \<Rightarrow> shard \<Rightarrow> key list \<Rightarrow> (int \<times> dao_error option) go" where
  "FindForKey tz s key =
     (case s of
        ModShard n \<Rightarrow> ModShard_FindForKey n key
      | NumRangeShard rs \<Rightarrow> NumRangeShard_FindForKey rs key
      | DateYearShard \<Rightarrow> DateYearShard_FindForKey tz key
      | DateMonthShard \<Rightarrow> DateMonthShard_FindForKey tz key
      | DateDayShard \<Rightarrow> DateDayShard_FindForKey tz key)"

section \<open>Configuration\<close>

record ShardConfig =
  cfg_DB :: string
  cfg_Table :: string
  cfg_ModNum :: int
  cfg_Locations :: int
  cfg_Type :: string
  cfg_TableRowLimit :: int

text \<open>A nil pointer in the slice of configurations is \<open>None\<close>; reading a field of it panics.\<close>

fun ParseShard_loop :: "shard list \<Rightarrow> ShardConfig option list \<Rightarrow> (shard list \<times> dao_error option) go" where
  "ParseShard_loop shards [] = Ret (shards, None)"
| "ParseShard_loop shards (None # cfgs) = Panic NilDereference"
| "ParseShard_loop shards (Some cfg # cfgs) =
     (if cfg_Type cfg = ''mod'' then ParseShard_loop (shards @ [ModShard (cfg_ModNum cfg)]) cfgs
      else if cfg_Type cfg = ''range'' then
        go_bind (ParseNumSharding (cfg_Locations cfg) (cfg_TableRowLimit cfg)) (\<lambda>(rs, err).
          case err of
            Some e \<Rightarrow> Ret ([], Some e)
          | None \<Rightarrow> ParseShard_loop (shards @ [NumRangeShard rs]) cfgs)
      else if cfg_Type cfg = ''date_day'' then ParseShard_loop (shards @ [DateDayShard]) cfgs
      else if cfg_Type cfg = ''date_month'' then ParseShard_loop (shards @ [DateMonthShard]) cfgs
      else if cfg_Type cfg = ''date_year'' then ParseShard_loop (shards @ [DateYearShard]) cfgs
      else ParseShard_loop shards cfgs)"

definition ParseShard :: "ShardConfig option list \<Rightarrow> (shard list \<times> dao_error option) go" where
  "ParseShard cfgs = ParseShard_loop [] cfgs"

section \<open>Numbers in keys\<close>

definition crc32_int_bit :: "int \<Rightarrow> int" where
  "crc32_int_bit c = (if odd c then c div 2 XOR 0xEDB88320 else c div 2)"

lemma uint_crc32_bit: "uint (crc32_bit c) = crc32_int_bit (uint c)"
proof -
  have "bit c 0 \<longleftrightarrow> odd (uint c)" by (simp only: bit_uint_iff flip: bit_0) simp
  then show ?thesis
    by (simp only: crc32_bit_def crc32_int_bit_def unsigned_xor_eq unsigned_drop_bit_eq drop_bit_eq_div if_distrib [of uint] if_True if_False)
      (simp add: uint_div flip: drop_bit_eq_div)
qed

lemma uint_crc32_byte: "uint (crc32_byte c b) = (crc32_int_bit ^^ 8) (uint c XOR of_char b)"
proof -
  have "uint ((crc32_bit ^^ n) w) = (crc32_int_bit ^^ n) (uint w)" for n w
    by (induction n) (simp_all add: uint_crc32_bit)
  moreover have "(of_char b :: nat) < 2 ^ 32"
    by (rule less_trans [OF nat_of_char_less_256]) simp
  ultimately show ?thesis
    by (simp add: crc32_byte_def unsigned_xor_eq take_bit_nat_eq_self unsigned_of_nat flip: of_nat_of_char [where ?'a = int])
qed

lemma crc32_check: "ChecksumIEEE ''123456789'' = 0xCBF43926"
proof -
  have "uint (foldl crc32_byte c s) = foldl (\<lambda>c b. (crc32_int_bit ^^ 8) (c XOR of_char b)) (uint c) s" for c s
    by (induction s arbitrary: c) (simp_all add: uint_crc32_byte)
  moreover have "foldl (\<lambda>c b. (crc32_int_bit ^^ 8) (c XOR of_char b)) 0xFFFFFFFF ''123456789'' = 0x340BC6D9"
    by code_simp
  moreover have "uint (0xFFFFFFFF :: 32 word) = 0xFFFFFFFF" "uint (0x340BC6D9 :: 32 word) = 0x340BC6D9" by simp_all
  ultimately have "uint (foldl crc32_byte 0xFFFFFFFF ''123456789'') = uint (0x340BC6D9 :: 32 word)"
    by (simp only:)
  then have "foldl crc32_byte 0xFFFFFFFF ''123456789'' = 0x340BC6D9" by (simp only: word_uint_eq_iff)
  then show ?thesis by (simp add: ChecksumIEEE_def)
qed

lemma ModValue_bounds: "wf_key k \<Longrightarrow> 0 \<le> fst (ModValue k) \<and> fst (ModValue k) < 2 ^ 64"
proof -
  have crc: "uint (ChecksumIEEE s) < 2 ^ 64" for s
    using uint_lt2p [of "ChecksumIEEE s"] by simp
  show "wf_key k \<Longrightarrow> 0 \<le> fst (ModValue k) \<and> fst (ModValue k) < 2 ^ 64"
    using crc uint64_bounds by (cases k) (auto simp: ModValue_def split: prod.split option.split dest: ParseUint_ok)
qed

lemma dec_value_append_list: "dec_value (s @ t) = dec_value s * 10 ^ length t + dec_value t"
proof (induction t rule: rev_induct)
  case (snoc c t)
  then show ?case by (simp add: dec_value_append flip: append_assoc)
qed (simp add: dec_value_def)

lemma dec_value_less: "\<forall>c \<in> set s. is_digit c \<Longrightarrow> dec_value s < 10 ^ length s"
proof (induction s rule: rev_induct)
  case (snoc c s)
  then have "dec_value s + 1 \<le> 10 ^ length s" "digit_val c < 10" by (simp_all add: Suc_leI)
  then show ?case by (simp add: dec_value_append)
qed (simp add: dec_value_def)

lemma Atoi_digits:
  assumes "s \<noteq> []" and "\<forall>c \<in> set s. is_digit c" and "dec_value s < 2 ^ 63"
  shows "Atoi s = (int (dec_value s), None)"
proof -
  from assms obtain c cs where s: "s = c # cs" "is_digit c" by (cases s) auto
  then have "c \<noteq> CHR ''-''" "c \<noteq> CHR ''+''" by auto
  moreover have "ParseUint s = (int (dec_value s), None)" using assms by (intro ParseUint_digits) simp_all
  ultimately show ?thesis using assms(3) s(1) by (simp add: Atoi_def ParseInt_def)
qed

lemma dec_value_zeros [simp]: "dec_value (replicate n (CHR ''0'') @ s) = dec_value s"
proof -
  have "dec_value (replicate n (CHR ''0'')) = 0"
    by (induction n) (simp_all add: replicate_append_same [symmetric] dec_value_append digit_val_def dec_value_def
        del: replicate_Suc add: replicate_Suc)
  then show ?thesis by (simp add: dec_value_append_list)
qed

lemma length_format_nat: "n < 10 ^ Suc w \<Longrightarrow> length (format_nat n) \<le> Suc w"
proof (induction w arbitrary: n)
  case (Suc w)
  show ?case
  proof (cases "n < 10")
    case False
    have "n div 10 < 10 ^ Suc w" using Suc.prems by (simp add: less_mult_imp_div_less mult.commute)
    then have "length (format_nat (n div 10)) \<le> Suc w" by (rule Suc.IH)
    with False show ?thesis by (simp add: format_nat.simps [of n])
  qed (simp add: format_nat.simps [of n])
next
  case 0
  then show ?case by (simp add: format_nat.simps [of n])
qed

lemma pad_int_digits:
  assumes "0 \<le> x" and "x < 10 ^ Suc w"
  shows "length (pad_int (Suc w) x) = Suc w" and "\<forall>c \<in> set (pad_int (Suc w) x). is_digit c"
    and "dec_value (pad_int (Suc w) x) = nat x"
proof -
  have "nat x < 10 ^ Suc w" using assms by (simp add: nat_less_iff)
  then show "length (pad_int (Suc w) x) = Suc w"
    using length_format_nat [of "nat x" w] assms(1) by (simp add: pad_int_def Let_def)
  show "\<forall>c \<in> set (pad_int (Suc w) x). is_digit c"
    using assms(1) format_nat_digits [of "nat x"] by (auto simp: pad_int_def Let_def is_digit_def)
  show "dec_value (pad_int (Suc w) x) = nat x"
    using assms(1) by (simp add: pad_int_def Let_def)
qed

section \<open>The modulus rule\<close>

lemma ModShard_Ret:
  assumes "0 < n" and "n < 2 ^ 63" and "0 \<le> m" and "m < 2 ^ 64"
  shows "uint64 n = n" and "int64 (m mod uint64 n) = m mod n" and "0 \<le> m mod n" and "m mod n < n"
proof -
  show n: "uint64 n = n" using assms by (simp add: uint64_def)
  show b: "0 \<le> m mod n" "m mod n < n" using assms by simp_all
  then have "in_int64 (m mod n)" unfolding in_int64_def using assms(2) by linarith
  with n show "int64 (m mod uint64 n) = m mod n" by (simp add: int64_id)
qed

lemma ModValue_error:
  "snd (ModValue k) = None \<or> ModValue k = (0, Some (Sentinel ErrKeyNotExist))"
  by (cases k) (auto simp: ModValue_def split: prod.split option.split)

definition mod_key :: "key list \<Rightarrow> key" where
  "mod_key key = (if length key = MIN_LEN_KEY then key ! 0 else KString (mod_join key))"

lemma ModShard_FindForKey_mod_key:
  "ModShard_FindForKey n key =
     (if uint64 n = 0 then Panic DivideByZero
      else Ret (int64 (fst (ModValue (mod_key key)) mod uint64 n), snd (ModValue (mod_key key))))"
  by (simp add: ModShard_FindForKey_def mod_key_def split: prod.split)

lemma wf_mod_key: "(\<And>k. k \<in> set ks \<Longrightarrow> wf_key k) \<Longrightarrow> wf_key (mod_key ks)"
  by (auto simp: mod_key_def MIN_LEN_KEY_def)

text \<open>C20: the modulus rule sends every list of keys to a table between 0 and one less than the number
  of tables; the only error it reports is the missing key, and it is reported exactly for a single
  key of a type that has no number.\<close>

theorem ModShard_in_range:
  assumes "0 < n" and "n < 2 ^ 63" and "list_all wf_key ks"
  shows "\<exists>i e. FindForKey tz (ModShard n) ks = Ret (i, e) \<and> 0 \<le> i \<and> i < n
    \<and> (e = None \<or> e = Some (Sentinel ErrKeyNotExist) \<and> i = 0)
    \<and> (e \<noteq> None \<longleftrightarrow> length ks = 1 \<and> (ks ! 0 = KOther \<or> (\<exists>l. ks ! 0 = KSlice l)))"
proof -
  have wf: "wf_key (mod_key ks)" using assms(3) by (intro wf_mod_key) (simp add: list_all_iff)
  note b = ModShard_Ret [OF assms(1,2) conjunct1 [OF ModValue_bounds [OF wf]] conjunct2 [OF ModValue_bounds [OF wf]]]
  have eq: "FindForKey tz (ModShard n) ks = Ret (fst (ModValue (mod_key ks)) mod n, snd (ModValue (mod_key ks)))"
    using b(1,2) assms(1) by (simp add: FindForKey_def ModShard_FindForKey_mod_key)
  have err: "snd (ModValue (mod_key ks)) \<noteq> None \<longleftrightarrow> length ks = 1 \<and> (ks ! 0 = KOther \<or> (\<exists>l. ks ! 0 = KSlice l))"
    by (cases "ks ! 0") (auto simp: ModValue_def mod_key_def MIN_LEN_KEY_def split: prod.split option.split)
  show ?thesis
    using eq b(3,4) err ModValue_error [of "mod_key ks"] assms(1) by fastforce
qed

theorem ModShard_in_range_witness:
  "\<exists>i e. FindForKey (\<lambda>_. 0) (ModShard 8) [KInt (- 3), KString ''u7''] = Ret (i, e) \<and> 0 \<le> i \<and> i < 8"
  using ModShard_in_range [of 8 "[KInt (- 3), KString ''u7'']" "\<lambda>_. 0"] by (force simp: in_int64_def)

text \<open>A row is found in the same table whatever type its non-negative number arrives with: as an
  integer of either kind or as decimal text, the table is the number modulo the number of tables.\<close>

lemma ModShard_representation:
  assumes "0 < n" and "n < 2 ^ 63" and "0 \<le> v" and "v < 2 ^ 63"
    and "k \<in> {KInt v, KInt64 v, KUint64 v, KString (Itoa v)}"
  shows "FindForKey tz (ModShard n) [k] = Ret (v mod n, None)"
proof -
  have "ParseUint (Itoa v) = (v, None)"
    using assms(3,4) by (simp add: Itoa_def ParseUint_format_nat)
  then have "ModValue k = (v, None)"
    using assms(3-5) by (auto simp: ModValue_def uint64_def)
  then show ?thesis
    using ModShard_Ret [OF assms(1,2), of v] assms(1,3,4)
    by (simp add: FindForKey_def ModShard_FindForKey_mod_key mod_key_def MIN_LEN_KEY_def)
qed

section \<open>The range rule\<close>

lemma range_loop_eq:
  "range_loop i v rs =
     (case List.find (\<lambda>k. Contains (rs ! k) v) [0..<length rs] of
        Some k \<Rightarrow> (i + int k, None) | None \<Rightarrow> (-1, Some (Sentinel ErrKeyOutOfRange)))"
proof (induction rs arbitrary: i)
  case (Cons r rs)
  show ?case
    unfolding range_loop.simps Cons.IH
    by (simp add: upt_conv_Cons find_map_Suc [symmetric] map_Suc_upt [symmetric] del: upt_Suc)
      (simp add: find_map_Suc split: option.split)
qed simp

text \<open>The ranges of a configuration whose product does not overflow.\<close>

lemma ParseNumSharding_ranges:
  assumes "0 < L" and "L \<le> 2 ^ 44" and "0 < R" and "L * R < 2 ^ 63"
  shows "ParseNumSharding L R =
    Ret (map (\<lambda>i. \<lparr>Start = int i * R, End = (int i + 1) * R\<rparr>) [0..<nat L], None)"
proof -
  have "int64 (int i * R) = int i * R \<and> int64 ((int i + 1) * R) = (int i + 1) * R" if "i < nat L" for i
  proof -
    have "int i + 1 \<le> L" using that by linarith
    then have "(int i + 1) * R \<le> L * R" using assms(3) by (intro mult_right_mono) simp_all
    moreover have "0 \<le> int i * R" "int i * R \<le> (int i + 1) * R" using assms(3) by (simp_all add: mult_right_mono)
    ultimately show ?thesis using assms(4) by (intro conjI int64_id) (simp_all only: in_int64_def, linarith+)
  qed
  then show ?thesis using assms(1,2) by (simp add: ParseNumSharding_def make_ok_def Let_def)
qed

lemma le_div_iff_mult_le_int:
  fixes R :: int
  assumes "0 < R"
  shows "q \<le> v div R \<longleftrightarrow> q * R \<le> v"
proof
  assume "q \<le> v div R"
  then have "q * R \<le> v div R * R" using assms by (simp add: mult_right_mono)
  also have "\<dots> \<le> v" using div_mult_mod_eq [of v R] pos_mod_sign [OF assms, of v] by linarith
  finally show "q * R \<le> v" .
next
  assume "q * R \<le> v"
  then have "q * R div R \<le> v div R" using assms by (intro zdiv_mono1)
  then show "q \<le> v div R" using assms by simp
qed

lemma range_contains:
  assumes "0 < R" and "(int i + 1) * R < MaxNumKey"
  shows "Contains \<lparr>Start = int i * R, End = (int i + 1) * R\<rparr> v \<longleftrightarrow> v div R = int i"
proof -
  have "Contains \<lparr>Start = int i * R, End = (int i + 1) * R\<rparr> v \<longleftrightarrow> int i * R \<le> v \<and> v < (int i + 1) * R"
    using assms(2) by (simp add: Contains_def)
  also have "\<dots> \<longleftrightarrow> v div R = int i"
    using le_div_iff_mult_le_int [OF assms(1), of "int i" v] le_div_iff_mult_le_int [OF assms(1), of "int i + 1" v] by auto
  finally show ?thesis .
qed

text \<open>C7: a range configuration of at most \<open>2 ^ 44\<close> tables, \<open>L\<close> tables of \<open>R\<close> rows with a product below the largest key, is
  parsed into a rule that sends a number to the quotient by \<open>R\<close> when the number lies in \<open>[0, L * R)\<close> and
  answers that the key is out of range otherwise, so the ranges cut the key space without gap or
  overlap.\<close>

theorem NumRangeShard_lookup:
  assumes "0 < L" and "L \<le> 2 ^ 44" and "0 < R" and "L * R < MaxNumKey"
  shows "\<exists>rs. ParseNumSharding L R = Ret (rs, None) \<and>
    (\<forall>tz v. FindForKey tz (NumRangeShard rs) [KInt64 v] =
       Ret (if 0 \<le> v \<and> v < L * R then (v div R, None) else (-1, Some (Sentinel ErrKeyOutOfRange))))"
proof -
  define rs where "rs = map (\<lambda>i. \<lparr>Start = int i * R, End = (int i + 1) * R\<rparr>) [0..<nat L]"
  have len: "length rs = nat L" by (simp add: rs_def)
  have hit: "Contains (rs ! k) v \<longleftrightarrow> v div R = int k" if "k < nat L" for k v
  proof -
    have "(int k + 1) * R \<le> L * R" using that assms(3) by (intro mult_right_mono) linarith+
    then show ?thesis using that range_contains [OF assms(3), of k v] assms(4) by (simp add: rs_def)
  qed
  have loop: "range_loop 0 v rs = (if 0 \<le> v \<and> v < L * R then (v div R, None) else (-1, Some (Sentinel ErrKeyOutOfRange)))" for v
  proof -
    have in_range: "0 \<le> v \<and> v < L * R \<longleftrightarrow> (\<exists>k < nat L. v div R = int k)"
    proof -
      have "0 \<le> v \<longleftrightarrow> 0 \<le> v div R" using assms(3) by (simp add: pos_imp_zdiv_nonneg_iff)
      moreover have "v < L * R \<longleftrightarrow> v div R < L" using le_div_iff_mult_le_int [OF assms(3), of L v] by linarith
      moreover have "0 \<le> q \<and> q < L \<longleftrightarrow> (\<exists>k < nat L. q = int k)" for q
        using assms(1) by (auto intro: exI [of _ "nat q"])
      ultimately show ?thesis by simp
    qed
    show ?thesis
    proof (cases "List.find (\<lambda>k. Contains (rs ! k) v) [0..<length rs]")
      case None
      then have "\<not> (\<exists>k < nat L. v div R = int k)" using hit by (simp add: find_index(2) len)
      with None show ?thesis using in_range by (simp only: range_loop_eq) simp
    next
      case (Some k)
      then have "k < nat L" "v div R = int k" using hit find_index(1) [OF Some] by (auto simp: len)
      with Some show ?thesis using in_range by (simp only: range_loop_eq) auto
    qed
  qed
  have "ParseNumSharding L R = Ret (rs, None)"
    using ParseNumSharding_ranges [OF assms(1-3)] assms(4) by (simp add: rs_def MaxNumKey_def)
  moreover have "rs \<noteq> []" using len assms(1) by auto
  ultimately show ?thesis
    using loop by (auto simp: FindForKey_def NumRangeShard_FindForKey_def MIN_LEN_KEY_def NumValue_def)
qed

theorem NumRangeShard_lookup_witness:
  "\<exists>rs. ParseNumSharding 4 1000 = Ret (rs, None)
     \<and> FindForKey (\<lambda>_. 0) (NumRangeShard rs) [KInt64 2500] = Ret (2, None)
     \<and> FindForKey (\<lambda>_. 0) (NumRangeShard rs) [KInt64 4000] = Ret (-1, Some (Sentinel ErrKeyOutOfRange))"
  using NumRangeShard_lookup [of 4 1000] by (auto simp: MaxNumKey_def)

section \<open>The date rules\<close>

text \<open>Dates whose text has ten characters.\<close>

definition printable_date :: "date \<Rightarrow> bool" where
  "printable_date t \<longleftrightarrow> 0 \<le> year t \<and> year t \<le> 9999 \<and> 1 \<le> month t \<and> month t \<le> 12 \<and> 1 \<le> day t \<and> day t \<le> 31"

definition year_month_code :: "date \<Rightarrow> int" where
  "year_month_code t = year t * 100 + int (month t)"

lemma printable_parts:
  assumes "printable_date t"
  obtains y m d where "format_date t = y @ ''-'' @ m @ ''-'' @ d" "length y = 4" "length m = 2" "length d = 2"
    "\<forall>c \<in> set (y @ m @ d). is_digit c"
    "int (dec_value y) = year t" "dec_value m = month t" "dec_value d = day t"
proof -
  have y: "0 \<le> year t" "year t < 10 ^ Suc 3" and m: "0 \<le> int (month t)" "int (month t) < 10 ^ Suc 1"
    and d: "0 \<le> int (day t)" "int (day t) < 10 ^ Suc 1"
    using assms by (simp_all add: printable_date_def)
  show thesis
    using that [of "pad_int 4 (year t)" "pad_int 2 (int (month t))" "pad_int 2 (int (day t))"]
      pad_int_digits [OF y] pad_int_digits [OF m] pad_int_digits [OF d] y(1)
    by (auto simp: format_date_def numeral_eq_Suc)
qed

lemma slice_parts:
  assumes "length y = 4" and "length m = 2" and "length d = 2"
  shows "go_slice (y @ ''-'' @ m @ ''-'' @ d @ rest) 0 4 = Ret y"
    and "year_month_text (y @ ''-'' @ m @ ''-'' @ d @ rest) = Ret (y @ m)"
    and "year_month_day_text (y @ ''-'' @ m @ ''-'' @ d @ rest) = Ret (y @ m @ d)"
  using assms by (simp_all add: go_slice_def year_month_text_def year_month_day_text_def)

lemma date_text_values:
  assumes "printable_date t"
  shows "go_slice (format_date t @ rest) 0 4 = Ret y \<Longrightarrow> Atoi y = (year t, None)"
    and "\<exists>s. year_month_text (format_date t @ rest) = Ret s \<and> Atoi s = (year_month_code t, None)"
    and "\<exists>s. year_month_day_text (format_date t @ rest) = Ret s \<and> Atoi s = (date_code t, None)"
    and "\<exists>s. go_slice (format_date t @ rest) 0 4 = Ret s \<and> Atoi s = (year t, None)"
    and "length (format_date t @ rest) \<ge> 10"
proof -
  obtain y m d where f: "format_date t = y @ ''-'' @ m @ ''-'' @ d" "length y = 4" "length m = 2" "length d = 2"
    "\<forall>c \<in> set (y @ m @ d). is_digit c"
    "int (dec_value y) = year t" "dec_value m = month t" "dec_value d = day t"
    by (rule printable_parts [OF assms])
  have small: "dec_value s < 2 ^ 63" if "\<forall>c \<in> set s. is_digit c" "length s \<le> 8" for s
  proof -
    have "dec_value s < 10 ^ length s" by (rule dec_value_less [OF that(1)])
    also have "\<dots> \<le> 10 ^ 8" using that(2) by (intro power_increasing) simp_all
    finally show ?thesis by simp
  qed
  note parts = slice_parts [OF f(2-4), of rest]
  have "Atoi y = (year t, None)" using f small [of y] by (subst Atoi_digits) auto
  with parts(1) f(1) show "\<exists>s. go_slice (format_date t @ rest) 0 4 = Ret s \<and> Atoi s = (year t, None)" by simp
  then show "go_slice (format_date t @ rest) 0 4 = Ret y \<Longrightarrow> Atoi y = (year t, None)" for y by auto
  have "Atoi (y @ m) = (year_month_code t, None)"
    using f small [of "y @ m"] by (subst Atoi_digits) (auto simp: dec_value_append_list year_month_code_def)
  with parts(2) f(1) show "\<exists>s. year_month_text (format_date t @ rest) = Ret s \<and> Atoi s = (year_month_code t, None)" by simp
  have "Atoi (y @ m @ d) = (date_code t, None)"
    using f small [of "y @ m @ d"] by (subst Atoi_digits) (auto simp: dec_value_append_list date_code_def)
  with parts(3) f(1) show "\<exists>s. year_month_day_text (format_date t @ rest) = Ret s \<and> Atoi s = (date_code t, None)" by simp
  show "length (format_date t @ rest) \<ge> 10" using f by simp
qed

lemma unix_date_printable:
  "0 \<le> year (unix_date tz v) \<Longrightarrow> year (unix_date tz v) \<le> 9999 \<Longrightarrow> printable_date (unix_date tz v)"
  using date_of_bounds [of "tz v" v] by (simp add: printable_date_def unix_date_def)

lemma date_number_eq:
  assumes "printable_date t"
  shows "date_number year_month_text t = Ret (year_month_code t, None)"
    and "date_number year_month_day_text t = Ret (date_code t, None)"
  using date_text_values(2,3) [OF assms, of "[]"] by (auto simp: date_number_def)

lemma date_text_number_eq:
  assumes "printable_date t"
  shows "date_text_number year_month_text (format_date t @ rest) = Ret (year_month_code t, None)"
    and "date_text_number year_month_day_text (format_date t @ rest) = Ret (date_code t, None)"
  using date_text_values(2,3,5) [OF assms, of rest] by (auto simp: date_text_number_def)

definition date_index :: "shard \<Rightarrow> date \<Rightarrow> int" where
  "date_index s t = (case s of DateYearShard \<Rightarrow> year t | DateMonthShard \<Rightarrow> year_month_code t | _ \<Rightarrow> date_code t)"

lemmas date_rule_defs = FindForKey_def date_index_def go_index_def DateYearShard_FindForKey_def
  DateMonthShard_FindForKey_def DateDayShard_FindForKey_def

lemma date_shards_find:
  assumes "s \<in> {DateYearShard, DateMonthShard, DateDayShard}" and "in_int64 v"
    and "0 \<le> year (unix_date tz v)" and "year (unix_date tz v) \<le> 9999"
    and "k \<in> {KInt v, KInt64 v, KUint64 (uint64 v), KString (format_date (unix_date tz v) @ rest)}"
  shows "FindForKey tz s [k] = Ret (date_index s (unix_date tz v), None)"
proof -
  note p = unix_date_printable [OF assms(3,4)]
  show ?thesis
    using assms(1,2,5) date_number_eq [OF p] date_text_number_eq [OF p, of rest] date_text_values(4) [OF p, of rest]
    by (auto simp: date_rule_defs int64_id)
qed

text \<open>The date rules give the number of the year, of the year and month, or of the year, month and
  day; a row stored under a Unix time is found again under the text of its local date, with or without
  a time of day behind it, for all dates from the year 0 to 9999.\<close>

lemma date_shards_agree:
  assumes "s \<in> {DateYearShard, DateMonthShard, DateDayShard}" and "in_int64 v"
    and "0 \<le> year (unix_date tz v)" and "year (unix_date tz v) \<le> 9999"
  shows "list_all (\<lambda>k. FindForKey tz s [k] = Ret (date_index s (unix_date tz v), None))
    [KInt v, KInt64 v, KUint64 (uint64 v), KString (format_date (unix_date tz v) @ rest)]"
  using date_shards_find [OF assms] by (simp add: list_all_iff)

lemma march_2020: "unix_date (\<lambda>_. 28800) 1583000000 = \<lparr>year = 2020, month = 3, day = 1\<rparr>"
proof -
  have "abs_seconds 28800 1583000000 div 86400 = 106751991091416"
    by (simp add: abs_seconds_def uint64_def unixToAbsolute_def)
  moreover have "absYear 106751991091416 = (292277024419, 60)"
    by (rule absYear_unique) (simp_all add: days_to_year_def)
  ultimately show ?thesis
    by (simp add: unix_date_def date_of_def absoluteZeroYear_def isLeap_def monthDay_def daysBefore_def)
qed

lemma december_2019: "unix_date (\<lambda>_. 28800) 1577000000 = \<lparr>year = 2019, month = 12, day = 22\<rparr>"
proof -
  have "abs_seconds 28800 1577000000 div 86400 = 106751991091346"
    by (simp add: abs_seconds_def uint64_def unixToAbsolute_def)
  moreover have "absYear 106751991091346 = (292277024418, 355)"
    by (rule absYear_unique) (simp_all add: days_to_year_def)
  ultimately show ?thesis
    by (simp add: unix_date_def date_of_def absoluteZeroYear_def isLeap_def monthDay_def daysBefore_def)
qed

text \<open>From the year 10000 on the text of a date has five digits for the year, and the month rule cuts it at the wrong places.\<close>

lemma month_rule_year_10000: "FindForKey (\<lambda>_. 0) DateMonthShard [KInt 253402300800] = Ret (0, Some (Strconv ErrSyntax))"
proof -
  have "abs_seconds 0 253402300800 div 86400 = 106751994005991" by (simp add: abs_seconds_def uint64_def unixToAbsolute_def)
  moreover have "absYear 106751994005991 = (292277032399, 0)" by (rule absYear_unique) (simp_all add: days_to_year_def)
  ultimately have d: "unix_date (\<lambda>_. 0) 253402300800 = \<lparr>year = 10000, month = 1, day = 1\<rparr>"
    by (simp add: unix_date_def date_of_def absoluteZeroYear_def isLeap_def monthDay_def daysBefore_def)
  have "format_nat 10000 = ''10000''" "format_nat 1 = ''1''" by (simp add: format_nat.simps, code_simp)+
  then have t: "format_date \<lparr>year = 10000, month = 1, day = 1\<rparr> = ''10000-01-01''" by (simp add: format_date_def pad_int_def)
  have "year_month_text ''10000-01-01'' = Ret ''1000-0''" "Atoi ''1000-0'' = (0, Some ErrSyntax)" by code_simp+
  then show ?thesis by (simp add: date_rule_defs d date_number_def t [unfolded One_nat_def])
qed

text \<open>C21: the table numbers of the date rules never decrease as the local time of the row grows, so a span
  of time is stored in a contiguous span of table numbers. This holds for the local times from the year 0 to the year 9999, within the calendar of package \<open>time\<close>, whose seconds
  do not wrap around there; in later years the month and day rules fail.\<close>

theorem date_shards_mono:
  assumes "s \<in> {DateYearShard, DateMonthShard, DateDayShard}"
    and "in_calendar (tz v) v" and "in_calendar (tz w) w" and "v + tz v \<le> w + tz w"
    and "0 \<le> year (unix_date tz v)" and "year (unix_date tz w) \<le> 9999"
  shows "\<exists>i j. FindForKey tz s [KInt v] = Ret (i, None) \<and> FindForKey tz s [KInt w] = Ret (j, None) \<and> i \<le> j"
proof -
  have shift: "date_of o1 x = date_of 0 (x + o1)" for o1 x by (simp add: date_of_def abs_seconds_def)
  have "date_code (unix_date tz v) \<le> date_code (unix_date tz w)"
    unfolding unix_date_def shift [of "tz v"] shift [of "tz w"]
    using assms(2-4) by (intro date_code_mono) (simp_all add: in_calendar_def add.commute)
  note mono = this [unfolded date_code_def]
  note bv = date_of_bounds [of "tz v" v, folded unix_date_def] and bw = date_of_bounds [of "tz w" w, folded unix_date_def]
  have ym: "year (unix_date tz v) \<le> year (unix_date tz w)" using mono bv bw by linarith
  have "year_month_code (unix_date tz v) \<le> year_month_code (unix_date tz w)"
    unfolding year_month_code_def using mono bv bw by linarith
  with ym mono have le: "date_index s (unix_date tz v) \<le> date_index s (unix_date tz w)"
    using assms(1) by (auto simp: date_index_def date_code_def)
  have "FindForKey tz s [KInt x] = Ret (date_index s (unix_date tz x), None)" if "0 \<le> year (unix_date tz x)" "year (unix_date tz x) \<le> 9999" for x
    using assms(1) date_number_eq [OF unix_date_printable [OF that]]
    by (auto simp: date_rule_defs)
  then show ?thesis using le ym assms(5,6) by auto
qed

theorem date_shards_mono_witness:
  "\<exists>i j. FindForKey (\<lambda>_. 28800) DateMonthShard [KInt 1577000000] = Ret (i, None)
     \<and> FindForKey (\<lambda>_. 28800) DateMonthShard [KInt 1583000000] = Ret (j, None) \<and> i \<le> j"
  using date_shards_mono [of DateMonthShard "\<lambda>_. 28800" 1577000000 1583000000] march_2020 december_2019
  by (simp add: in_calendar_def unixToAbsolute_def)

section \<open>Range boundaries and range names\<close>

lemma Equal_boundary:
  assumes "0 < L" and "L \<le> 2 ^ 44" and "0 < R" and "L * R < 2 ^ 63"
    and "NumValue k = Ret (v, None)" and "0 \<le> i" and "i + 1 < L"
  shows "\<exists>rs. ParseNumSharding L R = Ret (rs, None)
    \<and> EqualStop rs k i = Ret (v = (i + 1) * R, None) \<and> EqualStart rs k (i + 1) = Ret (v = (i + 1) * R, None)"
proof -
  have "nat i < nat L" "nat (i + 1) < nat L" using assms(6,7) by linarith+
  then show ?thesis
    using assms(5-7) ParseNumSharding_ranges [OF assms(1-4)]
    by (auto simp: EqualStop_def EqualStart_def go_index_def)
qed

lemma format_nat_inj: "format_nat m = format_nat n \<longleftrightarrow> m = n"
  using dec_value_format_nat by metis

lemma digits_prefix:
  assumes "format_nat m @ CHR ''-'' # s = format_nat n @ CHR ''-'' # t"
  shows "m = n \<and> s = t"
proof -
  have tw: "takeWhile is_digit (format_nat k @ CHR ''-'' # u) = format_nat k" for k u
    using format_nat_digits [of k] by (subst takeWhile_append2) auto
  from assms have "format_nat m = format_nat n" by (metis tw)
  with assms show ?thesis by (simp add: format_nat_inj)
qed

lemma format_nat_no_sign: "format_nat n \<noteq> CHR ''-'' # s"
  using format_nat_digits [of n] by auto

lemma Itoa_inj: "Itoa x = Itoa y \<longleftrightarrow> x = y"
  using format_nat_no_sign by (auto simp: Itoa_def format_nat_inj split: if_splits) metis+

lemma Itoa_dash_prefix: "Itoa x @ CHR ''-'' # s = Itoa y @ CHR ''-'' # t \<Longrightarrow> x = y \<and> s = t"
proof -
  have hd: "format_nat n @ u \<noteq> CHR ''-'' # w" for n u w
    using format_nat_hd [of n] by (cases "format_nat n") auto
  show "Itoa x @ CHR ''-'' # s = Itoa y @ CHR ''-'' # t \<Longrightarrow> x = y \<and> s = t"
    using hd hd [symmetric] by (auto simp: Itoa_def split: if_splits dest!: digits_prefix)
qed

text \<open>The map key of a range determines the range: two ranges with the same key have the same
  bounds, also when bounds are negative.\<close>

lemma MapKey_inj: "MapKey a = MapKey b \<longleftrightarrow> a = b"
proof
  assume "MapKey a = MapKey b"
  then have "Start a = Start b \<and> Itoa (End a) = Itoa (End b)"
    using Itoa_dash_prefix [of "Start a" "Itoa (End a)" "Start b" "Itoa (End b)"] by (simp add: MapKey_def)
  then show "a = b" by (simp add: Itoa_inj)
qed simp

section \<open>Parsing the configuration\<close>

text \<open>The rule one configuration asks for; an unknown type asks for none.\<close>

definition rule_of :: "ShardConfig \<Rightarrow> shard option" where
  "rule_of cfg =
     (if cfg_Type cfg = ''mod'' then Some (ModShard (cfg_ModNum cfg))
      else if cfg_Type cfg = ''range'' then
        (case ParseNumSharding (cfg_Locations cfg) (cfg_TableRowLimit cfg) of
           Ret (rs, _) \<Rightarrow> Some (NumRangeShard rs) | Panic _ \<Rightarrow> None)
      else if cfg_Type cfg = ''date_day'' then Some DateDayShard
      else if cfg_Type cfg = ''date_month'' then Some DateMonthShard
      else if cfg_Type cfg = ''date_year'' then Some DateYearShard
      else None)"

definition locations_ok :: "ShardConfig \<Rightarrow> bool" where
  "locations_ok cfg \<longleftrightarrow> (cfg_Type cfg = ''range'' \<longrightarrow> make_ok 16 (cfg_Locations cfg))"

lemma ParseShard_loop_rules:
  "list_all locations_ok cfgs \<Longrightarrow>
     ParseShard_loop shards (map Some cfgs) = Ret (shards @ List.map_filter rule_of cfgs, None)"
proof (induction cfgs arbitrary: shards)
  case (Cons cfg cfgs)
  from Cons.prems have "cfg_Type cfg = ''range'' \<Longrightarrow>
    \<exists>rs. ParseNumSharding (cfg_Locations cfg) (cfg_TableRowLimit cfg) = Ret (rs, None)"
    by (simp add: locations_ok_def ParseNumSharding_def Let_def)
  with Cons show ?case by (auto simp: rule_of_def map_filter_simps)
qed (simp add: map_filter_simps)

text \<open>Reading the shard configurations yields the rules they ask for, in order, skipping the
  configurations of unknown type, and reports no error; it panics when a range configuration asks for a
  number of tables that no slice can have.\<close>

lemma ParseShard_rules:
  "(if list_all locations_ok cfgs then ParseShard (map Some cfgs) = Ret (List.map_filter rule_of cfgs, None)
    else ParseShard (map Some cfgs) = Panic MakeSliceLen)"
proof -
  have "\<not> list_all locations_ok cfgs \<Longrightarrow> ParseShard_loop shards (map Some cfgs) = Panic MakeSliceLen" for shards
  proof (induction cfgs arbitrary: shards)
    case (Cons cfg cfgs)
    show ?case
    proof (cases "locations_ok cfg")
      case True
      with Cons have "\<not> list_all locations_ok cfgs" by simp
      from Cons.IH [OF this] True show ?thesis
        by (auto simp: locations_ok_def ParseNumSharding_def Let_def)
    next
      case False
      then show ?thesis by (simp add: locations_ok_def ParseNumSharding_def Let_def)
    qed
  qed simp
  then show ?thesis by (simp add: ParseShard_def ParseShard_loop_rules)
qed

lemma ParseShard_aligned:
  assumes "ParseShard (map Some cfgs) = Ret (shards, None)" and "list_all (\<lambda>c. rule_of c \<noteq> None) cfgs"
  shows "map rule_of cfgs = map Some shards"
proof -
  have ok: "list_all locations_ok cfgs"
    using assms(2) by (auto simp: list_all_iff rule_of_def locations_ok_def ParseNumSharding_def Let_def split: if_splits)
  have "map rule_of cfgs = map Some (List.map_filter rule_of cfgs)"
    using assms(2) by (induction cfgs) (auto simp: map_filter_simps)
  then show ?thesis using assms(1) ParseShard_loop_rules [OF ok] by (simp add: ParseShard_def)
qed

section \<open>What a client may rely on\<close>

text \<open>
  The contract of a rule for its client, the choice of a table: keys the rule accepts get a number, no
  error and no panic, and the number is one of the tables the rule uses.
\<close>

locale shard_contract =
  fixes find :: "(int \<Rightarrow> int) \<Rightarrow> 'r \<Rightarrow> key list \<Rightarrow> (int \<times> dao_error option) go"
    and accepts :: "(int \<Rightarrow> int) \<Rightarrow> 'r \<Rightarrow> key list \<Rightarrow> bool"
    and tables :: "'r \<Rightarrow> int \<Rightarrow> bool"
  assumes accepted: "accepts tz r ks \<Longrightarrow> \<exists>i. find tz r ks = Ret (i, None) \<and> tables r i"
begin

lemma accepted_find:
  assumes "accepts tz r ks"
  obtains i where "find tz r ks = Ret (i, None)" and "tables r i"
  using accepted [OF assms] by blast

end

definition key_year_ok :: "(int \<Rightarrow> int) \<Rightarrow> int \<Rightarrow> bool" where
  "key_year_ok tz v \<longleftrightarrow> 0 \<le> year (unix_date tz v) \<and> year (unix_date tz v) \<le> 9999"

definition rule_accepts :: "(int \<Rightarrow> int) \<Rightarrow> shard \<Rightarrow> key list \<Rightarrow> bool" where
  "rule_accepts tz s ks =
     (case s of
        ModShard n \<Rightarrow> 0 < n \<and> n < 2 ^ 63 \<and> list_all wf_key ks \<and> snd (ModValue (mod_key ks)) = None
      | NumRangeShard rs \<Rightarrow>
          (case ks of [k] \<Rightarrow> (case NumValue k of Ret (v, None) \<Rightarrow> list_ex (\<lambda>r. Contains r v) rs | _ \<Rightarrow> False) | _ \<Rightarrow> False)
      | _ \<Rightarrow> (case ks of KInt v # _ \<Rightarrow> key_year_ok tz v | KInt64 v # _ \<Rightarrow> key_year_ok tz v
              | KUint64 v # _ \<Rightarrow> key_year_ok tz (int64 v) | _ \<Rightarrow> False))"

definition rule_tables :: "shard \<Rightarrow> int \<Rightarrow> bool" where
  "rule_tables s i =
     (case s of
        ModShard n \<Rightarrow> 0 \<le> i \<and> i < n
      | NumRangeShard rs \<Rightarrow> 0 \<le> i \<and> i < int (length rs)
      | DateYearShard \<Rightarrow> 0 \<le> i \<and> i \<le> 9999
      | DateMonthShard \<Rightarrow> 1 \<le> i \<and> i \<le> 999912
      | DateDayShard \<Rightarrow> 101 \<le> i \<and> i \<le> 99991231)"

lemma range_loop_found:
  "list_ex (\<lambda>r. Contains r v) rs \<Longrightarrow> \<exists>k < length rs. range_loop i v rs = (i + int k, None)"
proof -
  assume ex: "list_ex (\<lambda>r. Contains r v) rs"
  then have "List.find (\<lambda>k. Contains (rs ! k) v) [0..<length rs] \<noteq> None"
    by (auto simp: find_None_iff list_ex_iff in_set_conv_nth)
  then obtain k where k: "List.find (\<lambda>k. Contains (rs ! k) v) [0..<length rs] = Some k" by auto
  with find_index(1) [OF k] show ?thesis by (simp add: range_loop_eq)
qed

lemma date_index_tables:
  assumes "s \<in> {DateYearShard, DateMonthShard, DateDayShard}" and "key_year_ok tz v"
  shows "date_number year_month_text (unix_date tz v) = Ret (year_month_code (unix_date tz v), None)"
    and "date_number year_month_day_text (unix_date tz v) = Ret (date_code (unix_date tz v), None)"
    and "rule_tables s (date_index s (unix_date tz v))"
proof -
  have p: "printable_date (unix_date tz v)" using assms(2) by (simp add: key_year_ok_def unix_date_printable)
  then show "date_number year_month_text (unix_date tz v) = Ret (year_month_code (unix_date tz v), None)"
    "date_number year_month_day_text (unix_date tz v) = Ret (date_code (unix_date tz v), None)"
    by (rule date_number_eq)+
  show "rule_tables s (date_index s (unix_date tz v))"
    using assms(1) p by (auto simp: rule_tables_def date_index_def year_month_code_def date_code_def printable_date_def)
qed

interpretation rules: shard_contract FindForKey rule_accepts rule_tables
proof
  fix tz s ks
  assume acc: "rule_accepts tz s ks"
  show "\<exists>i. FindForKey tz s ks = Ret (i, None) \<and> rule_tables s i"
  proof (cases s)
    case (ModShard n)
    with acc have n: "0 < n" "n < 2 ^ 63" and wf: "wf_key (mod_key ks)" and none: "snd (ModValue (mod_key ks)) = None"
      by (auto simp: rule_accepts_def list_all_iff intro: wf_mod_key)
    from ModShard_Ret [OF n, of "fst (ModValue (mod_key ks))"] ModValue_bounds [OF wf] none n ModShard show ?thesis
      by (simp add: FindForKey_def ModShard_FindForKey_mod_key rule_tables_def)
  next
    case (NumRangeShard rs)
    with acc obtain k v where k: "ks = [k]" "NumValue k = Ret (v, None)" "list_ex (\<lambda>r. Contains r v) rs"
      by (auto simp: rule_accepts_def split: list.splits go.splits option.splits)
    then have "rs \<noteq> []" by auto
    with k NumRangeShard range_loop_found [OF k(3), of 0] show ?thesis
      by (auto simp: FindForKey_def NumRangeShard_FindForKey_def MIN_LEN_KEY_def rule_tables_def)
  next
    case DateYearShard
    with acc date_index_tables(3) [of s tz] show ?thesis
      by (auto simp: rule_accepts_def date_rule_defs split: list.splits key.splits)
  next
    case DateMonthShard
    with acc date_index_tables [of s tz] show ?thesis
      by (auto simp: rule_accepts_def date_rule_defs split: list.splits key.splits)
  next
    case DateDayShard
    with acc date_index_tables [of s tz] show ?thesis
      by (auto simp: rule_accepts_def date_rule_defs split: list.splits key.splits)
  qed
qed

end
