(* ===== verification/Dao_Node.thy ===== *)
theory Dao_Node
  imports Dao_Shard
begin

text \<open>
  A database node (\<open>components/dao/node.go\<close>) and the choice of a replica
  (\<open>components/dao/balancer.go\<close>). The state of a node is a record with the fields of the source. A
  handle of \<open>database/sql\<close> is the data it was opened with; whether the driver accepts a data source
  name, whether a server answers a ping and how a transaction begins and ends are parameters. The
  draws of the random source are a parameter, too: an arbitrary sequence of numbers of which
  \<open>Intn(n)\<close> is the remainder modulo \<open>n\<close>. Methods that lock the node run as one step.
\<close>

section \<open>Configuration and state\<close>

record NodeConfig =
  nc_Addr :: string
  nc_User :: string
  nc_Password :: string
  nc_Timezone :: string
  nc_Weight :: int

record DBConfig =
  dc_Name :: string
  dc_MaxConnNum :: int
  dc_MaxIdleConns :: int
  dc_MaxLifetime :: int
  dc_PingTickerTime :: int
  dc_Master :: "NodeConfig option"
  dc_Slave :: "NodeConfig option list"
  dc_Shard :: "ShardConfig option list"

record DB =
  db_dsn :: string
  db_MaxIdle :: int
  db_MaxOpen :: int
  db_MaxLifetime :: int

record Node =
  Cfg :: DBConfig
  Master :: "DB option"
  Slave :: "DB option list"
  LastSlaveIndex :: int
  RoundRobinQ :: "int list"
  SlaveWeights :: "int list"
  node_Shard :: "shard list"
  shardDb :: "string list"

section \<open>The balancer\<close>

fun all_divisible :: "int \<Rightarrow> int list \<Rightarrow> bool go" where
  "all_divisible m [] = Ret True"
| "all_divisible m (a # ary) = go_bind (go_mod a m) (\<lambda>r. if r \<noteq> 0 then Ret False else all_divisible m ary)"

function Gcd_loop :: "int list \<Rightarrow> int \<Rightarrow> int go" where
  "Gcd_loop ary m =
     go_bind (all_divisible m ary) (\<lambda>isCommon.
       if isCommon then Ret m
       else let m' = int64 (m - 1) in if m' < 1 then Ret m' else Gcd_loop ary m')"
  by pat_completeness auto
termination
proof (relation "measure (\<lambda>(ary, m). if m < 1 then 2 ^ 64 else nat m)")
  fix ary :: "int list" and m m' :: int and c :: bool
  assume m': "m' = int64 (m - 1)" "\<not> m' < 1"
  have "m' < 2 ^ 63" using in_int64_int64 [of "m - 1"] m'(1) by (simp add: in_int64_def)
  moreover have "m' < m" if "1 \<le> m"
  proof -
    have "(m - 1 + 2 ^ 63) mod 2 ^ 64 \<le> m - 1 + 2 ^ 63" using that by (intro zmod_le_nonneg_dividend) simp
    then show ?thesis by (simp add: m'(1) int64_def)
  qed
  ultimately show "((ary, m'), ary, m) \<in> measure (\<lambda>(ary, m). if m < 1 then 2 ^ 64 else nat m)"
    using m'(2) by (auto simp: nat_less_iff)
qed simp

declare Gcd_loop.simps [simp del]

definition Gcd_slice :: "int list \<Rightarrow> int go" where
  "Gcd_slice ary = go_bind (go_index ary 0) (\<lambda>m0. Gcd_loop ary (foldl (\<lambda>m a. if a < m then a else m) m0 ary))"

definition shuffle_step :: "(nat \<Rightarrow> nat) \<Rightarrow> int \<Rightarrow> nat \<Rightarrow> int list \<Rightarrow> int list go" where
  "shuffle_step draws sm i q =
     (let x = int (draws i mod nat sm) in
      go_bind (go_index q x) (\<lambda>temp.
      go_bind (go_mod sm (x + 1)) (\<lambda>other.
      go_bind (go_index q other) (\<lambda>v.
      go_bind (go_update q x v) (\<lambda>q1. go_update q1 other temp)))))"

definition InitBalancer :: "(nat \<Rightarrow> nat) \<Rightarrow> Node \<Rightarrow> Node go" where
  "InitBalancer draws n =
     go_bind (Gcd_slice (SlaveWeights n)) (\<lambda>gcd.
     go_bind (go_fold (\<lambda>weight sm. go_bind (go_div weight gcd) (\<lambda>q. Ret (int64 (sm + q)))) (SlaveWeights n) 0) (\<lambda>sm.
     if \<not> make_ok 8 sm then Panic MakeSliceLen
     else
       go_bind (go_fold (\<lambda>(index, weight) q. go_bind (go_div weight gcd) (\<lambda>k. Ret (q @ replicate (nat k) (int index))))
                  (enumerate 0 (SlaveWeights n)) []) (\<lambda>q.
       go_bind (if 1 < length (SlaveWeights n) then go_fold (shuffle_step draws sm) [0..<nat sm] q else Ret q) (\<lambda>q'.
         Ret (n\<lparr>LastSlaveIndex := 0, RoundRobinQ := q'\<rparr>)))))"

definition getNextSlave :: "Node \<Rightarrow> ((DB option \<times> dao_error option) \<times> Node) go" where
  "getNextSlave n =
     (let queueLen = int (length (RoundRobinQ n)) in
      if queueLen = 0 then Ret ((None, Some (Sentinel ErrNoDatabase)), n)
      else if queueLen = 1 then
        go_bind (go_index (RoundRobinQ n) 0) (\<lambda>index.
        go_bind (go_index (Slave n) index) (\<lambda>db. Ret ((db, None), n)))
      else
        go_bind (go_mod (LastSlaveIndex n) queueLen) (\<lambda>last.
        let n1 = n\<lparr>LastSlaveIndex := last\<rparr> in
        go_bind (go_index (RoundRobinQ n1) last) (\<lambda>index.
        if int (length (Slave n1)) \<le> index then Ret ((None, Some (Sentinel ErrNoDatabase)), n1)
        else
          go_bind (go_index (Slave n1) index) (\<lambda>db.
          go_bind (go_mod (int64 (last + 1)) queueLen) (\<lambda>next.
            Ret ((db, None), n1\<lparr>LastSlaveIndex := next\<rparr>))))))"

section \<open>The node\<close>

text \<open>\<open>url.QueryEscape\<close>\<close>

definition hex_upper :: "nat \<Rightarrow> char" where
  "hex_upper d = (if d < 10 then char_of (48 + d) else char_of (55 + d))"

definition query_unreserved :: "char \<Rightarrow> bool" where
  "query_unreserved c \<longleftrightarrow>
     (let b = (of_char c :: nat) in
      48 \<le> b \<and> b \<le> 57 \<or> 65 \<le> b \<and> b \<le> 90 \<or> 97 \<le> b \<and> b \<le> 122 \<or> c \<in> set ''-_.~'')"

definition QueryEscape :: "string \<Rightarrow> string" where
  "QueryEscape s =
     concat (map (\<lambda>c. if c = CHR '' '' then ''+''
                      else if query_unreserved c then [c]
                      else [CHR ''%'', hex_upper (of_char c div 16), hex_upper (of_char c mod 16)]) s)"

definition second :: int where
  "second = 1000000000"

text \<open>
  The parameter \<open>Open\<close> gives the error of \<open>sql.Open\<close> for a data source name, \<open>Ping\<close> the error of a ping.
\<close>

definition openDB :: "(string \<Rightarrow> string option) \<Rightarrow> (DB \<Rightarrow> string option) \<Rightarrow> DBConfig \<Rightarrow> NodeConfig
    \<Rightarrow> DB option \<times> dao_error option" where
  "openDB Open Ping cfg nc =
     (let dsn = nc_User nc @ '':'' @ nc_Password nc @ ''@tcp('' @ nc_Addr nc @ '')/?charset=utf8&loc=''
                @ QueryEscape (nc_Timezone nc) @ ''&parseTime=true'' in
      case Open dsn of
        Some e \<Rightarrow> (None, Some (Driver e))
      | None \<Rightarrow>
          let db = \<lparr>db_dsn = dsn, db_MaxIdle = dc_MaxIdleConns cfg, db_MaxOpen = dc_MaxConnNum cfg,
                    db_MaxLifetime = int64 (dc_MaxLifetime cfg * second)\<rparr>
          in (Some db, map_option Driver (Ping db)))"

definition parseMaster :: "(string \<Rightarrow> string option) \<Rightarrow> (DB \<Rightarrow> string option) \<Rightarrow> Node \<Rightarrow> (Node \<times> dao_error option) go" where
  "parseMaster Open Ping n =
     (case dc_Master (Cfg n) of
        None \<Rightarrow> Panic NilDereference
      | Some nc \<Rightarrow> let (db, err) = openDB Open Ping (Cfg n) nc in Ret (n\<lparr>Master := db\<rparr>, err))"

fun parseSlave_loop :: "(string \<Rightarrow> string option) \<Rightarrow> (DB \<Rightarrow> string option) \<Rightarrow> NodeConfig option list \<Rightarrow> Node
    \<Rightarrow> (Node \<times> dao_error option) go" where
  "parseSlave_loop Open Ping [] n = Ret (n, None)"
| "parseSlave_loop Open Ping (None # cs) n = Panic NilDereference"
| "parseSlave_loop Open Ping (Some slave # cs) n =
     (let n1 = n\<lparr>SlaveWeights := SlaveWeights n @ [nc_Weight slave]\<rparr>;
          (db, err) = openDB Open Ping (Cfg n) slave
      in case err of
           Some e \<Rightarrow> Ret (n1, Some e)
         | None \<Rightarrow> parseSlave_loop Open Ping cs (n1\<lparr>Slave := Slave n1 @ [db]\<rparr>))"

definition parseSlave :: "(string \<Rightarrow> string option) \<Rightarrow> (DB \<Rightarrow> string option) \<Rightarrow> Node \<Rightarrow> (Node \<times> dao_error option) go" where
  "parseSlave Open Ping n =
     (if dc_Slave (Cfg n) = [] then Ret (n, None)
      else parseSlave_loop Open Ping (dc_Slave (Cfg n)) (n\<lparr>Slave := [], SlaveWeights := []\<rparr>))"

fun shard_names :: "ShardConfig option list \<Rightarrow> string list go" where
  "shard_names [] = Ret []"
| "shard_names (None # cs) = Panic NilDereference"
| "shard_names (Some c # cs) = go_bind (shard_names cs) (\<lambda>ns. Ret (cfg_DB c # ns))"

text \<open>
  \<open>NewNode\<close> up to its last statement, which starts the health check in a goroutine of its own; the check is \<open>CheckNode\<close> below, and its ticker panics there for an interval that is not positive.
\<close>

definition NewNode :: "(string \<Rightarrow> string option) \<Rightarrow> (DB \<Rightarrow> string option) \<Rightarrow> (nat \<Rightarrow> nat) \<Rightarrow> DBConfig
    \<Rightarrow> (Node option \<times> dao_error option) go" where
  "NewNode Open Ping draws cfg =
     (case dc_Master cfg of
        None \<Rightarrow> Panic NilDereference
      | Some m \<Rightarrow>
          if nc_Addr m = [] then Ret (None, Some (Sentinel ErrNoMasterDB))
          else
            go_bind (shard_names (dc_Shard cfg)) (\<lambda>names.
            go_bind (ParseShard (dc_Shard cfg)) (\<lambda>(shards, err).
            if err \<noteq> None then Ret (None, err)
            else
              let n = \<lparr>Cfg = cfg, Master = None, Slave = [], LastSlaveIndex = 0, RoundRobinQ = [], SlaveWeights = [],
                       node_Shard = shards, shardDb = names\<rparr> in
              go_bind (parseMaster Open Ping n) (\<lambda>(n, err).
              if err \<noteq> None then Ret (None, err)
              else
                go_bind (parseSlave Open Ping n) (\<lambda>(n, err).
                if err \<noteq> None then Ret (None, err)
                else go_bind (InitBalancer draws n) (\<lambda>n. Ret (Some n, None)))))))"

text \<open>The health check: the messages handed to the check handler in one tick, and in a number of ticks.\<close>

definition checkMaster :: "(DB \<Rightarrow> string option) \<Rightarrow> Node \<Rightarrow> string list" where
  "checkMaster Ping n =
     (case Master n of
        None \<Rightarrow> [''Node checkMaster  Master is not online'']
      | Some db \<Rightarrow>
          (case Ping db of
             Some err \<Rightarrow> [''Node checkMaster  ping error '' @ err]
           | None \<Rightarrow> []))"

definition checkSlave :: "(DB \<Rightarrow> string option) \<Rightarrow> Node \<Rightarrow> string list go" where
  "checkSlave Ping n =
     go_fold (\<lambda>(i, slave) msgs.
         case slave of
           None \<Rightarrow> Panic NilDereference
         | Some db \<Rightarrow>
             (case Ping db of
                Some err \<Rightarrow> Ret (msgs @ [''Node checkSlave['' @ Itoa (int i) @ '']  ping error '' @ err])
              | None \<Rightarrow> Ret msgs))
       (enumerate 0 (Slave n)) []"

definition CheckNode :: "(DB \<Rightarrow> string option) list \<Rightarrow> Node \<Rightarrow> string list go" where
  "CheckNode ticks n =
     (if int64 (dc_PingTickerTime (Cfg n) * second) \<le> 0 then Panic (Explicit ''non-positive interval for NewTicker'')
      else go_fold (\<lambda>Ping msgs. go_bind (checkSlave Ping n) (\<lambda>ms. Ret (msgs @ checkMaster Ping n @ ms))) ticks [])"

definition GetMasterConn :: "Node \<Rightarrow> DB option \<times> dao_error option" where
  "GetMasterConn n =
     (case Master n of None \<Rightarrow> (None, Some (Sentinel ErrNoMasterConn)) | Some db \<Rightarrow> (Some db, None))"

definition GetSlaveConn :: "Node \<Rightarrow> ((DB option \<times> dao_error option) \<times> Node) go" where
  "GetSlaveConn n =
     go_bind (getNextSlave n) (\<lambda>((db, err), n').
       if err \<noteq> None then Ret ((None, err), n')
       else if db = None then Ret ((None, Some (Sentinel ErrNoSlaveDB)), n')
       else Ret ((db, None), n'))"

fun find_shard :: "string \<Rightarrow> string \<Rightarrow> nat \<Rightarrow> ShardConfig option list \<Rightarrow> nat option go" where
  "find_shard db table k [] = Ret None"
| "find_shard db table k (None # cs) = Panic NilDereference"
| "find_shard db table k (Some v # cs) =
     (if cfg_DB v = db \<and> cfg_Table v = table then Ret (Some k) else find_shard db table (Suc k) cs)"

fun checkShard_loop :: "Node \<Rightarrow> string \<Rightarrow> string \<Rightarrow> string list \<Rightarrow> shard option go" where
  "checkShard_loop n db table [] = Ret None"
| "checkShard_loop n db table (s # ss) =
     (if s = db then
        go_bind (find_shard db table 0 (dc_Shard (Cfg n))) (\<lambda>r.
          case r of
            Some k \<Rightarrow> go_bind (go_index (node_Shard n) (int k)) (\<lambda>sh. Ret (Some sh))
          | None \<Rightarrow> checkShard_loop n db table ss)
      else checkShard_loop n db table ss)"

definition checkShard :: "Node \<Rightarrow> string \<Rightarrow> string \<Rightarrow> shard option go" where
  "checkShard n db table = checkShard_loop n db table (shardDb n)"

definition GetTable :: "(int \<Rightarrow> int) \<Rightarrow> Node \<Rightarrow> string \<Rightarrow> string \<Rightarrow> key list \<Rightarrow> (string \<times> dao_error option) go" where
  "GetTable tz n db table key =
     go_bind (checkShard n db table) (\<lambda>sh.
       case sh of
         Some shardModel \<Rightarrow>
           go_bind (FindForKey tz shardModel key) (\<lambda>(k, err).
             if err \<noteq> None then Ret ([], err)
             else Ret (db @ ''.'' @ table @ ''_'' @ Itoa k, None))
       | None \<Rightarrow> Ret (db @ ''.'' @ table, None))"

section \<open>Transactions\<close>

text \<open>
  A context is its chain of derivations. A cancel function is the number of the timer it stops. The
  world counts timers, records the ones that still run and the calls made on transactions; the
  parameters \<open>BeginTx\<close>, \<open>TxCommit\<close> and \<open>TxRollback\<close> give the results of the driver.
\<close>

datatype 'tx ctx =
    Background
  | WithTimeout "'tx ctx" int nat
  | WithTx "'tx ctx" 'tx
  | WithCancel "'tx ctx" nat

datatype 'tx tx_call = CommitCall 'tx | RollbackCall 'tx

record 'tx tx_world =
  next_timer :: nat
  running :: "nat list"
  tx_calls :: "'tx tx_call list"

fun Value_tx :: "'tx ctx \<Rightarrow> 'tx option" where
  "Value_tx Background = None"
| "Value_tx (WithTimeout c d t) = Value_tx c"
| "Value_tx (WithTx c tx) = Some tx"
| "Value_tx (WithCancel c t) = Value_tx c"

fun Value_cancel :: "'tx ctx \<Rightarrow> nat option" where
  "Value_cancel Background = None"
| "Value_cancel (WithTimeout c d t) = Value_cancel c"
| "Value_cancel (WithTx c tx) = Value_cancel c"
| "Value_cancel (WithCancel c t) = Some t"

fun deadlines :: "'tx ctx \<Rightarrow> int list" where
  "deadlines Background = []"
| "deadlines (WithTimeout c d t) = d # deadlines c"
| "deadlines (WithTx c tx) = deadlines c"
| "deadlines (WithCancel c t) = deadlines c"

definition TRANSACTION_MAX_RUNTIME :: int where
  "TRANSACTION_MAX_RUNTIME = second * 1"

definition BeginTransaction ::
  "(DB \<Rightarrow> 'tx ctx \<Rightarrow> string + 'tx) \<Rightarrow> Node \<Rightarrow> 'tx ctx \<Rightarrow> int \<Rightarrow> 'tx tx_world
    \<Rightarrow> ('tx ctx option \<times> dao_error option) \<times> 'tx tx_world" where
  "BeginTransaction BeginTx n ctx maxRuntime w =
     (case GetMasterConn n of
        (None, err) \<Rightarrow> ((None, err), w)
      | (Some c, Some err) \<Rightarrow> ((None, Some err), w)
      | (Some c, None) \<Rightarrow>
          let maxRuntime = (if maxRuntime = 0 \<or> maxRuntime > TRANSACTION_MAX_RUNTIME
                            then TRANSACTION_MAX_RUNTIME else maxRuntime);
              t = next_timer w;
              ctx1 = WithTimeout ctx maxRuntime t;
              w1 = w\<lparr>next_timer := Suc t, running := running w @ [t]\<rparr>
          in case BeginTx c ctx1 of
               Inl e \<Rightarrow> ((None, Some (Driver e)), w1)
             | Inr tx \<Rightarrow> ((Some (WithCancel (WithTx ctx1 tx) t), None), w1))"

definition GetConnFromCtx :: "'tx ctx \<Rightarrow> 'tx option \<times> dao_error option" where
  "GetConnFromCtx ctx =
     (case Value_tx ctx of None \<Rightarrow> (None, Some (Errorf ''assert tx err'')) | Some tx \<Rightarrow> (Some tx, None))"

text \<open>
  The end of a transaction. The deferred call of the cancel function happens only when the context
  holds no cancel function; the variable is then nil and calling it panics.
\<close>

definition Commit :: "('tx \<Rightarrow> string option) \<Rightarrow> 'tx ctx \<Rightarrow> 'tx tx_world \<Rightarrow> (dao_error option \<times> 'tx tx_world) go" where
  "Commit TxCommit ctx w =
     (case GetConnFromCtx ctx of
        (None, err) \<Rightarrow> Ret (err, w)
      | (Some tx, err) \<Rightarrow>
          let w1 = w\<lparr>tx_calls := tx_calls w @ [CommitCall tx]\<rparr> in
          case Value_cancel ctx of
            None \<Rightarrow> Panic NilDereference
          | Some cancel \<Rightarrow> Ret (map_option Driver (TxCommit tx), w1))"

definition Rollback :: "('tx \<Rightarrow> string option) \<Rightarrow> 'tx ctx \<Rightarrow> 'tx tx_world \<Rightarrow> (dao_error option \<times> 'tx tx_world) go" where
  "Rollback TxRollback ctx w =
     (case GetConnFromCtx ctx of
        (None, err) \<Rightarrow> Ret (err, w)
      | (Some tx, err) \<Rightarrow>
          let w1 = w\<lparr>tx_calls := tx_calls w @ [RollbackCall tx]\<rparr> in
          case Value_cancel ctx of
            None \<Rightarrow> Panic NilDereference
          | Some cancel \<Rightarrow> Ret (map_option Driver (TxRollback tx), w1))"

section \<open>The greatest common divisor\<close>

lemma all_divisible_eq:
  assumes "0 < m" and "\<And>a. a \<in> set ary \<Longrightarrow> 0 < a"
  shows "all_divisible m ary = Ret (\<forall>a \<in> set ary. m dvd a)"
  using assms(2)
proof (induction ary)
  case (Cons a ary)
  then have "go_mod a m = Ret (a mod m)" using assms(1) by (simp add: go_mod_pos order_less_imp_le)
  with Cons show ?case by (auto simp: dvd_eq_mod_eq_0)
qed simp

lemma Gcd_loop_eq:
  assumes "\<And>a. a \<in> set ary \<Longrightarrow> 0 < a" and "ary \<noteq> []"
  shows "Gcd (set ary) \<le> m \<Longrightarrow> m < 2 ^ 63 \<Longrightarrow> Gcd_loop ary m = Ret (Gcd (set ary))"
proof (induction "nat m" arbitrary: m rule: less_induct)
  case (less m)
  have "hd ary \<in> set ary" "0 < hd ary" using assms by simp_all
  then have "Gcd (set ary) \<noteq> 0" by (auto simp: Gcd_0_iff)
  then have pos: "0 < Gcd (set ary)" using Gcd_int_greater_eq_0 [of "set ary"] by linarith
  show ?case
  proof (cases "\<forall>a \<in> set ary. m dvd a")
    case True
    then have "m dvd Gcd (set ary)" by (simp add: Gcd_greatest)
    with pos less.prems(1) have "m = Gcd (set ary)" by (simp add: zdvd_imp_le order_antisym)
    with True pos show ?thesis
      by (subst Gcd_loop.simps) (simp add: all_divisible_eq assms(1))
  next
    case False
    then have "m \<noteq> Gcd (set ary)" by (auto simp: Gcd_dvd)
    then have lt: "Gcd (set ary) \<le> m - 1" using less.prems(1) by simp
    have id: "int64 (m - 1) = m - 1" using less.prems pos by (intro int64_id) (simp add: in_int64_def)
    have "Gcd_loop ary (m - 1) = Ret (Gcd (set ary))"
      using lt less.prems pos by (intro less.hyps) simp_all
    with False pos lt id show ?thesis
      by (subst Gcd_loop.simps) (simp add: all_divisible_eq assms(1))
  qed
qed

lemma foldl_min:
  "foldl (\<lambda>m a. if a < m then a else m) (m0 :: int) ary = Min (insert m0 (set ary))"
proof (induction ary arbitrary: m0)
  case (Cons a ary)
  have "(if a < m0 then a else m0) = min a m0" by (simp add: min_def)
  then have "foldl (\<lambda>m a. if a < m then a else m) m0 (a # ary) = Min (insert (min a m0) (set ary))" by (simp add: Cons.IH)
  also have "\<dots> = Min (insert m0 (set (a # ary)))"
    by (cases "ary = []") (simp_all add: Min_insert2 min.commute min.left_commute)
  finally show ?case .
qed simp

definition weights_ok :: "int list \<Rightarrow> bool" where
  "weights_ok ws \<longleftrightarrow> ws \<noteq> [] \<and> list_all (\<lambda>w. 0 < w \<and> w < 2 ^ 63) ws"

lemma weights_okD: "weights_ok ws \<Longrightarrow> ws \<noteq> []" "weights_ok ws \<Longrightarrow> w \<in> set ws \<Longrightarrow> 0 < w \<and> w < 2 ^ 63"
  by (auto simp: weights_ok_def list_all_iff)

lemma Gcd_slice_eq:
  assumes "weights_ok ws"
  shows "Gcd_slice ws = Ret (Gcd (set ws))"
proof -
  note ok = weights_okD [OF assms]
  have head: "go_index ws 0 = Ret (hd ws)" using ok(1) by (simp add: go_index_def hd_conv_nth)
  have m: "Min (insert (hd ws) (set ws)) = Min (set ws)" using ok(1) by (simp add: insert_absorb)
  have in_set: "Min (set ws) \<in> set ws" using ok(1) by (intro Min_in) simp_all
  then have "Gcd (set ws) dvd Min (set ws)" by (rule Gcd_dvd)
  moreover have "0 < Min (set ws)" "Min (set ws) < 2 ^ 63" using ok(2) [OF in_set] by simp_all
  ultimately have "Gcd_loop ws (Min (set ws)) = Ret (Gcd (set ws))"
    using ok by (intro Gcd_loop_eq) (auto simp: zdvd_imp_le)
  then show ?thesis by (simp add: Gcd_slice_def head foldl_min m)
qed

lemma Gcd_weights_pos: "weights_ok ws \<Longrightarrow> 0 < Gcd (set ws)"
proof -
  assume ok: "weights_ok ws"
  then have "hd ws \<in> set ws" "0 < hd ws" by (auto simp: weights_ok_def list_all_iff)
  then have "Gcd (set ws) \<noteq> 0" by (auto simp: Gcd_0_iff)
  then show ?thesis using Gcd_int_greater_eq_0 [of "set ws"] by linarith
qed

text \<open>C14: for a non-empty slice of positive weights the search returns their greatest common divisor; it
  neither panics nor loops forever.\<close>

theorem Gcd_slice_correct:
  assumes "weights_ok ws"
  shows "Gcd_slice ws = Ret (Gcd (set ws)) \<and> 0 < Gcd (set ws)"
  using Gcd_slice_eq [OF assms] Gcd_weights_pos [OF assms] by simp

theorem Gcd_slice_correct_witness: "Gcd_slice [12, 18, 30] = Ret 6"
proof -
  have "gcd (12 :: int) (gcd 18 30) = 6" by code_simp
  then show ?thesis using Gcd_slice_correct [of "[12, 18, 30]"] by (simp add: weights_ok_def)
qed


section \<open>The queue of replicas\<close>

text \<open>The share of each replica in a round, and the queue before it is shuffled.\<close>

definition shares :: "int list \<Rightarrow> int list" where
  "shares ws = map (\<lambda>w. w div Gcd (set ws)) ws"

definition plain_queue :: "int list \<Rightarrow> int list" where
  "plain_queue ws = concat (map (\<lambda>(i, k). replicate (nat k) (int i)) (enumerate 0 (shares ws)))"

lemma weight_div:
  assumes "weights_ok ws" and "w \<in> set ws"
  shows "go_div w (Gcd (set ws)) = Ret (w div Gcd (set ws))" and "0 \<le> w div Gcd (set ws)"
  using weights_okD(2) [OF assms] Gcd_weights_pos [OF assms(1)]
  by (simp_all add: go_div_pos in_int64_def pos_imp_zdiv_nonneg_iff)

lemma sum_fold:
  assumes "weights_ok ws" and "set us \<subseteq> set ws" and "0 \<le> s"
    and "s + sum_list (map (\<lambda>w. w div Gcd (set ws)) us) < 2 ^ 63"
  shows "go_fold (\<lambda>weight sm. go_bind (go_div weight (Gcd (set ws))) (\<lambda>q. Ret (int64 (sm + q)))) us s
    = Ret (s + sum_list (map (\<lambda>w. w div Gcd (set ws)) us))"
  using assms(2-4)
proof (induction us arbitrary: s)
  case (Cons u us)
  have u: "u \<in> set ws" and us: "set us \<subseteq> set ws" using Cons.prems(1) by auto
  have nonneg: "0 \<le> sum_list (map (\<lambda>w. w div Gcd (set ws)) us)"
    using us weight_div(2) [OF assms(1)] by (intro sum_list_nonneg) auto
  have "int64 (s + u div Gcd (set ws)) = s + u div Gcd (set ws)"
    using Cons.prems(2,3) nonneg weight_div(2) [OF assms(1) u] by (intro int64_id) (simp add: in_int64_def)
  then show ?case
    using Cons.IH [of "s + u div Gcd (set ws)"] us Cons.prems weight_div [OF assms(1) u] by (simp add: add.assoc)
qed simp

lemma queue_fold:
  assumes "\<And>w. w \<in> set ws \<Longrightarrow> go_div w g = Ret (w div g)"
  shows "go_fold (\<lambda>(index, weight) q. go_bind (go_div weight g) (\<lambda>k. Ret (q @ replicate (nat k) (int index)))) (enumerate j ws) acc
    = Ret (acc @ concat (map (\<lambda>(i, k). replicate (nat k) (int i)) (enumerate j (map (\<lambda>w. w div g) ws))))"
  using assms by (induction ws arbitrary: j acc) auto

lemma shuffle_step_mset:
  assumes "0 < sm" and "sm = int (length q)"
  shows "\<exists>q'. shuffle_step draws sm i q = Ret q' \<and> mset q' = mset q"
proof -
  define x where "x = draws i mod nat sm"
  have x: "x < length q" using assms by (simp add: x_def)
  define y where "y = nat (sm mod (int x + 1))"
  have "sm mod (int x + 1) < int x + 1" "0 \<le> sm mod (int x + 1)" by (rule pos_mod_bound, simp) simp
  then have y: "y < length q" "sm mod (int x + 1) = int y" using x unfolding y_def by linarith+
  have "go_mod sm (int x + 1) = Ret (int y)" using assms(1) y(2) by (simp add: go_mod_pos)
  then have "shuffle_step draws sm i q = Ret (q[x := q ! y, y := q ! x])"
    using x y(1) by (simp add: shuffle_step_def Let_def x_def [symmetric] go_index_in go_update_in)
  then show ?thesis using mset_swap_update [OF x y(1)] by simp
qed

lemma shuffle_mset:
  assumes "sm = int (length q)" and "0 < sm \<or> is = []"
  shows "\<exists>q'. go_fold (shuffle_step draws sm) is q = Ret q' \<and> mset q' = mset q"
  using assms
proof (induction "is" arbitrary: q)
  case (Cons i "is")
  then have "0 < sm" by simp
  from shuffle_step_mset [OF this Cons.prems(1), of draws i]
  obtain q1 where q1: "shuffle_step draws sm i q = Ret q1" "mset q1 = mset q" by blast
  then have "sm = int (length q1)" using Cons.prems(1) by (metis size_mset)
  with Cons.IH [of q1] Cons.prems q1 show ?case by auto
qed simp

lemma count_plain_queue:
  "i < length ws \<Longrightarrow> count_list (plain_queue ws) (int i) = nat (shares ws ! i)"
proof -
  have "count_list (concat (map (\<lambda>(i, k). replicate (nat k) (int i)) (enumerate j ks))) (int i)
      = (if j \<le> i \<and> i < j + length ks then nat (ks ! (i - j)) else 0)" for j ks
    by (induction ks arbitrary: j) (auto simp: count_list_append nth_Cons' )
  from this [of 0 "shares ws"] show "i < length ws \<Longrightarrow> count_list (plain_queue ws) (int i) = nat (shares ws ! i)"
    by (simp add: plain_queue_def shares_def)
qed

lemma length_plain_queue: "weights_ok ws \<Longrightarrow> int (length (plain_queue ws)) = sum_list (shares ws)"
proof -
  have "(\<And>k. k \<in> set ks \<Longrightarrow> 0 \<le> k) \<Longrightarrow>
      int (length (concat (map (\<lambda>(i, k). replicate (nat k) (int i)) (enumerate j ks)))) = sum_list ks" for j ks
    by (induction ks arbitrary: j) auto
  from this [of "shares ws" 0] show "weights_ok ws \<Longrightarrow> int (length (plain_queue ws)) = sum_list (shares ws)"
    unfolding plain_queue_def using weight_div(2) [of ws] by (auto simp: shares_def)
qed

lemma set_plain_queue: "set (plain_queue ws) \<subseteq> int ` {0..<length ws}"
  by (auto simp: plain_queue_def shares_def in_set_enumerate_eq)

lemma InitBalancer_queue_eq:
  assumes "weights_ok (SlaveWeights n)" and "sum_list (shares (SlaveWeights n)) \<le> 2 ^ 45"
  shows "\<exists>q. InitBalancer draws n = Ret (n\<lparr>LastSlaveIndex := 0, RoundRobinQ := q\<rparr>)
    \<and> mset q = mset (plain_queue (SlaveWeights n))"
proof -
  let ?ws = "SlaveWeights n" and ?g = "Gcd (set (SlaveWeights n))"
  define sm where "sm = sum_list (shares ?ws)"
  have len: "sm = int (length (plain_queue ?ws))" using length_plain_queue [OF assms(1)] by (simp add: sm_def)
  have 1: "go_fold (\<lambda>weight sm. go_bind (go_div weight ?g) (\<lambda>q. Ret (int64 (sm + q)))) ?ws 0 = Ret sm"
    using sum_fold [OF assms(1) subset_refl, of 0] assms(2) by (simp add: sm_def shares_def)
  have 2: "go_fold (\<lambda>(index, weight) q. go_bind (go_div weight ?g) (\<lambda>k. Ret (q @ replicate (nat k) (int index))))
      (enumerate 0 ?ws) [] = Ret (plain_queue ?ws)"
    using queue_fold [of ?ws ?g 0 "[]"] weight_div(1) [OF assms(1)] by (simp add: plain_queue_def shares_def)
  have 3: "\<exists>q. go_fold (shuffle_step draws sm) [0..<nat sm] (plain_queue ?ws) = Ret q \<and> mset q = mset (plain_queue ?ws)"
    by (rule shuffle_mset [OF len]) auto
  have "make_ok 8 sm" using assms(2) len by (simp add: make_ok_def sm_def)
  with 1 2 3 Gcd_slice_eq [OF assms(1)] show ?thesis by (auto simp: InitBalancer_def)
qed

lemma plain_queue_not_Nil: "weights_ok ws \<Longrightarrow> plain_queue ws \<noteq> []"
proof -
  assume ok: "weights_ok ws"
  then have ne: "ws \<noteq> []" and mem: "ws ! 0 \<in> set ws" by (simp_all add: weights_ok_def)
  have "Gcd (set ws) \<le> ws ! 0" using mem weights_okD(2) [OF ok mem] by (simp add: zdvd_imp_le)
  then have "1 \<le> shares ws ! 0"
    using ne Gcd_weights_pos [OF ok] by (simp add: shares_def pos_imp_zdiv_pos_iff zdiv_mono1 le_div_iff_mult_le_int)
  then have "count_list (plain_queue ws) (int 0) \<noteq> 0" using count_plain_queue [of 0 ws] ne by simp
  then show ?thesis by auto
qed

text \<open>For positive weights whose shares fit in a slice, initialising the balancer succeeds whatever the
  random draws are: the queue is a permutation of the one that holds the index of each replica as often
  as its weight divided by the greatest common divisor, and the cursor is at its start.\<close>

lemma InitBalancer_queue:
  assumes "weights_ok (SlaveWeights n)" and "sum_list (shares (SlaveWeights n)) \<le> 2 ^ 45" and "i < length (SlaveWeights n)"
  shows "\<exists>q. InitBalancer draws n = Ret (n\<lparr>LastSlaveIndex := 0, RoundRobinQ := q\<rparr>)
    \<and> count_list q (int i) = nat (SlaveWeights n ! i div Gcd (set (SlaveWeights n)))
    \<and> int (length q) = sum_list (shares (SlaveWeights n)) \<and> set q \<subseteq> int ` {0..<length (SlaveWeights n)}"
proof -
  from InitBalancer_queue_eq [OF assms(1,2)] obtain q where
    q: "InitBalancer draws n = Ret (n\<lparr>LastSlaveIndex := 0, RoundRobinQ := q\<rparr>)" "mset q = mset (plain_queue (SlaveWeights n))"
    by blast
  have "count_list q (int i) = count_list (plain_queue (SlaveWeights n)) (int i)" using q(2) by (metis count_mset_list)
  moreover have "length q = length (plain_queue (SlaveWeights n))" "set q = set (plain_queue (SlaveWeights n))"
    using q(2) by (metis size_mset, metis set_mset_mset)
  ultimately show ?thesis
    using q(1) count_plain_queue [OF assms(3)] length_plain_queue [OF assms(1)] set_plain_queue assms(3)
    by (intro exI [of _ q]) (simp add: shares_def)
qed

definition sample_node :: Node where
  "sample_node =
     \<lparr>Cfg = \<lparr>dc_Name = ''main'', dc_MaxConnNum = 10, dc_MaxIdleConns = 5, dc_MaxLifetime = 60, dc_PingTickerTime = 5,
             dc_Master = None, dc_Slave = [], dc_Shard = []\<rparr>,
      Master = None,
      Slave = [Some \<lparr>db_dsn = ''a'', db_MaxIdle = 1, db_MaxOpen = 1, db_MaxLifetime = 1\<rparr>,
               Some \<lparr>db_dsn = ''b'', db_MaxIdle = 1, db_MaxOpen = 1, db_MaxLifetime = 1\<rparr>],
      LastSlaveIndex = 0, RoundRobinQ = [], SlaveWeights = [2, 4], node_Shard = [], shardDb = []\<rparr>"

lemma sample_shares: "weights_ok [2, 4]" "Gcd {2, 4 :: int} = 2" "shares [2, 4] = [1, 2]"
proof -
  show "weights_ok [2, 4]" by (simp add: weights_ok_def)
  have "gcd (2 :: int) 4 = 2" by code_simp
  then show "Gcd {2, 4 :: int} = 2" by simp
  then show "shares [2, 4] = [1, 2]" by (simp add: shares_def)
qed

section \<open>Choosing a replica\<close>

definition queue_ready :: "Node \<Rightarrow> bool" where
  "queue_ready n \<longleftrightarrow> RoundRobinQ n \<noteq> [] \<and> list_all (\<lambda>i. 0 \<le> i \<and> i < int (length (Slave n))) (RoundRobinQ n)
    \<and> list_all (\<lambda>db. db \<noteq> None) (Slave n) \<and> 0 \<le> LastSlaveIndex n \<and> length (RoundRobinQ n) < 2 ^ 63"

definition queue_entries :: "Node \<Rightarrow> DB option list" where
  "queue_entries n = map (\<lambda>i. Slave n ! nat i) (RoundRobinQ n)"

definition queue_cursor :: "Node \<Rightarrow> nat" where
  "queue_cursor n = nat (LastSlaveIndex n)"

definition pick_slave :: "Node \<Rightarrow> (DB option \<times> Node) option" where
  "pick_slave n = (case GetSlaveConn n of Ret ((db, None), n') \<Rightarrow> Some (db, n') | _ \<Rightarrow> None)"

lemma go_index_nat: "0 \<le> i \<Longrightarrow> i < int (length xs) \<Longrightarrow> go_index xs i = Ret (xs ! nat i)"
  by (simp add: go_index_def)

lemma getNextSlave_ready:
  assumes "queue_ready n"
  shows "getNextSlave n = Ret ((queue_entries n ! (queue_cursor n mod length (RoundRobinQ n)), None),
    if length (RoundRobinQ n) = 1 then n
    else n\<lparr>LastSlaveIndex := int (Suc (queue_cursor n) mod length (RoundRobinQ n))\<rparr>)"
proof -
  define len where "len = length (RoundRobinQ n)"
  define c where "c = queue_cursor n mod len"
  have len: "0 < len" "len < 2 ^ 63" and cur: "0 \<le> LastSlaveIndex n" using assms by (simp_all add: len_def queue_ready_def)
  have c: "c < len" using len by (simp add: c_def)
  have last: "go_mod (LastSlaveIndex n) (int len) = Ret (int c)"
    using cur len by (simp add: go_mod_pos c_def queue_cursor_def zmod_int)
  have idx: "0 \<le> RoundRobinQ n ! c" "RoundRobinQ n ! c < int (length (Slave n))"
    using assms c by (simp_all add: queue_ready_def list_all_length len_def)
  have "int64 (int c + 1) = int c + 1" using c len(2) by (intro int64_id) (simp add: in_int64_def)
  then have nxt: "go_mod (int64 (int c + 1)) (int len) = Ret (int (Suc (queue_cursor n) mod len))"
    using len by (simp add: go_mod_pos c_def zmod_int mod_simps add.commute)
  have entry: "queue_entries n ! c = Slave n ! nat (RoundRobinQ n ! c)" using c by (simp add: queue_entries_def len_def)
  show ?thesis
  proof (cases "len = 1")
    case True
    with c have "c = 0" by simp
    with True idx entry show ?thesis
      by (simp add: getNextSlave_def len_def [symmetric] c_def [symmetric] go_index_nat Let_def)
  next
    case False
    with len idx entry last nxt c show ?thesis
      by (simp add: getNextSlave_def len_def [symmetric] c_def [symmetric] go_index_nat Let_def)
  qed
qed

interpretation replicas: cyclic_selector queue_entries queue_cursor pick_slave queue_ready
proof
  fix n
  assume r: "queue_ready n"
  show "queue_entries n \<noteq> []" using r by (simp add: queue_ready_def queue_entries_def)
  define c where "c = queue_cursor n mod length (RoundRobinQ n)"
  have c: "c < length (RoundRobinQ n)" using r by (simp add: c_def queue_ready_def)
  then have "queue_entries n ! c \<noteq> None"
    using r by (auto simp: queue_entries_def queue_ready_def list_all_length)
  moreover have "length (queue_entries n) = length (RoundRobinQ n)" by (simp add: queue_entries_def)
  ultimately show "\<exists>n'. pick_slave n = Some (queue_entries n ! (queue_cursor n mod length (queue_entries n)), n')
      \<and> queue_ready n' \<and> queue_entries n' = queue_entries n
      \<and> queue_cursor n' mod length (queue_entries n) = Suc (queue_cursor n) mod length (queue_entries n)"
    using r getNextSlave_ready [OF r]
    by (auto simp: pick_slave_def GetSlaveConn_def c_def queue_ready_def queue_entries_def queue_cursor_def)
qed

text \<open>The replicas of a node whose queue is a permutation of the plain queue.\<close>

lemma queue_entries_mset:
  assumes "mset (RoundRobinQ n) = mset (plain_queue ws)"
  shows "mset (queue_entries n) = mset (concat (map (\<lambda>(i, k). replicate (nat k) (Slave n ! i)) (enumerate 0 (shares ws))))"
proof -
  have "mset (queue_entries n) = image_mset (\<lambda>i. Slave n ! nat i) (mset (plain_queue ws))"
    by (simp add: queue_entries_def flip: assms)
  also have "\<dots> = mset (concat (map (\<lambda>(i, k). replicate (nat k) (Slave n ! i)) (enumerate 0 (shares ws))))"
    unfolding plain_queue_def mset_map [symmetric] map_concat map_map
    by (rule arg_cong [of _ _ "\<lambda>x. mset (concat x)"]) (auto simp: map_replicate)
  finally show ?thesis .
qed

lemma queue_ready_permutation:
  assumes "weights_ok ws" and "sum_list (shares ws) \<le> 2 ^ 45" and "mset (RoundRobinQ n) = mset (plain_queue ws)"
    and "length (Slave n) = length ws" and "list_all (\<lambda>db. db \<noteq> None) (Slave n)" and "LastSlaveIndex n = 0"
  shows "queue_ready n"
proof -
  have "int (length (RoundRobinQ n)) = sum_list (shares ws)"
    using assms(3) length_plain_queue [OF assms(1)] by (metis size_mset)
  moreover have "set (RoundRobinQ n) \<subseteq> int ` {0..<length (Slave n)}"
    using set_plain_queue [of ws] assms(3,4) by (metis set_mset_mset)
  moreover have "RoundRobinQ n \<noteq> []"
    using assms(3) plain_queue_not_Nil [OF assms(1)] by (metis mset.simps(1) mset_zero_iff)
  ultimately show ?thesis
    using assms(2,5,6) by (auto simp: queue_ready_def list_all_iff)
qed

text \<open>C3: in a full round of calls, the connections handed out are, up to order, each replica as often as its
  weight divided by the greatest common divisor of the weights: no replica is starved and none is favoured
  beyond its weight, whatever the random order of the queue is.\<close>

theorem GetSlaveConn_weighted_round:
  assumes "weights_ok (SlaveWeights n)" and "sum_list (shares (SlaveWeights n)) \<le> 2 ^ 45"
    and "length (Slave n) = length (SlaveWeights n)" and "list_all (\<lambda>db. db \<noteq> None) (Slave n)"
  shows "\<exists>n1 dbs n2. InitBalancer draws n = Ret n1
    \<and> picks pick_slave (nat (sum_list (shares (SlaveWeights n)))) n1 = Some (dbs, n2)
    \<and> mset dbs = mset (concat (map (\<lambda>(i, k). replicate (nat k) (Slave n ! i)) (enumerate 0 (shares (SlaveWeights n)))))"
proof -
  from InitBalancer_queue_eq [OF assms(1,2)] obtain q where
    q: "InitBalancer draws n = Ret (n\<lparr>LastSlaveIndex := 0, RoundRobinQ := q\<rparr>)" "mset q = mset (plain_queue (SlaveWeights n))"
    by blast
  define n1 where "n1 = n\<lparr>LastSlaveIndex := 0, RoundRobinQ := q\<rparr>"
  have len: "length q = nat (sum_list (shares (SlaveWeights n)))"
    using q(2) length_plain_queue [OF assms(1)] by (metis nat_int size_mset)
  have r: "queue_ready n1"
    by (rule queue_ready_permutation [of "SlaveWeights n"]) (use assms q(2) in \<open>simp_all add: n1_def\<close>)
  from replicas.full_round [OF r] obtain n2 where
    "picks pick_slave (length (queue_entries n1)) n1 = Some (rotate (queue_cursor n1) (queue_entries n1), n2)" by blast
  moreover have "length (queue_entries n1) = length q" by (simp add: n1_def queue_entries_def)
  ultimately show ?thesis
    using q len queue_entries_mset [of n1 "SlaveWeights n"] by (simp add: n1_def [symmetric]) (simp add: n1_def)
qed

theorem GetSlaveConn_weighted_round_witness:
  "\<exists>n1 dbs n2. InitBalancer (\<lambda>i. i * i) sample_node = Ret n1 \<and> picks pick_slave 3 n1 = Some (dbs, n2)
    \<and> mset dbs = {#Slave sample_node ! 0, Slave sample_node ! 1, Slave sample_node ! 1#}"
  using GetSlaveConn_weighted_round [of sample_node "\<lambda>i. i * i"] sample_shares
  by (simp add: sample_node_def numeral_eq_Suc)

section \<open>Opening a node\<close>

text \<open>A server that accepts its data source name and answers the ping.\<close>

definition server_ok :: "(string \<Rightarrow> string option) \<Rightarrow> (DB \<Rightarrow> string option) \<Rightarrow> DBConfig \<Rightarrow> NodeConfig \<Rightarrow> bool" where
  "server_ok Open Ping cfg nc \<longleftrightarrow> snd (openDB Open Ping cfg nc) = None"

definition server_db :: "(string \<Rightarrow> string option) \<Rightarrow> (DB \<Rightarrow> string option) \<Rightarrow> DBConfig \<Rightarrow> NodeConfig \<Rightarrow> DB option" where
  "server_db Open Ping cfg nc = fst (openDB Open Ping cfg nc)"

lemma server_ok_db: "server_ok Open Ping cfg nc \<Longrightarrow> server_db Open Ping cfg nc \<noteq> None"
  by (simp add: server_ok_def server_db_def openDB_def Let_def split: option.splits)

lemma shard_names_eq: "shard_names (map Some cs) = Ret (map cfg_DB cs)"
  by (induction cs) simp_all

lemma parseSlave_loop_ok:
  "list_all (server_ok Open Ping (Cfg n)) cs \<Longrightarrow>
   parseSlave_loop Open Ping (map Some cs) n =
     Ret (n\<lparr>Slave := Slave n @ map (server_db Open Ping (Cfg n)) cs, SlaveWeights := SlaveWeights n @ map nc_Weight cs\<rparr>, None)"
  by (induction cs arbitrary: n) (auto simp: server_ok_def server_db_def split: prod.split)

lemma parseSlave_loop_Ret:
  "parseSlave_loop Open Ping cs n = Ret (n', None) \<Longrightarrow>
     list_all (\<lambda>c. \<exists>nc. c = Some nc \<and> server_ok Open Ping (Cfg n) nc) cs
     \<and> n' = n\<lparr>Slave := Slave n', SlaveWeights := SlaveWeights n'\<rparr>"
proof (induction Open Ping cs n rule: parseSlave_loop.induct)
  case (3 Open Ping slave cs n)
  then show ?case
    by (auto simp: Let_def server_ok_def split: prod.splits option.splits)
qed auto

definition config_ok :: "DBConfig \<Rightarrow> NodeConfig \<Rightarrow> NodeConfig list \<Rightarrow> ShardConfig list \<Rightarrow> bool" where
  "config_ok cfg m cs shs \<longleftrightarrow> dc_Master cfg = Some m \<and> nc_Addr m \<noteq> [] \<and> dc_Slave cfg = map Some cs
     \<and> dc_Shard cfg = map Some shs \<and> list_all locations_ok shs"

lemma ParseShard_eq: "list_all locations_ok shs \<Longrightarrow> ParseShard (map Some shs) = Ret (List.map_filter rule_of shs, None)"
  by (simp add: ParseShard_def ParseShard_loop_rules)

lemma NewNode_before_balancer:
  assumes "config_ok cfg m cs shs" and "list_all (server_ok Open Ping cfg) (m # cs)"
  shows "NewNode Open Ping draws cfg =
    go_bind (InitBalancer draws
        \<lparr>Cfg = cfg, Master = server_db Open Ping cfg m, Slave = map (server_db Open Ping cfg) cs, LastSlaveIndex = 0,
         RoundRobinQ = [], SlaveWeights = map nc_Weight cs, node_Shard = List.map_filter rule_of shs, shardDb = map cfg_DB shs\<rparr>)
      (\<lambda>n. Ret (Some n, None))"
proof -
  have "parseMaster Open Ping n = Ret (n\<lparr>Master := server_db Open Ping cfg m\<rparr>, None)" if "Cfg n = cfg" for n
    using assms that by (auto simp: parseMaster_def config_ok_def server_ok_def server_db_def split: prod.split)
  moreover have "parseSlave Open Ping n = Ret (n\<lparr>Slave := map (server_db Open Ping cfg) cs, SlaveWeights := map nc_Weight cs\<rparr>, None)"
    if "Cfg n = cfg" "Slave n = []" "SlaveWeights n = []" for n
    using assms that parseSlave_loop_ok [of Open Ping "n\<lparr>Slave := [], SlaveWeights := []\<rparr>" cs]
    by (auto simp: parseSlave_def config_ok_def)
  ultimately show ?thesis
    using assms(1) by (simp add: NewNode_def config_ok_def shard_names_eq ParseShard_eq)
qed

text \<open>C13: a configuration with a master, replicas of positive weight and valid shard configurations, whose
  servers all answer, yields a node: the master and the replicas are the connections to the configured servers
  in order, the rules and their database names come from the shard configurations, and the queue of replicas
  is ready.\<close>

theorem NewNode_opens:
  assumes "config_ok cfg m cs shs" and "list_all (server_ok Open Ping cfg) (m # cs)"
    and "weights_ok (map nc_Weight cs)" and "sum_list (shares (map nc_Weight cs)) \<le> 2 ^ 45"
  shows "\<exists>n. NewNode Open Ping draws cfg = Ret (Some n, None) \<and> Cfg n = cfg
    \<and> GetMasterConn n = (server_db Open Ping cfg m, None) \<and> Slave n = map (server_db Open Ping cfg) cs
    \<and> node_Shard n = List.map_filter rule_of shs \<and> shardDb n = map cfg_DB shs
    \<and> queue_ready n \<and> LastSlaveIndex n = 0 \<and> mset (RoundRobinQ n) = mset (plain_queue (map nc_Weight cs))"
proof -
  define n0 where "n0 = \<lparr>Cfg = cfg, Master = server_db Open Ping cfg m, Slave = map (server_db Open Ping cfg) cs, LastSlaveIndex = 0,
         RoundRobinQ = [], SlaveWeights = map nc_Weight cs, node_Shard = List.map_filter rule_of shs, shardDb = map cfg_DB shs\<rparr>"
  have ws: "SlaveWeights n0 = map nc_Weight cs" by (simp add: n0_def)
  from InitBalancer_queue_eq [of n0 draws] assms(3,4) obtain q where
    q: "InitBalancer draws n0 = Ret (n0\<lparr>LastSlaveIndex := 0, RoundRobinQ := q\<rparr>)" "mset q = mset (plain_queue (map nc_Weight cs))"
    unfolding ws by blast
  have db: "server_db Open Ping cfg m \<noteq> None" "list_all (\<lambda>d. d \<noteq> None) (Slave n0)"
    using assms(2) server_ok_db by (auto simp: n0_def list_all_iff)
  have "queue_ready (n0\<lparr>LastSlaveIndex := 0, RoundRobinQ := q\<rparr>)"
    by (rule queue_ready_permutation [of "map nc_Weight cs"]) (use assms(3,4) q(2) db in \<open>simp_all add: n0_def\<close>)
  then show ?thesis
    using NewNode_before_balancer [OF assms(1,2)] q db
    by (auto simp: n0_def [symmetric]) (auto simp: n0_def GetMasterConn_def)
qed


definition sample_config :: DBConfig where
  "sample_config =
     \<lparr>dc_Name = ''main'', dc_MaxConnNum = 10, dc_MaxIdleConns = 5, dc_MaxLifetime = 60, dc_PingTickerTime = 5,
      dc_Master = Some \<lparr>nc_Addr = ''m:3306'', nc_User = ''u'', nc_Password = ''p'', nc_Timezone = ''Asia/Shanghai'', nc_Weight = 0\<rparr>,
      dc_Slave = [Some \<lparr>nc_Addr = ''a:3306'', nc_User = ''u'', nc_Password = ''p'', nc_Timezone = ''UTC'', nc_Weight = 2\<rparr>,
                  Some \<lparr>nc_Addr = ''b:3306'', nc_User = ''u'', nc_Password = ''p'', nc_Timezone = ''UTC'', nc_Weight = 4\<rparr>],
      dc_Shard = [Some \<lparr>cfg_DB = ''shop'', cfg_Table = ''orders'', cfg_ModNum = 8, cfg_Locations = 0, cfg_Type = ''mod'',
                       cfg_TableRowLimit = 0\<rparr>,
                  Some \<lparr>cfg_DB = ''shop'', cfg_Table = ''visits'', cfg_ModNum = 0, cfg_Locations = 0, cfg_Type = ''date_day'',
                       cfg_TableRowLimit = 0\<rparr>]\<rparr>"

definition sample_shards :: "ShardConfig list" where
  "sample_shards = map the (dc_Shard sample_config)"

lemma sample_config_ok:
  "config_ok sample_config (the (dc_Master sample_config)) (map the (dc_Slave sample_config)) sample_shards"
  "list_all (server_ok (\<lambda>_. None) (\<lambda>_. None) sample_config) (the (dc_Master sample_config) # map the (dc_Slave sample_config))"
  "map nc_Weight (map the (dc_Slave sample_config)) = [2, 4]"
  by (simp_all add: config_ok_def sample_config_def sample_shards_def locations_ok_def server_ok_def openDB_def Let_def)

theorem NewNode_opens_witness:
  "\<exists>n. NewNode (\<lambda>_. None) (\<lambda>_. None) (\<lambda>i. 7 * i) sample_config = Ret (Some n, None) \<and> shardDb n = [''shop'', ''shop'']
    \<and> queue_ready n \<and> length (Slave n) = 2 \<and> mset (RoundRobinQ n) = {#0, 1, 1#}"
proof -
  have "plain_queue [2, 4] = [0, 1, 1]" by (simp add: plain_queue_def sample_shares numeral_eq_Suc)
  then show ?thesis
    using NewNode_opens [OF sample_config_ok(1,2), of "\<lambda>i. 7 * i"] sample_shares
    unfolding sample_config_ok(3) by (auto simp: sample_config_def sample_shards_def)
qed

lemma InitBalancer_frame:
  "InitBalancer draws n = Ret n' \<Longrightarrow> \<exists>q. n' = n\<lparr>LastSlaveIndex := 0, RoundRobinQ := q\<rparr>"
  by (auto simp: InitBalancer_def split: if_splits)

lemma NewNode_Ret:
  assumes "NewNode Open Ping draws cfg = Ret (Some n, e)"
  shows "e = None" and "Cfg n = cfg" and "shard_names (dc_Shard cfg) = Ret (shardDb n)"
    and "ParseShard (dc_Shard cfg) = Ret (node_Shard n, None)"
    and "\<exists>m. dc_Master cfg = Some m \<and> nc_Addr m \<noteq> [] \<and> server_ok Open Ping cfg m \<and> Master n = server_db Open Ping cfg m"
    and "list_all (\<lambda>c. \<exists>nc. c = Some nc \<and> server_ok Open Ping cfg nc) (dc_Slave cfg)"
proof -
  from assms obtain m names shards where
    m: "dc_Master cfg = Some m" "nc_Addr m \<noteq> []" "shard_names (dc_Shard cfg) = Ret names" "ParseShard (dc_Shard cfg) = Ret (shards, None)"
    by (auto simp: NewNode_def split: option.splits if_splits)
  define n0 where "n0 = \<lparr>Cfg = cfg, Master = None, Slave = [], LastSlaveIndex = 0, RoundRobinQ = [], SlaveWeights = [],
    node_Shard = shards, shardDb = names\<rparr>"
  have pm: "parseMaster Open Ping n0 = Ret (n0\<lparr>Master := server_db Open Ping cfg m\<rparr>, snd (openDB Open Ping cfg m))"
    using m(1) by (simp add: parseMaster_def n0_def server_db_def split: prod.split)
  from assms m pm obtain n1 where
    n1: "server_ok Open Ping cfg m" "parseSlave Open Ping (n0\<lparr>Master := server_db Open Ping cfg m\<rparr>) = Ret (n1, None)"
      "InitBalancer draws n1 = Ret n" "e = None"
    by (auto simp: NewNode_def n0_def [symmetric] server_ok_def Let_def split: if_splits)
  from n1(2) have n1': "list_all (\<lambda>c. \<exists>nc. c = Some nc \<and> server_ok Open Ping cfg nc) (dc_Slave cfg)"
    "Cfg n1 = cfg" "Master n1 = server_db Open Ping cfg m" "node_Shard n1 = shards" "shardDb n1 = names"
    using parseSlave_loop_Ret [of Open Ping "dc_Slave cfg" "n0\<lparr>Master := server_db Open Ping cfg m, Slave := [], SlaveWeights := []\<rparr>" n1]
    by (auto simp: parseSlave_def n0_def split: if_splits elim: ssubst)
  from InitBalancer_frame [OF n1(3)] obtain q where q: "n = n1\<lparr>LastSlaveIndex := 0, RoundRobinQ := q\<rparr>" by blast
  show "e = None" "Cfg n = cfg" "shard_names (dc_Shard cfg) = Ret (shardDb n)" "ParseShard (dc_Shard cfg) = Ret (node_Shard n, None)"
    "list_all (\<lambda>c. \<exists>nc. c = Some nc \<and> server_ok Open Ping cfg nc) (dc_Slave cfg)"
    "\<exists>m. dc_Master cfg = Some m \<and> nc_Addr m \<noteq> [] \<and> server_ok Open Ping cfg m \<and> Master n = server_db Open Ping cfg m"
    using m n1 n1' q by simp_all
qed

text \<open>A configuration without replicas never yields a node: opening it panics at the first weight,
  although the rest of the configuration is valid and the master answers.\<close>

lemma NewNode_without_replicas:
  assumes "config_ok cfg m [] shs" and "server_ok Open Ping cfg m"
  shows "NewNode Open Ping draws cfg = Panic IndexOutOfRange"
proof -
  have "NewNode Open Ping draws cfg = go_bind (InitBalancer draws
        \<lparr>Cfg = cfg, Master = server_db Open Ping cfg m, Slave = [], LastSlaveIndex = 0,
         RoundRobinQ = [], SlaveWeights = [], node_Shard = List.map_filter rule_of shs, shardDb = map cfg_DB shs\<rparr>)
      (\<lambda>n. Ret (Some n, None))"
    using NewNode_before_balancer [of cfg m "[]" shs Open Ping] assms by simp
  then show ?thesis by (simp add: InitBalancer_def Gcd_slice_def go_index_def)
qed

section \<open>Routing a table\<close>

definition table_cfg :: "ShardConfig list \<Rightarrow> string \<Rightarrow> string \<Rightarrow> ShardConfig option" where
  "table_cfg shs db table = List.find (\<lambda>c. cfg_DB c = db \<and> cfg_Table c = table) shs"

lemma find_shard_eq:
  "find_shard db table k (map Some shs) =
     Ret (map_option (\<lambda>i. k + i) (List.find (\<lambda>i. cfg_DB (shs ! i) = db \<and> cfg_Table (shs ! i) = table) [0..<length shs]))"
proof (induction shs arbitrary: k)
  case (Cons c shs)
  show ?case
    by (simp add: Cons.IH upt_conv_Cons map_Suc_upt [symmetric] find_map_Suc option.map_comp comp_def del: upt_Suc)
qed simp

lemma checkShard_eq:
  assumes "dc_Shard (Cfg n) = map Some shs" and "shardDb n = map cfg_DB shs" and "map rule_of shs = map Some (node_Shard n)"
  shows "checkShard n db table = Ret (Option.bind (table_cfg shs db table) rule_of)"
proof -
  define r where "r = List.find (\<lambda>i. cfg_DB (shs ! i) = db \<and> cfg_Table (shs ! i) = table) [0..<length shs]"
  have t: "table_cfg shs db table = map_option (\<lambda>i. shs ! i) r"
    unfolding table_cfg_def r_def by (rule find_nth)
  have len: "length (node_Shard n) = length shs" using assms(3) by (metis length_map)
  have loop: "checkShard_loop n db table ss =
      (case r of Some k \<Rightarrow> if db \<in> set ss then Ret (rule_of (shs ! k)) else Ret None | None \<Rightarrow> Ret None)" for ss
  proof (induction ss)
    case (Cons s ss)
    have "k < length shs" if "r = Some k" for k using find_index(1) [of _ _ k] that unfolding r_def by fastforce
    moreover have "rule_of (shs ! k) = Some (node_Shard n ! k)" if "k < length shs" for k
      using assms(3) that len by (metis nth_map)
    ultimately show ?case
      using Cons.IH len by (cases r) (auto simp: assms(1) find_shard_eq r_def [symmetric] go_index_in)
  qed (simp split: option.split)
  have "db \<in> set (shardDb n)" if "r = Some k" for k
    using find_index(1) [of "\<lambda>i. cfg_DB (shs ! i) = db \<and> cfg_Table (shs ! i) = table" "[0..<length shs]" k] that
    by (auto simp: r_def assms(2))
  then show ?thesis
    unfolding checkShard_def loop t by (cases r) auto
qed

lemma NewNode_checkShard:
  assumes "NewNode Open Ping draws cfg = Ret (Some n, e)" and "dc_Shard cfg = map Some shs"
    and "list_all (\<lambda>c. rule_of c \<noteq> None) shs"
  shows "checkShard n db table = Ret (Option.bind (table_cfg shs db table) rule_of)"
proof (rule checkShard_eq)
  note n = NewNode_Ret [OF assms(1)]
  show "dc_Shard (Cfg n) = map Some shs" using n(2) assms(2) by simp
  show "shardDb n = map cfg_DB shs" using n(3) assms(2) by (simp add: shard_names_eq)
  show "map rule_of shs = map Some (node_Shard n)"
    using n(4) assms(2) by (intro ParseShard_aligned [OF _ assms(3)]) simp
qed

text \<open>C12: on an opened node whose shard configurations all have a known type, the name of a table is the plain
  name when no configuration names that database and table; otherwise the rule of the first such configuration
  decides, its number is appended to the name, and its error or panic is passed on.\<close>

theorem GetTable_routes:
  assumes "NewNode Open Ping draws cfg = Ret (Some n, e)" and "dc_Shard cfg = map Some shs"
    and "list_all (\<lambda>c. rule_of c \<noteq> None) shs"
  shows "GetTable tz n db table key =
    (case Option.bind (table_cfg shs db table) rule_of of
       None \<Rightarrow> Ret (db @ ''.'' @ table, None)
     | Some r \<Rightarrow>
         (case FindForKey tz r key of
            Panic p \<Rightarrow> Panic p
          | Ret (k, None) \<Rightarrow> Ret (db @ ''.'' @ table @ ''_'' @ Itoa k, None)
          | Ret (k, Some err) \<Rightarrow> Ret ([], Some err)))"
  by (simp add: GetTable_def NewNode_checkShard [OF assms] split: option.split go.split)

lemma sample_open: "\<exists>n. NewNode (\<lambda>_. None) (\<lambda>_. None) (\<lambda>_. 0) sample_config = Ret (Some n, None)"
proof -
  let ?db = "server_db (\<lambda>_. None) (\<lambda>_. None) sample_config"
  define n0 where "n0 = \<lparr>Cfg = sample_config, Master = ?db (the (dc_Master sample_config)),
    Slave = map ?db (map the (dc_Slave sample_config)), LastSlaveIndex = 0, RoundRobinQ = [], SlaveWeights = [2, 4],
    node_Shard = List.map_filter rule_of sample_shards, shardDb = map cfg_DB sample_shards\<rparr>"
  have "\<exists>n. InitBalancer (\<lambda>_. 0) n0 = Ret n"
    using InitBalancer_queue_eq [of n0 "\<lambda>_. 0"] sample_shares by (auto simp: n0_def)
  then show ?thesis
    using NewNode_before_balancer [OF sample_config_ok(1,2), of "\<lambda>_. 0"]
    unfolding sample_config_ok(3) n0_def [symmetric] by auto
qed

lemma sample_shards_rule:
  "dc_Shard sample_config = map Some sample_shards" "list_all (\<lambda>c. rule_of c \<noteq> None) sample_shards"
  "Option.bind (table_cfg sample_shards ''shop'' ''orders'') rule_of = Some (ModShard 8)"
  "Option.bind (table_cfg sample_shards ''shop'' ''visits'') rule_of = Some DateDayShard"
  by (simp_all add: sample_config_def sample_shards_def rule_of_def table_cfg_def)

theorem GetTable_routes_witness:
  "\<exists>n. NewNode (\<lambda>_. None) (\<lambda>_. None) (\<lambda>_. 0) sample_config = Ret (Some n, None)
    \<and> GetTable (\<lambda>_. 0) n ''shop'' ''orders'' [KInt 21] = Ret (''shop.orders_5'', None)"
proof -
  obtain n where n: "NewNode (\<lambda>_. None) (\<lambda>_. None) (\<lambda>_. 0) sample_config = Ret (Some n, None)" using sample_open by blast
  have f: "FindForKey (\<lambda>_. 0) (ModShard 8) [KInt 21] = Ret (5, None)" by code_simp
  have i: "Itoa 5 = ''5''" by code_simp
  from GetTable_routes [OF n sample_shards_rule(1,2), of "\<lambda>_. 0" "''shop''" "''orders''" "[KInt 21]"] n
  show ?thesis by (simp add: sample_shards_rule(3) f i)
qed

context shard_contract
begin

lemma routed:
  assumes "accepts tz r ks"
  shows "\<exists>i. find tz r ks = Ret (i, None) \<and> tables r i
    \<and> go_bind (find tz r ks) (\<lambda>(k, err). if err \<noteq> None then Ret ([], err) else Ret (name k, None)) = Ret (name i, None)"
proof (rule accepted_find [OF assms])
  fix i
  assume i: "find tz r ks = Ret (i, None)" "tables r i"
  show ?thesis by (intro exI [of _ i]) (simp add: i)
qed

end

text \<open>For keys that the rule of a table accepts, an opened node returns the name of one of the tables of that
  rule, without error or panic, and two lists of keys get the same name exactly when the rule gives them the same
  number.\<close>

lemma GetTable_accepted:
  assumes "NewNode Open Ping draws cfg = Ret (Some n, e)" and "dc_Shard cfg = map Some shs"
    and "list_all (\<lambda>c. rule_of c \<noteq> None) shs"
    and "Option.bind (table_cfg shs db table) rule_of = Some r" and "rule_accepts tz r ks" and "rule_accepts tz r ks'"
  shows "\<exists>i j. rule_tables r i \<and> rule_tables r j
    \<and> GetTable tz n db table ks = Ret (db @ ''.'' @ table @ ''_'' @ Itoa i, None)
    \<and> GetTable tz n db table ks' = Ret (db @ ''.'' @ table @ ''_'' @ Itoa j, None)
    \<and> (GetTable tz n db table ks = GetTable tz n db table ks' \<longleftrightarrow> FindForKey tz r ks = FindForKey tz r ks')"
proof -
  let ?name = "\<lambda>k. db @ ''.'' @ table @ ''_'' @ Itoa k"
  obtain i where i: "FindForKey tz r ks = Ret (i, None)" "rule_tables r i"
    using rules.routed [OF assms(5), of ?name] by blast
  obtain j where j: "FindForKey tz r ks' = Ret (j, None)" "rule_tables r j"
    using rules.routed [OF assms(6), of ?name] by blast
  from i j show ?thesis
    by (simp add: GetTable_def NewNode_checkShard [OF assms(1-3)] assms(4) Itoa_inj)
qed

section \<open>Health checks\<close>

text \<open>A tick of the health check reports exactly the replicas whose ping fails, in order, with their position
  and the error, and reports nothing when all answer.\<close>

lemma checkSlave_reports:
  assumes "Slave n = map Some dbs"
  shows "checkSlave Ping n =
    Ret (List.map_filter (\<lambda>(i, db). map_option (\<lambda>err. ''Node checkSlave['' @ Itoa (int i) @ '']  ping error '' @ err) (Ping db))
      (enumerate 0 dbs))"
proof -
  have "go_fold (\<lambda>(i, slave) msgs.
         case slave of
           None \<Rightarrow> Panic NilDereference
         | Some db \<Rightarrow>
             (case Ping db of
                Some err \<Rightarrow> Ret (msgs @ [''Node checkSlave['' @ Itoa (int i) @ '']  ping error '' @ err])
              | None \<Rightarrow> Ret msgs))
       (enumerate j (map Some dbs)) acc =
    Ret (acc @ List.map_filter (\<lambda>(i, db). map_option (\<lambda>err. ''Node checkSlave['' @ Itoa (int i) @ '']  ping error '' @ err) (Ping db))
      (enumerate j dbs))" for j acc
    by (induction dbs arbitrary: j acc) (auto simp: map_filter_simps split: option.split)
  then show ?thesis by (simp add: checkSlave_def assms)
qed

text \<open>The health check is silent over its ticks exactly if there is a master and every ping, of the master and of the replicas, succeeded.\<close>

lemma CheckNode_silent:
  assumes "0 < int64 (dc_PingTickerTime (Cfg n) * second)" and "Slave n = map Some dbs"
  shows "CheckNode ticks n = Ret [] \<longleftrightarrow>
    (\<forall>Ping \<in> set ticks. (\<exists>db. Master n = Some db \<and> Ping db = None) \<and> (\<forall>db \<in> set dbs. Ping db = None))"
proof -
  define said where "said Ping = checkMaster Ping n @ List.map_filter
    (\<lambda>(i, db). map_option (\<lambda>err. ''Node checkSlave['' @ Itoa (int i) @ '']  ping error '' @ err) (Ping db)) (enumerate 0 dbs)" for Ping
  have "go_fold (\<lambda>Ping msgs. go_bind (checkSlave Ping n) (\<lambda>ms. Ret (msgs @ checkMaster Ping n @ ms))) ts acc
      = Ret (acc @ concat (map said ts))" for ts acc
    by (induction ts arbitrary: acc) (simp_all add: checkSlave_reports [OF assms(2)] said_def)
  then have "CheckNode ticks n = Ret (concat (map said ticks))" using assms(1) by (simp add: CheckNode_def)
  moreover have "said Ping = [] \<longleftrightarrow> (\<exists>db. Master n = Some db \<and> Ping db = None) \<and> (\<forall>db \<in> set dbs. Ping db = None)" for Ping
  proof -
    have "checkMaster Ping n = [] \<longleftrightarrow> (\<exists>db. Master n = Some db \<and> Ping db = None)"
      by (simp add: checkMaster_def split: option.split)
    moreover have "List.map_filter (\<lambda>(i, db). map_option (f i) (Ping db)) (enumerate j dbs) = []
        \<longleftrightarrow> (\<forall>db \<in> set dbs. Ping db = None)" for f :: "nat \<Rightarrow> string \<Rightarrow> string" and j
      by (induction dbs arbitrary: j) (auto simp: map_filter_simps split: option.split)
    ultimately show ?thesis by (simp add: said_def)
  qed
  ultimately show ?thesis by simp
qed

section \<open>Transactions\<close>

text \<open>C22: a transaction that was begun runs under a deadline of at most one second, its context gives the
  transaction back, and committing or rolling back with that context makes exactly that call on the transaction and
  returns the driver's answer. The timer of the deadline is still running afterwards.\<close>

theorem transaction_lifecycle:
  assumes "BeginTransaction BeginTx n ctx d w = ((Some ctx', None), w1)"
  shows "\<exists>db tx limit rest. Master n = Some db \<and> BeginTx db (WithTimeout ctx limit (next_timer w)) = Inr tx
    \<and> deadlines ctx' = limit # rest \<and> limit \<noteq> 0 \<and> limit \<le> TRANSACTION_MAX_RUNTIME
    \<and> GetConnFromCtx ctx' = (Some tx, None)
    \<and> Commit TxCommit ctx' w1 = Ret (map_option Driver (TxCommit tx), w1\<lparr>tx_calls := tx_calls w @ [CommitCall tx]\<rparr>)
    \<and> Rollback TxRollback ctx' w1 = Ret (map_option Driver (TxRollback tx), w1\<lparr>tx_calls := tx_calls w @ [RollbackCall tx]\<rparr>)
    \<and> next_timer w \<in> set (running w1)"
proof -
  from assms obtain db where db: "Master n = Some db"
    by (auto simp: BeginTransaction_def GetMasterConn_def split: option.splits)
  define limit where "limit = (if d = 0 \<or> d > TRANSACTION_MAX_RUNTIME then TRANSACTION_MAX_RUNTIME else d)"
  from assms obtain tx where tx: "BeginTx db (WithTimeout ctx limit (next_timer w)) = Inr tx"
    "ctx' = WithCancel (WithTx (WithTimeout ctx limit (next_timer w)) tx) (next_timer w)"
    "w1 = w\<lparr>next_timer := Suc (next_timer w), running := running w @ [next_timer w]\<rparr>"
    by (auto simp: BeginTransaction_def GetMasterConn_def db Let_def limit_def [symmetric] split: sum.splits)
  have "limit \<noteq> 0" "limit \<le> TRANSACTION_MAX_RUNTIME" by (auto simp: limit_def TRANSACTION_MAX_RUNTIME_def second_def)
  with db tx show ?thesis by (simp add: GetConnFromCtx_def Commit_def Rollback_def)
qed

theorem transaction_lifecycle_witness:
  "\<exists>ctx' w1 w2. BeginTransaction (\<lambda>db ctx. Inr (db_dsn db)) (sample_node\<lparr>Master := Slave sample_node ! 0\<rparr>) Background 0
      \<lparr>next_timer = 4, running = [], tx_calls = []\<rparr> = ((Some ctx', None), w1)
    \<and> Commit (\<lambda>_. None) ctx' w1 = Ret (None, w2) \<and> tx_calls w2 = [CommitCall ''a'']"
proof -
  let ?n = "sample_node\<lparr>Master := Slave sample_node ! 0\<rparr>" and ?w = "\<lparr>next_timer = 4, running = [], tx_calls = []\<rparr>"
  obtain ctx' w1 where b: "BeginTransaction (\<lambda>db ctx. Inr (db_dsn db)) ?n Background 0 ?w = ((Some ctx', None), w1)"
    by (simp add: BeginTransaction_def GetMasterConn_def sample_node_def Let_def)
  from transaction_lifecycle [OF b, of "\<lambda>_. None" "\<lambda>_. None"] b show ?thesis
    by (auto simp: sample_node_def)
qed

end
