(* ===== verification/J7f_Errors.thy ===== *)
theory J7f_Errors
  imports Go_Strings "HOL-Library.Sublist"
begin

text \<open>
  The error values of the program (\<open>components/errors/errors.go\<close>) and their stack traces
  (\<open>components/errors/stack.go\<close>). An error is a value of the interface \<open>error\<close>: one of the three types of
  the package, or an error of another package, of which the code sees the text and, if it implements the
  method \<open>Cause\<close>, the cause. The nil error is \<open>None\<close>. The program counters of the calling goroutine and
  the symbol table of the binary are parameters (\<open>trace\<close>, \<open>symtab\<close>), as is the table of printable runes
  beyond ASCII (\<open>is_print\<close>). A format method returns the text it writes for a verb and its flags.
\<close>

section \<open>Library functions\<close>

text \<open>\<open>path.Base\<close>, \<open>strings.LastIndex\<close> and \<open>strings.Index\<close> of one byte, \<open>strconv.Quote\<close>\<close>

definition after_last :: "char \<Rightarrow> string \<Rightarrow> string" where
  "after_last c s = rev (takeWhile (\<lambda>x. x \<noteq> c) (rev s))"

definition path_Base :: "string \<Rightarrow> string" where
  "path_Base p =
     (if p = [] then ''.''
      else let q = after_last (CHR ''/'') (rev (dropWhile (\<lambda>x. x = CHR ''/'') (rev p)))
           in if q = [] then ''/'' else q)"

definition LastIndex :: "string \<Rightarrow> char \<Rightarrow> int" where
  "LastIndex s c = (if c \<in> set s then int (length s) - int (length (after_last c s)) - 1 else -1)"

definition Index :: "string \<Rightarrow> char \<Rightarrow> int" where
  "Index s c = (if c \<in> set s then int (length (takeWhile (\<lambda>x. x \<noteq> c) s)) else -1)"

definition hex_lower :: "nat \<Rightarrow> char" where
  "hex_lower d = (if d < 10 then char_of (48 + d) else char_of (87 + d))"

fun hex_digits :: "nat \<Rightarrow> nat \<Rightarrow> string" where
  "hex_digits 0 n = []"
| "hex_digits (Suc w) n = hex_digits w (n div 16) @ [hex_lower (n mod 16)]"

definition quote_rune :: "(rune \<Rightarrow> bool) \<Rightarrow> rune \<Rightarrow> string" where
  "quote_rune is_print r =
     (if r = 0x22 \<or> r = 0x5C then [CHR 0x5C, char_of r]
      else if 0x20 \<le> r \<and> r < 0x7F then [char_of r]
      else if 0x7F < r \<and> is_print r then encoderune r
      else if r = 0x07 then [CHR 0x5C, CHR ''a'']
      else if r = 0x08 then [CHR 0x5C, CHR ''b'']
      else if r = 0x0C then [CHR 0x5C, CHR ''f'']
      else if r = 0x0A then [CHR 0x5C, CHR ''n'']
      else if r = 0x0D then [CHR 0x5C, CHR ''r'']
      else if r = 0x09 then [CHR 0x5C, CHR ''t'']
      else if r = 0x0B then [CHR 0x5C, CHR ''v'']
      else if r < 0x20 \<or> r = 0x7F then [CHR 0x5C, CHR ''x''] @ hex_digits 2 r
      else if r < 0x10000 then [CHR 0x5C, CHR ''u''] @ hex_digits 4 r
      else [CHR 0x5C, CHR ''U''] @ hex_digits 8 r)"

function quote_loop :: "(rune \<Rightarrow> bool) \<Rightarrow> string \<Rightarrow> string" where
  "quote_loop is_print s =
     (if s = [] then []
      else
        let (r, w) = decoderune s in
        (if w = 1 \<and> r = rune_error then [CHR 0x5C, CHR ''x''] @ hex_digits 2 (of_char (hd s))
         else quote_rune is_print r) @ quote_loop is_print (drop w s))"
  by pat_completeness auto
termination
proof (relation "measure (\<lambda>(p, s). length s)")
  fix p :: "rune \<Rightarrow> bool" and s :: string and x :: "rune \<times> nat" and r w
  assume s: "s \<noteq> []" and x: "x = decoderune s" "(r, w) = x"
  then have "1 \<le> w" using decoderune_width [of s] by (metis snd_conv)
  then show "((p, drop w s), p, s) \<in> measure (\<lambda>(p, s). length s)" using s by simp
qed simp

definition Quote :: "(rune \<Rightarrow> bool) \<Rightarrow> string \<Rightarrow> string" where
  "Quote is_print s = [CHR 0x22] @ quote_loop is_print s @ [CHR 0x22]"

section \<open>Stacks\<close>

type_synonym frame = int

record func_info =
  fn_Name :: string
  fn_file :: string
  fn_line :: int

definition frame_pc :: "frame \<Rightarrow> int" where
  "frame_pc f = uint64 (f - 1)"

definition frame_file :: "(int \<Rightarrow> func_info option) \<Rightarrow> frame \<Rightarrow> string" where
  "frame_file symtab f = (case symtab (frame_pc f) of None \<Rightarrow> ''unknown'' | Some fn \<Rightarrow> fn_file fn)"

definition frame_line :: "(int \<Rightarrow> func_info option) \<Rightarrow> frame \<Rightarrow> int" where
  "frame_line symtab f = (case symtab (frame_pc f) of None \<Rightarrow> 0 | Some fn \<Rightarrow> fn_line fn)"

definition funcname :: "string \<Rightarrow> string" where
  "funcname name =
     (let i = LastIndex name (CHR ''/''); name1 = drop (nat (i + 1)) name; j = Index name1 (CHR ''.'')
      in drop (nat (j + 1)) name1)"

text \<open>The flags of the format state.\<close>

record flags =
  plus :: bool
  sharp :: bool

definition no_flags :: flags where
  "no_flags = \<lparr>plus = False, sharp = False\<rparr>"

definition plus_flag :: flags where
  "plus_flag = \<lparr>plus = True, sharp = False\<rparr>"

definition Frame_Format_s :: "(int \<Rightarrow> func_info option) \<Rightarrow> frame \<Rightarrow> flags \<Rightarrow> string" where
  "Frame_Format_s symtab f s =
     (if plus s then
        (case symtab (frame_pc f) of
           None \<Rightarrow> ''unknown''
         | Some fn \<Rightarrow> fn_Name fn @ [CHR 0x0A, CHR 0x09] @ fn_file fn)
      else path_Base (frame_file symtab f))"

definition Frame_Format :: "(int \<Rightarrow> func_info option) \<Rightarrow> frame \<Rightarrow> flags \<Rightarrow> char \<Rightarrow> string" where
  "Frame_Format symtab f s verb =
     (if verb = CHR ''s'' then Frame_Format_s symtab f s
      else if verb = CHR ''d'' then Itoa (frame_line symtab f)
      else if verb = CHR ''n'' then
        funcname (case symtab (frame_pc f) of None \<Rightarrow> [] | Some fn \<Rightarrow> fn_Name fn)
      else if verb = CHR ''v'' then Frame_Format_s symtab f s @ '':'' @ Itoa (frame_line symtab f)
      else [])"

text \<open>A slice of frames as \<open>fmt\<close> prints it: each element by its own format method.\<close>

fun join :: "string \<Rightarrow> string list \<Rightarrow> string" where
  "join sep [] = []"
| "join sep [x] = x"
| "join sep (x # xs) = x @ sep @ join sep xs"

definition StackTrace_Format :: "(int \<Rightarrow> func_info option) \<Rightarrow> frame list \<Rightarrow> flags \<Rightarrow> char \<Rightarrow> string" where
  "StackTrace_Format symtab st s verb =
     (if verb = CHR ''v'' then
        (if plus s then concat (map (\<lambda>f. CHR 0x0A # Frame_Format symtab f plus_flag (CHR ''v'')) st)
         else if sharp s then
           ''[]errors.Frame{'' @ join '', '' (map (\<lambda>f. Frame_Format symtab f \<lparr>plus = False, sharp = True\<rparr> (CHR ''v'')) st) @ ''}''
         else ''['' @ join '' '' (map (\<lambda>f. Frame_Format symtab f no_flags (CHR ''v'')) st) @ '']'')
      else if verb = CHR ''s'' then ''['' @ join '' '' (map (\<lambda>f. Frame_Format symtab f no_flags (CHR ''s'')) st) @ '']''
      else [])"

type_synonym stack = "int list"

definition stack_Format :: "(int \<Rightarrow> func_info option) \<Rightarrow> stack \<Rightarrow> flags \<Rightarrow> char \<Rightarrow> string" where
  "stack_Format symtab s st verb =
     (if verb = CHR ''v'' \<and> plus st
      then concat (map (\<lambda>p. CHR 0x0A # Frame_Format symtab p plus_flag (CHR ''v'')) s)
      else [])"

definition StackTrace :: "stack \<Rightarrow> frame list" where
  "StackTrace s = map (\<lambda>i. s ! i) [0..<length s]"

text \<open>\<open>trace\<close> is what \<open>runtime.Callers(3, _)\<close> would write into a buffer without bound.\<close>

definition callers :: "int list \<Rightarrow> stack" where
  "callers trace = take 32 trace"

section \<open>Error values\<close>

datatype err =
    Error (code: int) (err_text: string) (err_stack: stack)
  | WithStackErr err stack
  | WithMessageErr err string
  | Foreign string "err option option"

fun Error_text :: "err \<Rightarrow> string" where
  "Error_text (Error c e st) = e"
| "Error_text (WithStackErr e st) = Error_text e"
| "Error_text (WithMessageErr e msg) = msg @ '': '' @ Error_text e"
| "Error_text (Foreign t c) = t"

record BusinessStatus =
  bs_Code :: int
  bs_Msg :: string

definition Unknown :: int where
  "Unknown = 2"

definition ResHeader :: "int \<Rightarrow> string \<Rightarrow> BusinessStatus" where
  "ResHeader c e = \<lparr>bs_Code = int32 c, bs_Msg = e\<rparr>"

definition GetResHeader :: "err option \<Rightarrow> BusinessStatus" where
  "GetResHeader err =
     (case err of
        None \<Rightarrow> \<lparr>bs_Code = 0, bs_Msg = ''success''\<rparr>
      | Some (Error c e st) \<Rightarrow> ResHeader c e
      | Some other \<Rightarrow> \<lparr>bs_Code = int32 Unknown, bs_Msg = Error_text other\<rparr>)"

text \<open>
  The argument of \<open>NewFromCode\<close>: its value if it is of an integer kind, and the text of its method
  \<open>String\<close> if it has one. A \<open>CommonError\<close> has no such method.
\<close>

record code_arg =
  ca_Int :: "int option"
  ca_String :: "string option"

definition CommonError :: "int \<Rightarrow> code_arg" where
  "CommonError n = \<lparr>ca_Int = Some n, ca_String = None\<rparr>"

definition NewFromCode :: "int list \<Rightarrow> code_arg \<Rightarrow> err go" where
  "NewFromCode trace c =
     (case ca_Int c of
        None \<Rightarrow> Panic (Explicit ''reflect: call of reflect.Value.Int'')
      | Some n \<Rightarrow>
          (case ca_String c of
             None \<Rightarrow> Panic TypeAssertion
           | Some s \<Rightarrow> Ret (Error n s (callers trace))))"

definition NewFromError :: "int list \<Rightarrow> err option \<Rightarrow> err go" where
  "NewFromError trace err =
     (case err of
        None \<Rightarrow> Panic NilDereference
      | Some e \<Rightarrow> Ret (Error Unknown (Error_text e) (callers trace)))"

definition New :: "int list \<Rightarrow> string \<Rightarrow> err" where
  "New trace s = Error Unknown s (callers trace)"

text \<open>The text is the result of \<open>fmt.Sprintf\<close> on the arguments.\<close>

definition Errorf_err :: "int list \<Rightarrow> string \<Rightarrow> err" where
  "Errorf_err trace formatted = Error 0 formatted (callers trace)"

definition GRPCStatus :: "int \<Rightarrow> string \<Rightarrow> BusinessStatus" where
  "GRPCStatus c e = \<lparr>bs_Code = int32 c, bs_Msg = e\<rparr>"

definition WithStack :: "int list \<Rightarrow> err option \<Rightarrow> err option" where
  "WithStack trace err = (case err of None \<Rightarrow> None | Some e \<Rightarrow> Some (WithStackErr e (callers trace)))"

definition Wrap :: "int list \<Rightarrow> err option \<Rightarrow> string \<Rightarrow> err option" where
  "Wrap trace err message =
     (case err of None \<Rightarrow> None | Some e \<Rightarrow> Some (WithStackErr (WithMessageErr e message) (callers trace)))"

definition Wrapf :: "int list \<Rightarrow> err option \<Rightarrow> string \<Rightarrow> err option" where
  "Wrapf trace err formatted =
     (case err of None \<Rightarrow> None | Some e \<Rightarrow> Some (WithStackErr (WithMessageErr e formatted) (callers trace)))"

definition WithMessage :: "err option \<Rightarrow> string \<Rightarrow> err option" where
  "WithMessage err message = (case err of None \<Rightarrow> None | Some e \<Rightarrow> Some (WithMessageErr e message))"

definition WithMessagef :: "err option \<Rightarrow> string \<Rightarrow> err option" where
  "WithMessagef err formatted = (case err of None \<Rightarrow> None | Some e \<Rightarrow> Some (WithMessageErr e formatted))"

fun Cause :: "err option \<Rightarrow> err option" where
  "Cause None = None"
| "Cause (Some (Error c e st)) = Some (Error c e st)"
| "Cause (Some (WithStackErr e st)) = Cause (Some e)"
| "Cause (Some (WithMessageErr e msg)) = Cause (Some e)"
| "Cause (Some (Foreign t None)) = Some (Foreign t None)"
| "Cause (Some (Foreign t (Some c))) = Cause c"

text \<open>
  The format methods of the three types; \<open>full\<close> is what \<open>%+v\<close> prints for the cause and \<open>whole\<close> the text of the
  error itself. An error of another package is printed by its text for the verbs used here.
\<close>

definition Error_Format :: "(rune \<Rightarrow> bool) \<Rightarrow> (int \<Rightarrow> func_info option) \<Rightarrow> string \<Rightarrow> stack \<Rightarrow> flags \<Rightarrow> char \<Rightarrow> string" where
  "Error_Format is_print symtab e st s verb =
     (if verb = CHR ''v'' \<and> plus s then e @ stack_Format symtab st s verb
      else if verb = CHR ''v'' \<or> verb = CHR ''s'' then e
      else if verb = CHR ''q'' then Quote is_print e
      else [])"

definition withStack_Format :: "(rune \<Rightarrow> bool) \<Rightarrow> (int \<Rightarrow> func_info option) \<Rightarrow> string \<Rightarrow> string \<Rightarrow> stack \<Rightarrow> flags \<Rightarrow> char \<Rightarrow> string" where
  "withStack_Format is_print symtab full whole st s verb =
     (if verb = CHR ''v'' \<and> plus s then full @ stack_Format symtab st s verb
      else if verb = CHR ''v'' \<or> verb = CHR ''s'' then whole
      else if verb = CHR ''q'' then Quote is_print whole
      else [])"

definition withMessage_Format :: "string \<Rightarrow> string \<Rightarrow> string \<Rightarrow> flags \<Rightarrow> char \<Rightarrow> string" where
  "withMessage_Format full whole msg s verb =
     (if verb = CHR ''v'' \<and> plus s then full @ [CHR 0x0A] @ msg
      else if verb = CHR ''v'' \<or> verb = CHR ''s'' \<or> verb = CHR ''q'' then whole
      else [])"

fun Format :: "(rune \<Rightarrow> bool) \<Rightarrow> (int \<Rightarrow> func_info option) \<Rightarrow> err \<Rightarrow> flags \<Rightarrow> char \<Rightarrow> string" where
  "Format is_print symtab (Error c e st) s verb = Error_Format is_print symtab e st s verb"
| "Format is_print symtab (WithStackErr e st) s verb =
     withStack_Format is_print symtab (Format is_print symtab e plus_flag (CHR ''v'')) (Error_text (WithStackErr e st)) st s verb"
| "Format is_print symtab (WithMessageErr e msg) s verb =
     withMessage_Format (Format is_print symtab e plus_flag (CHR ''v'')) (Error_text (WithMessageErr e msg)) msg s verb"
| "Format is_print symtab (Foreign t c) s verb = t"

lemmas format_defs = Error_Format_def withStack_Format_def withMessage_Format_def

section \<open>Causes and texts of annotated errors\<close>

text \<open>An annotation and what it does to an error; the four functions that add one.\<close>

datatype annotation = AStack "int list" | AMessage string | AWrap "int list" string

fun annotate :: "annotation \<Rightarrow> err option \<Rightarrow> err option" where
  "annotate (AStack t) e = WithStack t e"
| "annotate (AMessage m) e = WithMessage e m"
| "annotate (AWrap t m) e = Wrap t e m"

fun messages :: "annotation list \<Rightarrow> string list" where
  "messages [] = []"
| "messages (AStack t # as) = messages as"
| "messages (AMessage m # as) = messages as @ [m]"
| "messages (AWrap t m # as) = messages as @ [m]"

definition causer :: "err \<Rightarrow> bool" where
  "causer e = (case e of Error _ _ _ \<Rightarrow> False | Foreign _ None \<Rightarrow> False | _ \<Rightarrow> True)"

lemma annotate_None [simp]: "annotate a None = None"
  by (cases a) (simp_all add: WithStack_def WithMessage_def Wrap_def)

lemma Cause_annotate: "Cause (annotate a e) = Cause e"
  by (cases a; cases e) (simp_all add: WithStack_def WithMessage_def Wrap_def)

lemma Error_text_annotate:
  "\<exists>e'. annotate a (Some e) = Some e' \<and> Error_text e' = concat (map (\<lambda>m. m @ '': '') (messages [a])) @ Error_text e"
  by (cases a) (simp_all add: WithStack_def WithMessage_def Wrap_def)

lemma messages_Cons: "messages (a # as) = messages as @ messages [a]"
  by (cases a) simp_all

text \<open>What the functions that annotate an error promise; any sequence of them then keeps the promise.\<close>

locale cause_preserving =
  fixes add :: "'a \<Rightarrow> err option \<Rightarrow> err option"
  assumes add_nil: "add a None = None"
    and add_cause: "Cause (add a e) = Cause e"
begin

lemma fold_nil: "fold add as None = None"
  by (induction as) (simp_all add: add_nil)

lemma fold_cause: "Cause (fold add as e) = Cause e"
  by (induction as arbitrary: e) (simp_all add: add_cause)

end

interpretation annotations: cause_preserving annotate
  by unfold_locales (simp_all add: Cause_annotate)

interpretation formatted: cause_preserving "\<lambda>(t, m) e. if t = [] then WithMessagef e m else Wrapf t e m"
  by unfold_locales (auto simp: WithMessagef_def Wrapf_def split: option.split)

text \<open>C29: annotating an error any number of times, with stacks, messages or both, leaves its cause as it was, and
  the nil error nil; the text of the result is the messages, the latest first, each followed by a colon,
  and then the text of the error.\<close>

theorem annotations_keep_cause:
  "Cause (fold annotate as err) = Cause err \<and>
   (case err of
      None \<Rightarrow> fold annotate as err = None
    | Some e \<Rightarrow> \<exists>e'. fold annotate as err = Some e'
        \<and> Error_text e' = concat (map (\<lambda>m. m @ '': '') (messages as)) @ Error_text e)"
proof (intro conjI)
  show "Cause (fold annotate as err) = Cause err" by (rule annotations.fold_cause)
  have "\<exists>e'. fold annotate as (Some e) = Some e'
      \<and> Error_text e' = concat (map (\<lambda>m. m @ '': '') (messages as)) @ Error_text e" for e
  proof (induction as arbitrary: e)
    case (Cons a as)
    obtain e1 where e1: "annotate a (Some e) = Some e1"
      "Error_text e1 = concat (map (\<lambda>m. m @ '': '') (messages [a])) @ Error_text e"
      using Error_text_annotate by blast
    with Cons.IH [of e1] show ?case by (auto simp: messages_Cons [of a as])
  qed simp
  then show "case err of
      None \<Rightarrow> fold annotate as err = None
    | Some e \<Rightarrow> \<exists>e'. fold annotate as err = Some e'
        \<and> Error_text e' = concat (map (\<lambda>m. m @ '': '') (messages as)) @ Error_text e"
    by (simp add: annotations.fold_nil split: option.split)
qed

text \<open>The cause that is returned is nil or an error without a cause of its own, and an error without a cause is its
  own cause.\<close>

lemma Cause_is_root:
  "(case Cause err of None \<Rightarrow> True | Some e \<Rightarrow> \<not> causer e \<and> Cause (Some e) = Some e)"
  by (induction err rule: Cause.induct) (auto simp: causer_def split: option.splits)

section \<open>Headers of a response\<close>

definition in_int32 :: "int \<Rightarrow> bool" where
  "in_int32 x \<longleftrightarrow> - (2 ^ 31) \<le> x \<and> x < 2 ^ 31"

lemma int32_id: "in_int32 x \<Longrightarrow> int32 x = x"
  by (simp add: in_int32_def int32_def)

text \<open>The header of a response reports success for nil; for an error made from a code of 32 bits it reports that
  code and text; for an error made from a text, or from another error, it reports the code Unknown, and for any annotated error
  the code Unknown with the annotated text.\<close>

lemma GetResHeader_codes:
  assumes "in_int32 c"
  shows "GetResHeader None = \<lparr>bs_Code = 0, bs_Msg = ''success''\<rparr>
    \<and> (\<exists>e. NewFromCode trace \<lparr>ca_Int = Some c, ca_String = Some s\<rparr> = Ret e \<and> GetResHeader (Some e) = \<lparr>bs_Code = c, bs_Msg = s\<rparr>)
    \<and> GetResHeader (Some (New trace s)) = \<lparr>bs_Code = 2, bs_Msg = s\<rparr>
    \<and> (\<exists>e. NewFromError trace (Some e0) = Ret e \<and> GetResHeader (Some e) = \<lparr>bs_Code = 2, bs_Msg = Error_text e0\<rparr>)
    \<and> (\<exists>e. annotate a (Some e0) = Some e \<and> GetResHeader (Some e) = \<lparr>bs_Code = 2, bs_Msg = Error_text e\<rparr>)"
proof -
  have u: "int32 Unknown = 2" by (simp add: int32_def Unknown_def)
  have "\<exists>e. annotate a (Some e0) = Some e \<and> GetResHeader (Some e) = \<lparr>bs_Code = 2, bs_Msg = Error_text e\<rparr>"
    by (cases a) (simp_all add: WithStack_def WithMessage_def Wrap_def GetResHeader_def u)
  with u int32_id [OF assms] show ?thesis
    by (simp add: GetResHeader_def NewFromCode_def New_def NewFromError_def ResHeader_def)
qed

text \<open>An error made by formatting carries the code of success, and a code of the package's own type cannot be made into an
  error: it has no text and the conversion panics.\<close>

lemma Errorf_reports_ok:
  "GetResHeader (Some (Errorf_err trace t)) = \<lparr>bs_Code = 0, bs_Msg = t\<rparr> \<and> NewFromCode trace (CommonError n) = Panic TypeAssertion"
  by (simp add: Errorf_err_def GetResHeader_def ResHeader_def int32_def NewFromCode_def CommonError_def)

section \<open>Formatting\<close>

text \<open>Without the plus flag, the verbs v and s print the text of an error; with it, the output for an annotated error
  starts with the full output for the error below it, so the report of the cause comes first.\<close>

lemma Format_verbs:
  "Format ip sy e no_flags (CHR ''v'') = Error_text e \<and> Format ip sy e no_flags (CHR ''s'') = Error_text e \<and>
   (\<exists>e' rest. annotate a (Some e) = Some e' \<and>
      Format ip sy e' plus_flag (CHR ''v'') = Format ip sy e plus_flag (CHR ''v'') @ rest)"
proof -
  have "Format ip sy e no_flags v = Error_text e" if "v = CHR ''v'' \<or> v = CHR ''s''" for v
    using that by (cases e) (auto simp: no_flags_def format_defs)
  moreover have "\<exists>e' rest. annotate a (Some e) = Some e' \<and>
      Format ip sy e' plus_flag (CHR ''v'') = Format ip sy e plus_flag (CHR ''v'') @ rest"
    by (cases a) (simp_all add: WithStack_def WithMessage_def Wrap_def plus_flag_def format_defs)
  ultimately show ?thesis by blast
qed

lemma after_last_append: "c \<notin> set t \<Longrightarrow> after_last c (s @ c # t) = t"
proof -
  assume "c \<notin> set t"
  then have "takeWhile (\<lambda>x. x \<noteq> c) (rev t @ c # rev s) = rev t" by (subst takeWhile_append2) auto
  then show "after_last c (s @ c # t) = t" by (simp add: after_last_def)
qed

lemma drop_Index:
  "c \<notin> set p \<Longrightarrow> drop (nat (Index (p @ c # f) c + 1)) (p @ c # f) = f"
proof -
  assume "c \<notin> set p"
  then have "takeWhile (\<lambda>x. x \<noteq> c) (p @ c # f) = p" by (subst takeWhile_append2) auto
  then show ?thesis by (simp add: Index_def nat_add_distrib)
qed

text \<open>The name of a function is what follows the package in its last path element, for names with a directory
  and for names without one.\<close>

lemma funcname_strips:
  assumes "CHR ''/'' \<notin> set p" and "CHR ''/'' \<notin> set f" and "CHR ''.'' \<notin> set p"
  shows "funcname (dir @ ''/'' @ p @ ''.'' @ f) = f \<and> funcname (p @ ''.'' @ f) = f"
proof -
  let ?n = "p @ CHR ''.'' # f"
  have n: "CHR ''/'' \<notin> set ?n" using assms by auto
  have "drop (nat (LastIndex (dir @ CHR ''/'' # ?n) (CHR ''/'') + 1)) (dir @ CHR ''/'' # ?n) = ?n"
    using after_last_append [OF n, of dir] by (simp add: LastIndex_def nat_add_distrib)
  moreover have "drop (nat (LastIndex ?n (CHR ''/'') + 1)) ?n = ?n" using n by (simp add: LastIndex_def)
  ultimately show ?thesis
    using drop_Index [OF assms(3), of f] by (simp only: funcname_def Let_def append_Cons append_Nil simp_thms)
qed

lemma StackTrace_eq: "StackTrace s = s"
  by (simp add: StackTrace_def map_nth)

text \<open>An error keeps at most the 32 innermost callers, and the extended output of an error made from a text is that text followed by the
  extended output of its stack trace.\<close>

lemma New_stack:
  "length (err_stack (New trace s)) \<le> 32 \<and> prefix (err_stack (New trace s)) trace \<and>
   Format ip sy (New trace s) plus_flag (CHR ''v'')
     = s @ StackTrace_Format sy (StackTrace (err_stack (New trace s))) plus_flag (CHR ''v'')"
  by (simp add: New_def callers_def take_is_prefix StackTrace_eq stack_Format_def StackTrace_Format_def plus_flag_def format_defs)

end
