(* ===== verification/Etcd_Watcher.thy ===== *)
theory Etcd_Watcher
  imports J7f_Prelude "HOL-Library.AList"
begin

text \<open>
  The watcher of etcd keys (\<open>util/etcd_listen/etcd_watcher.go\<close>): the manager that starts and stops one watch
  for each key, the loop of a watch, and the interface \<open>Listener\<close> through which a watch reports. The
  client of etcd is outside the program: what its calls return is an argument of the loop. A watch runs in
  a goroutine of its own; the loop below is a run of it over the messages its \<open>select\<close> receives, and
  \<open>Waiting\<close> says that it blocks for the next message.
\<close>

section \<open>The listener\<close>

record 'st Listener =
  L_Set :: "string \<Rightarrow> string \<Rightarrow> string \<Rightarrow> 'st \<Rightarrow> 'st go"
  L_SetOk :: "string \<Rightarrow> 'st \<Rightarrow> 'st go"
  L_Create :: "string \<Rightarrow> string \<Rightarrow> string \<Rightarrow> 'st \<Rightarrow> 'st go"
  L_Modify :: "string \<Rightarrow> string \<Rightarrow> string \<Rightarrow> 'st \<Rightarrow> 'st go"
  L_Delete :: "string \<Rightarrow> string \<Rightarrow> 'st \<Rightarrow> 'st go"
  L_Empty :: "string \<Rightarrow> 'st \<Rightarrow> 'st go"

text \<open>An event of the client: a put that created the key, a put that changed it, a deletion.\<close>

datatype etcd_event =
    Created string string
  | Modified string string
  | Deleted string
  | OtherEvent

datatype watch_msg = Done | Resp "string option" "etcd_event list"

datatype watch_status = Waiting | Returned "string option"

fun notify :: "'st Listener \<Rightarrow> string \<Rightarrow> etcd_event \<Rightarrow> 'st \<Rightarrow> 'st go" where
  "notify listener wkey (Created k v) = L_Create listener wkey k v"
| "notify listener wkey (Modified k v) = L_Modify listener wkey k v"
| "notify listener wkey (Deleted k) = L_Delete listener wkey k"
| "notify listener wkey OtherEvent = Ret"

fun watch_loop :: "'st Listener \<Rightarrow> string \<Rightarrow> watch_msg list \<Rightarrow> 'st \<Rightarrow> ('st \<times> watch_status) go" where
  "watch_loop listener wkey [] s = Ret (s, Waiting)"
| "watch_loop listener wkey (Done # ms) s = Ret (s, Returned None)"
| "watch_loop listener wkey (Resp (Some e) evs # ms) s = Ret (s, Returned (Some e))"
| "watch_loop listener wkey (Resp None evs # ms) s =
     go_bind (go_fold (notify listener wkey) evs s) (watch_loop listener wkey ms)"

text \<open>\<open>get\<close> is the answer of the client to the initial \<open>Get\<close>: an error or the key-value pairs.\<close>

definition watch_initial :: "'st Listener \<Rightarrow> string \<Rightarrow> (string \<times> string) list \<Rightarrow> 'st \<Rightarrow> 'st go" where
  "watch_initial listener wkey kvs s =
     (if kvs \<noteq> [] then
        go_bind (go_fold (\<lambda>(k, v). L_Set listener wkey k v) kvs s) (L_SetOk listener wkey)
      else L_Empty listener wkey s)"

definition watch :: "'st Listener \<Rightarrow> string \<Rightarrow> string + (string \<times> string) list \<Rightarrow> watch_msg list
    \<Rightarrow> 'st \<Rightarrow> ('st \<times> watch_status) go" where
  "watch listener wkey get ms s =
     (case get of
        Inl err \<Rightarrow> Ret (s, Returned (Some err))
      | Inr kvs \<Rightarrow> go_bind (watch_initial listener wkey kvs s) (watch_loop listener wkey ms))"

section \<open>The manager\<close>

text \<open>
  A close handler is the number of the context it cancels. The manager remembers the contexts that were
  cancelled and the goroutines it started with the context and the key of each. \<open>wg\<close> counts the goroutines that did
  not return.
\<close>

record EtcdWatcher =
  closeHandler :: "(string \<times> nat) list"
  cancelled :: "nat list"
  started :: "(nat \<times> string) list"
  wg :: nat
  cli_open :: bool

definition NewEtcdWatcher :: "string option \<Rightarrow> EtcdWatcher option \<times> string option" where
  "NewEtcdWatcher err =
     (case err of
        Some e \<Rightarrow> (None, Some e)
      | None \<Rightarrow> (Some \<lparr>closeHandler = [], cancelled = [], started = [], wg = 0, cli_open = True\<rparr>, None))"

definition AddWatch :: "string \<Rightarrow> EtcdWatcher \<Rightarrow> bool \<times> EtcdWatcher" where
  "AddWatch wkey mgr =
     (case map_of (closeHandler mgr) wkey of
        Some _ \<Rightarrow> (False, mgr)
      | None \<Rightarrow>
          let ctx = length (started mgr) in
          (True, mgr\<lparr>closeHandler := AList.update wkey ctx (closeHandler mgr),
                     started := started mgr @ [(ctx, wkey)], wg := Suc (wg mgr)\<rparr>))"

definition RemoveWatch :: "string \<Rightarrow> EtcdWatcher \<Rightarrow> bool \<times> EtcdWatcher" where
  "RemoveWatch wkey mgr =
     (case map_of (closeHandler mgr) wkey of
        None \<Rightarrow> (False, mgr)
      | Some ctx \<Rightarrow>
          (True, mgr\<lparr>closeHandler := AList.delete wkey (closeHandler mgr), cancelled := cancelled mgr @ [ctx]\<rparr>))"

definition ClearWatch :: "EtcdWatcher \<Rightarrow> EtcdWatcher" where
  "ClearWatch mgr = mgr\<lparr>closeHandler := [], cancelled := cancelled mgr @ map snd (closeHandler mgr)\<rparr>"

text \<open>With \<open>wait\<close> it blocks until \<open>wg\<close> is zero, and then the result is \<open>None\<close>. The client is set to nil, so closing again panics.\<close>

definition Close :: "bool \<Rightarrow> EtcdWatcher \<Rightarrow> EtcdWatcher option go" where
  "Close wait mgr =
     (let mgr1 = ClearWatch mgr in
      if wait \<and> wg mgr1 \<noteq> 0 then Ret None
      else if \<not> cli_open mgr1 then Panic NilDereference
      else Ret (Some (mgr1\<lparr>cli_open := False\<rparr>)))"

text \<open>A goroutine returns: its deferred call counts it off.\<close>

definition watch_returns :: "EtcdWatcher \<Rightarrow> EtcdWatcher" where
  "watch_returns mgr = mgr\<lparr>wg := wg mgr - 1\<rparr>"

section \<open>Invariant of the manager\<close>

text \<open>Contexts whose watch was started and not cancelled are exactly those with a close handler.\<close>

definition live :: "EtcdWatcher \<Rightarrow> (nat \<times> string) list" where
  "live mgr = List.filter (\<lambda>(c, k). c \<notin> set (cancelled mgr)) (started mgr)"

definition watcher_ok :: "EtcdWatcher \<Rightarrow> bool" where
  "watcher_ok mgr \<longleftrightarrow> distinct (map fst (closeHandler mgr))
    \<and> map fst (started mgr) = [0..<length (started mgr)]
    \<and> set (cancelled mgr) \<subseteq> {0..<length (started mgr)}
    \<and> (\<forall>k c. map_of (closeHandler mgr) k = Some c \<longleftrightarrow> (c, k) \<in> set (live mgr))"

text \<open>The operations of the manager as a step relation.\<close>

inductive mgr_step :: "EtcdWatcher \<Rightarrow> EtcdWatcher \<Rightarrow> bool" where
  step_add: "mgr_step m (snd (AddWatch k m))"
| step_remove: "mgr_step m (snd (RemoveWatch k m))"
| step_clear: "mgr_step m (ClearWatch m)"
| step_close: "Close wait m = Ret (Some m') \<Longrightarrow> mgr_step m m'"
| step_return: "mgr_step m (watch_returns m)"

definition mgr_initial :: "EtcdWatcher \<Rightarrow> bool" where
  "mgr_initial m \<longleftrightarrow> NewEtcdWatcher None = (Some m, None)"

inductive_cases mgr_stepE: "mgr_step m m'"

lemma live_iff: "(c, k) \<in> set (live mgr) \<longleftrightarrow> (c, k) \<in> set (started mgr) \<and> c \<notin> set (cancelled mgr)"
  by (auto simp: live_def)

lemma started_index:
  assumes "watcher_ok m" and "(c, k) \<in> set (started m)"
  shows "c < length (started m)" and "(c, k') \<in> set (started m) \<Longrightarrow> k' = k"
proof -
  have f: "map fst (started m) = [0..<length (started m)]" using assms(1) by (simp add: watcher_ok_def)
  have "fst (c, k) \<in> set (map fst (started m))" using assms(2) by (metis image_eqI set_map)
  then show "c < length (started m)" unfolding f by simp
  have "distinct (map fst (started m))" unfolding f by simp
  then show "(c, k') \<in> set (started m) \<Longrightarrow> k' = k" using assms(2) by (metis eq_key_imp_eq_value)
qed

lemma AddWatch_ok: "watcher_ok m \<Longrightarrow> watcher_ok (snd (AddWatch k m))"
proof (cases "map_of (closeHandler m) k")
  case None
  assume ok: "watcher_ok m"
  define c where "c = length (started m)"
  define m' where "m' = snd (AddWatch k m)"
  have m': "closeHandler m' = AList.update k c (closeHandler m)" "cancelled m' = cancelled m" "started m' = started m @ [(c, k)]"
    using None by (simp_all add: m'_def AddWatch_def Let_def c_def)
  have "c \<notin> set (cancelled m)" using ok by (auto simp: watcher_ok_def c_def)
  then have live: "(d, l) \<in> set (live m') \<longleftrightarrow> (d, l) \<in> set (live m) \<or> d = c \<and> l = k" for d l
    by (auto simp: live_iff m')
  have none: "(d, k) \<notin> set (live m)" for d using ok None by (auto simp: watcher_ok_def)
  have "map_of (closeHandler m') l = Some d \<longleftrightarrow> (d, l) \<in> set (live m')" for d l
    using ok none unfolding live m'(1) by (cases "l = k") (auto simp: update_conv' watcher_ok_def)
  then show ?thesis
    using ok unfolding m'_def [symmetric] watcher_ok_def
    by (auto simp: m' c_def AList.distinct_update intro: less_SucI)
qed (simp add: AddWatch_def)

lemma RemoveWatch_ok: "watcher_ok m \<Longrightarrow> watcher_ok (snd (RemoveWatch k m))"
proof (cases "map_of (closeHandler m) k")
  case (Some c)
  assume ok: "watcher_ok m"
  define m' where "m' = snd (RemoveWatch k m)"
  have m': "closeHandler m' = AList.delete k (closeHandler m)" "cancelled m' = cancelled m @ [c]" "started m' = started m"
    using Some by (simp_all add: m'_def RemoveWatch_def)
  have ck: "(c, k) \<in> set (live m)" using ok Some by (simp add: watcher_ok_def)
  then have "c < length (started m)" using started_index [OF ok] by (auto simp: live_iff)
  moreover have "map_of (closeHandler m') l = Some d \<longleftrightarrow> (d, l) \<in> set (live m')" for d l
  proof -
    have "map_of (closeHandler m') l = Some d \<longleftrightarrow> l \<noteq> k \<and> (d, l) \<in> set (live m)"
      using ok by (auto simp: m'(1) delete_conv' watcher_ok_def)
    also have "\<dots> \<longleftrightarrow> (d, l) \<in> set (live m')"
    proof -
      have "l = k \<longleftrightarrow> d = c" if "(d, l) \<in> set (live m)"
      proof
        assume "l = k"
        then have "map_of (closeHandler m) k = Some d" using ok that by (simp add: watcher_ok_def)
        then show "d = c" using Some by simp
      next
        assume "d = c"
        with that ck have "(c, k) \<in> set (started m)" "(c, l) \<in> set (started m)" by (simp_all add: live_iff)
        then show "l = k" by (rule started_index(2) [OF ok])
      qed
      moreover have "(d, l) \<in> set (live m') \<longleftrightarrow> (d, l) \<in> set (live m) \<and> d \<noteq> c" by (simp add: live_iff m') blast
      ultimately show ?thesis by blast
    qed
    finally show ?thesis .
  qed
  ultimately show ?thesis
    using ok unfolding m'_def [symmetric] watcher_ok_def by (auto simp: m' AList.distinct_delete)
qed (simp add: RemoveWatch_def)

lemma ClearWatch_ok: "watcher_ok m \<Longrightarrow> watcher_ok (ClearWatch m)"
proof -
  assume ok: "watcher_ok m"
  have "c \<in> snd ` set (closeHandler m)" if "(c, k) \<in> set (live m)" for c k
  proof -
    have "map_of (closeHandler m) k = Some c" using ok that by (simp add: watcher_ok_def)
    then show ?thesis by (metis image_eqI map_of_SomeD snd_conv)
  qed
  moreover have "snd ` set (closeHandler m) \<subseteq> {0..<length (started m)}"
  proof -
    have "c < length (started m)" if "(k, c) \<in> set (closeHandler m)" for k c
    proof -
      have "map_of (closeHandler m) k = Some c" using ok that by (simp add: watcher_ok_def)
      then have "(c, k) \<in> set (live m)" using ok by (simp add: watcher_ok_def)
      then show ?thesis using started_index(1) [OF ok] by (auto simp: live_iff)
    qed
    then show ?thesis by auto
  qed
  ultimately show ?thesis
    using ok by (auto simp: watcher_ok_def ClearWatch_def live_def)
qed

text \<open>A close handler for each live watch: no key has two of them.\<close>

lemma watcher_ok_live: "watcher_ok m \<Longrightarrow> distinct (map snd (live m))"
proof -
  assume ok: "watcher_ok m"
  then have "distinct (live m)"
    unfolding live_def watcher_ok_def by (intro distinct_filter) (metis distinct_map distinct_upt)
  moreover have "inj_on snd (set (live m))"
    using ok unfolding inj_on_def watcher_ok_def by (metis option.inject prod.collapse)
  ultimately show ?thesis by (simp add: distinct_map)
qed

interpretation manager: safe_system mgr_initial mgr_step watcher_ok "\<lambda>m. \<not> distinct (map snd (live m))"
proof
  fix m m' :: EtcdWatcher
  show "mgr_initial m \<Longrightarrow> watcher_ok m" by (auto simp: mgr_initial_def NewEtcdWatcher_def watcher_ok_def live_def)
  show "watcher_ok m \<Longrightarrow> \<not> \<not> distinct (map snd (live m))" by (simp add: watcher_ok_live)
  assume ok: "watcher_ok m" and "mgr_step m m'"
  from this(2) show "watcher_ok m'"
  proof (cases rule: mgr_step.cases)
    case step_close
    then show ?thesis
      using ClearWatch_ok [OF ok] by (auto simp: Close_def Let_def watcher_ok_def live_def split: if_splits)
  next
    case step_return
    then show ?thesis using ok by (simp add: watch_returns_def watcher_ok_def live_def)
  qed (simp_all add: ok AddWatch_ok RemoveWatch_ok ClearWatch_ok)
qed

text \<open>C23: in every state of the manager that its operations can reach, a key has a close handler exactly when one watch for
  it was started and not cancelled, and no key has two such watches.\<close>

theorem watcher_invariant:
  assumes "reachable mgr_initial mgr_step m"
  shows "watcher_ok m \<and> distinct (map snd (live m))"
  using manager.reachable_inv [OF assms] manager.never_bad [OF assms] by blast

theorem watcher_invariant_witness:
  "watcher_ok (snd (RemoveWatch ''/a'' (snd (AddWatch ''/b'' (snd (AddWatch ''/a''
     \<lparr>closeHandler = [], cancelled = [], started = [], wg = 0, cli_open = True\<rparr>))))))"
proof -
  have "reachable mgr_initial mgr_step \<lparr>closeHandler = [], cancelled = [], started = [], wg = 0, cli_open = True\<rparr>"
    by (rule reach_init) (simp add: mgr_initial_def NewEtcdWatcher_def)
  then have "reachable mgr_initial mgr_step (snd (RemoveWatch ''/a'' (snd (AddWatch ''/b'' (snd (AddWatch ''/a''
     \<lparr>closeHandler = [], cancelled = [], started = [], wg = 0, cli_open = True\<rparr>))))))"
    by (intro reach_step [where step = mgr_step, OF _ step_remove] reach_step [where step = mgr_step, OF _ step_add])
  then show ?thesis using watcher_invariant by blast
qed

text \<open>A watch gives up when the first answer of the client or a response on the channel is an error, and reports nothing of that
  response; its close handler stays, so the key cannot be watched again until it is removed.\<close>

lemma failed_watch_blocks_key:
  assumes "fst (AddWatch k m)"
  shows "watch l k (Inl e) ms s = Ret (s, Returned (Some e))
    \<and> watch l k (Inr kvs) (Resp (Some e) evs # ms) s = go_bind (watch_initial l k kvs s) (\<lambda>s'. Ret (s', Returned (Some e)))
    \<and> AddWatch k (watch_returns (snd (AddWatch k m))) = (False, watch_returns (snd (AddWatch k m)))
    \<and> fst (AddWatch k (snd (RemoveWatch k (watch_returns (snd (AddWatch k m))))))"
proof -
  have "map_of (closeHandler m) k = None" using assms by (auto simp: AddWatch_def split: option.splits)
  then show ?thesis
    by (auto simp: AddWatch_def RemoveWatch_def watch_returns_def watch_def Let_def update_conv' delete_conv'
        intro!: go_bind_cong)
qed

definition fresh_watcher :: EtcdWatcher where
  "fresh_watcher = \<lparr>closeHandler = [], cancelled = [], started = [], wg = 0, cli_open = True\<rparr>"

section \<open>What a watch relies on\<close>

text \<open>
  What one report makes of the decoded pairs below a watched key: a value that decodes is stored, an empty value removes
  the key, and a value that does not decode leaves what the key had. An empty key clears everything.
\<close>

definition view_set :: "(string \<Rightarrow> 'v option) \<Rightarrow> string \<times> string \<Rightarrow> (string \<rightharpoonup> 'v) \<Rightarrow> (string \<rightharpoonup> 'v)" where
  "view_set decode p m =
     (let (k, v) = p in
      if k = [] then Map.empty else if v = [] then m(k := None)
      else case decode v of Some x \<Rightarrow> m(k \<mapsto> x) | None \<Rightarrow> m)"

fun view_event :: "(string \<Rightarrow> 'v option) \<Rightarrow> etcd_event \<Rightarrow> (string \<rightharpoonup> 'v) \<Rightarrow> (string \<rightharpoonup> 'v)" where
  "view_event decode (Created k v) m = view_set decode (k, v) m"
| "view_event decode (Modified k v) m = view_set decode (k, v) m"
| "view_event decode (Deleted k) m = view_set decode (k, []) m"
| "view_event decode OtherEvent m = m"

text \<open>
  The contract of a listener: its calls return, and they keep a view of the pairs reported for each
  watched key, in which every report is seen as above.
\<close>

locale listener =
  fixes listener_ops :: "'st Listener"
    and view :: "'st \<Rightarrow> string \<Rightarrow> string \<rightharpoonup> 'v"
    and decode :: "string \<Rightarrow> 'v option"
    and ready :: "'st \<Rightarrow> bool"
  assumes set_view: "ready s \<Longrightarrow>
      \<exists>s'. L_Set listener_ops wkey k v s = Ret s' \<and> ready s' \<and> view s' = (view s)(wkey := view_set decode (k, v) (view s wkey))"
    and setok_view: "ready s \<Longrightarrow> \<exists>s'. L_SetOk listener_ops wkey s = Ret s' \<and> ready s' \<and> view s' = view s"
    and create_view: "ready s \<Longrightarrow>
      \<exists>s'. L_Create listener_ops wkey k v s = Ret s' \<and> ready s' \<and> view s' = (view s)(wkey := view_set decode (k, v) (view s wkey))"
    and modify_view: "ready s \<Longrightarrow>
      \<exists>s'. L_Modify listener_ops wkey k v s = Ret s' \<and> ready s' \<and> view s' = (view s)(wkey := view_set decode (k, v) (view s wkey))"
    and delete_view: "ready s \<Longrightarrow>
      \<exists>s'. L_Delete listener_ops wkey k s = Ret s' \<and> ready s' \<and> view s' = (view s)(wkey := view_set decode (k, []) (view s wkey))"
    and empty_view: "ready s \<Longrightarrow> \<exists>s'. L_Empty listener_ops wkey s = Ret s' \<and> ready s' \<and> view s' = (view s)(wkey := Map.empty)"

text \<open>The store of etcd below a watched key, and how the events change it.\<close>

fun etcd_apply :: "etcd_event \<Rightarrow> (string \<rightharpoonup> string) \<Rightarrow> (string \<rightharpoonup> string)" where
  "etcd_apply (Created k v) m = m(k \<mapsto> v)"
| "etcd_apply (Modified k v) m = m(k \<mapsto> v)"
| "etcd_apply (Deleted k) m = m(k := None)"
| "etcd_apply OtherEvent m = m"

definition event_ok :: "(string \<Rightarrow> 'v option) \<Rightarrow> etcd_event \<Rightarrow> bool" where
  "event_ok decode e =
     (case e of
        Created k v \<Rightarrow> k \<noteq> [] \<and> v \<noteq> [] \<and> decode v \<noteq> None
      | Modified k v \<Rightarrow> k \<noteq> [] \<and> v \<noteq> [] \<and> decode v \<noteq> None
      | Deleted k \<Rightarrow> k \<noteq> []
      | OtherEvent \<Rightarrow> True)"

definition decoded :: "(string \<Rightarrow> 'v option) \<Rightarrow> (string \<rightharpoonup> string) \<Rightarrow> (string \<rightharpoonup> 'v)" where
  "decoded decode m k = Option.bind (m k) decode"

lemma decoded_empty [simp]: "decoded decode Map.empty = Map.empty"
  by (auto simp: decoded_def)

text \<open>Where keys and values are not empty and all values decode, the reports leave the decoded store.\<close>

lemma view_set_decoded:
  "k \<noteq> [] \<Longrightarrow> v \<noteq> [] \<Longrightarrow> decode v \<noteq> None \<Longrightarrow> view_set decode (k, v) (decoded decode m) = decoded decode (m(k \<mapsto> v))"
  "k \<noteq> [] \<Longrightarrow> view_set decode (k, []) (decoded decode m) = decoded decode (m(k := None))"
  by (auto simp: view_set_def decoded_def fun_eq_iff)

lemma view_event_decoded: "event_ok decode e \<Longrightarrow> view_event decode e (decoded decode m) = decoded decode (etcd_apply e m)"
  by (cases e) (auto simp: event_ok_def view_set_decoded)

lemma view_events_decoded:
  "list_all (event_ok decode) evs \<Longrightarrow> fold (view_event decode) evs (decoded decode m) = decoded decode (fold etcd_apply evs m)"
  by (induction evs arbitrary: m) (simp_all add: view_event_decoded)

lemma view_sets_decoded:
  "list_all (\<lambda>(k, v). event_ok decode (Created k v)) kvs \<Longrightarrow>
   fold (view_set decode) kvs (decoded decode m) = decoded decode (fold (\<lambda>(k, v) m. m(k \<mapsto> v)) kvs m)"
proof (induction kvs arbitrary: m)
  case (Cons p kvs)
  obtain k v where p: "p = (k, v)" by fastforce
  with Cons.prems have "view_set decode p (decoded decode m) = decoded decode (m(k \<mapsto> v))"
    by (auto simp: event_ok_def intro!: view_set_decoded(1))
  moreover have "list_all (\<lambda>(k, v). event_ok decode (Created k v)) kvs" using Cons.prems by simp
  ultimately show ?case by (simp only: fold_simps Cons.IH p prod.case)
qed simp

fun resp_events :: "watch_msg \<Rightarrow> etcd_event list" where
  "resp_events Done = []"
| "resp_events (Resp e evs) = evs"

definition delivering :: "watch_msg list \<Rightarrow> bool" where
  "delivering ms \<longleftrightarrow> list_all (\<lambda>m. case m of Done \<Rightarrow> False | Resp e _ \<Rightarrow> e = None) ms"

context listener
begin

lemma notify_view:
  assumes "ready s"
  shows "\<exists>s'. notify listener_ops wkey e s = Ret s' \<and> ready s' \<and> view s' = (view s)(wkey := view_event decode e (view s wkey))"
  using create_view [OF assms] modify_view [OF assms] delete_view [OF assms] assms by (cases e) simp_all

lemma events_view:
  "ready s \<Longrightarrow> \<exists>s'. go_fold (notify listener_ops wkey) evs s = Ret s' \<and> ready s'
     \<and> view s' = (view s)(wkey := fold (view_event decode) evs (view s wkey))"
proof (induction evs arbitrary: s)
  case (Cons e evs)
  from notify_view [OF Cons.prems] obtain s1
    where s1: "notify listener_ops wkey e s = Ret s1" "ready s1" "view s1 = (view s)(wkey := view_event decode e (view s wkey))"
    by blast
  from Cons.IH [OF s1(2)] show ?case by (simp only: s1(1,3) go_fold.simps go_bind.simps fun_upd_upd fun_upd_same fold_simps)
qed simp

lemma loop_view:
  "ready s \<Longrightarrow> delivering ms \<Longrightarrow>
   \<exists>s'. watch_loop listener_ops wkey ms s = Ret (s', Waiting) \<and> ready s'
     \<and> view s' = (view s)(wkey := fold (view_event decode) (concat (map resp_events ms)) (view s wkey))"
proof (induction ms arbitrary: s)
  case (Cons msg ms)
  then obtain evs where msg: "msg = Resp None evs" by (cases msg) (auto simp: delivering_def)
  from events_view [OF Cons.prems(1)] obtain s1 where s1: "go_fold (notify listener_ops wkey) evs s = Ret s1" "ready s1"
    "view s1 = (view s)(wkey := fold (view_event decode) evs (view s wkey))" by blast
  have "delivering ms" using Cons.prems(2) by (simp add: delivering_def)
  from Cons.IH [OF s1(2) this] show ?case
    by (simp only: msg s1(1,3) watch_loop.simps go_bind.simps fun_upd_upd fun_upd_same list.map concat.simps resp_events.simps fold_append comp_apply)
qed simp

lemma sets_view:
  "ready s \<Longrightarrow> \<exists>s'. go_fold (\<lambda>(k, v). L_Set listener_ops wkey k v) kvs s = Ret s' \<and> ready s'
     \<and> view s' = (view s)(wkey := fold (view_set decode) kvs (view s wkey))"
proof (induction kvs arbitrary: s)
  case (Cons p kvs)
  obtain k v where p: "p = (k, v)" by fastforce
  from set_view [OF Cons.prems] obtain s1 where
    s1: "L_Set listener_ops wkey k v s = Ret s1" "ready s1" "view s1 = (view s)(wkey := view_set decode (k, v) (view s wkey))" by blast
  from Cons.IH [OF s1(2)] show ?case by (simp only: p s1(1,3) go_fold.simps go_bind.simps fun_upd_upd fun_upd_same fold_simps prod.case)
qed simp

text \<open>
  The view after the first answer and any number of delivered events. The first answer is added to what the
  listener held for the key before, unless it is empty.
\<close>

lemma watch_view:
  assumes "ready s" and "delivering ms"
  shows "\<exists>s'. watch listener_ops wkey (Inr kvs) ms s = Ret (s', Waiting) \<and> ready s'
    \<and> view s' = (view s)(wkey := fold (view_event decode) (concat (map resp_events ms))
        (if kvs = [] then Map.empty else fold (view_set decode) kvs (view s wkey)))"
proof (cases "kvs = []")
  case True
  from empty_view [OF assms(1), of wkey] obtain s1 where
    s1: "L_Empty listener_ops wkey s = Ret s1" "ready s1" "view s1 = (view s)(wkey := Map.empty)" by blast
  from loop_view [OF s1(2) assms(2), of wkey] s1(1,3) True show ?thesis by (simp add: watch_def watch_initial_def)
next
  case False
  from sets_view [OF assms(1), of wkey kvs] obtain s1 where
    s1: "go_fold (\<lambda>(k, v). L_Set listener_ops wkey k v) kvs s = Ret s1" "ready s1"
      "view s1 = (view s)(wkey := fold (view_set decode) kvs (view s wkey))" by blast
  from setok_view [OF s1(2), of wkey] obtain s2 where s2: "L_SetOk listener_ops wkey s1 = Ret s2" "ready s2" "view s2 = view s1" by blast
  from loop_view [OF s2(2) assms(2), of wkey] s1 s2 False show ?thesis by (simp add: watch_def watch_initial_def)
qed

end

end
