(* ===== verification/Etcd_Listen.thy ===== *)
theory Etcd_Listen
  imports Etcd_Watcher
begin

text \<open>
  The service listener (\<open>util/etcd_listen/etcd_listen.go\<close>, with \<open>Contains\<close> of \<open>util/funcs.go\<close>): groups of
  services to watch, the index from a watched key to the groups that use it, the mirror of what etcd holds below
  the watched keys, and the lists of servers exported for each group. The package variables are the fields of one
  record; a Go map is an association list, and the order in which a \<open>range\<close> loop visits the keys of a
  map is a parameter \<open>iter\<close>. Decoding the JSON text of a node is the parameter \<open>decode\<close> (\<open>None\<close> where
  \<open>json.Unmarshal\<close> fails); the two functions of the package \<open>semver\<close> are the parameters \<open>Parse\<close> and \<open>ParseRange\<close>.
\<close>

section \<open>State\<close>

record WatchServerInfo =
  wsi_Name :: string
  wsi_Version :: string

record WriteServerInfo =
  Serverkey :: string
  Ip :: string
  Port :: int

record nodeInfo =
  NodeId :: string
  Handles :: string
  Address :: string
  ni_Port :: int
  Metadata :: string
  ni_Ip :: string
  ni_Version :: string

record listen =
  outputFileHasKeys :: "(string \<times> (string \<times> WatchServerInfo) list) list"
  namesWithOutputFile :: "(string \<times> (string \<times> string list) list) list"
  outputFileMap :: "(string \<times> (string \<times> WriteServerInfo list) list) list"
  etcdSettings :: "(string \<times> (string \<times> nodeInfo) list) list"
  etcdw :: "EtcdWatcher option"
  lsio :: bool
  exports :: "(string \<times> (string \<times> WriteServerInfo list) list) list"

text \<open>The pairs of a map in the order a \<open>range\<close> loop visits them, and a map inside a map.\<close>

definition range_map :: "(string list \<Rightarrow> string list) \<Rightarrow> (string \<times> 'v) list \<Rightarrow> (string \<times> 'v) list" where
  "range_map iter m = map (\<lambda>k. (k, the (map_of m k))) (iter (map fst m))"

definition iter_ok :: "(string list \<Rightarrow> string list) \<Rightarrow> bool" where
  "iter_ok iter \<longleftrightarrow> (\<forall>xs. mset (iter xs) = mset xs)"

definition map_or_nil :: "(string \<times> 'v list) list \<Rightarrow> string \<Rightarrow> 'v list" where
  "map_or_nil m k = (case map_of m k of None \<Rightarrow> [] | Some v \<Rightarrow> v)"

section \<open>Groups\<close>

fun Contains_from :: "int \<Rightarrow> string list \<Rightarrow> string \<Rightarrow> int" where
  "Contains_from index [] s = -1"
| "Contains_from index (v # slice) s = (if v = s then index else Contains_from (index + 1) slice s)"

definition Contains_string :: "string list \<Rightarrow> string \<Rightarrow> int" where
  "Contains_string slice s = Contains_from 0 slice s"

fun ArrayColumnStrings :: "(string \<times> string) list list \<Rightarrow> string \<Rightarrow> string list" where
  "ArrayColumnStrings [] columnKey = []"
| "ArrayColumnStrings (val # input) columnKey =
     (case map_of val columnKey of
        Some v \<Rightarrow> v # ArrayColumnStrings input columnKey
      | None \<Rightarrow> ArrayColumnStrings input columnKey)"

definition add_name :: "string \<Rightarrow> string \<times> WatchServerInfo
    \<Rightarrow> (string \<times> (string \<times> string list) list) list \<Rightarrow> (string \<times> (string \<times> string list) list) list" where
  "add_name outputalias p names =
     (let (sname, eachWatch) = p;
          v = (if length (map_or_nil names (wsi_Name eachWatch)) = 0 then [] else map_or_nil names (wsi_Name eachWatch))
      in AList.update (wsi_Name eachWatch) (AList.update outputalias (map_or_nil v outputalias @ [sname]) v) names)"

definition AddGroupWatchs :: "(string list \<Rightarrow> string list) \<Rightarrow> (string \<times> WatchServerInfo) list \<Rightarrow> string \<Rightarrow> listen
    \<Rightarrow> string option \<times> listen" where
  "AddGroupWatchs iter wsi outputalias s =
     (case map_of (outputFileHasKeys s) outputalias of
        Some _ \<Rightarrow> (Some (''already watched group '' @ [CHR 0xEF, CHR 0xBC, CHR 0x9A] @ outputalias), s)
      | None \<Rightarrow>
          (None, s\<lparr>outputFileHasKeys := AList.update outputalias wsi (outputFileHasKeys s),
                   namesWithOutputFile := fold (add_name outputalias) (range_map iter wsi) (namesWithOutputFile s),
                   outputFileMap := (case map_of (outputFileMap s) outputalias of
                                       Some _ \<Rightarrow> outputFileMap s
                                     | None \<Rightarrow> AList.update outputalias [] (outputFileMap s))\<rparr>))"

text \<open>
  One turn of the loop of \<open>EmptyGroupWatchs\<close>: first the index, then the watch of a key that no group uses
  any more. Calling a method of the nil watcher panics when it locks.
\<close>

definition drop_name :: "string \<Rightarrow> string \<Rightarrow> string
    \<Rightarrow> (string \<times> (string \<times> string list) list) list \<Rightarrow> (string \<times> (string \<times> string list) list) list" where
  "drop_name outputalias sname name names =
     (let names1 = (case map_of names name of
              Some v \<Rightarrow>
                (case map_of v outputalias of
                   Some filekeyslist \<Rightarrow>
                     let snameindex = Contains_string filekeyslist sname in
                     if snameindex \<noteq> -1
                     then AList.update name (AList.update outputalias (drop (nat (snameindex + 1)) filekeyslist) v) names
                     else names
                 | None \<Rightarrow> names)
            | None \<Rightarrow> names)
      in if length (map_or_nil (map_or_nil names1 name) outputalias) = 0
         then (case map_of names1 name of
                 Some v \<Rightarrow> AList.update name (AList.delete outputalias v) names1
               | None \<Rightarrow> names1)
         else names1)"

definition empty_name :: "string \<Rightarrow> string \<times> WatchServerInfo \<Rightarrow> listen \<Rightarrow> listen go" where
  "empty_name outputalias p s =
     (let (sname, keyandversion) = p;
          name = wsi_Name keyandversion;
          names2 = drop_name outputalias sname name (namesWithOutputFile s)
      in if length (map_or_nil names2 name) = 0
         then (case etcdw s of
                 None \<Rightarrow> Panic NilDereference
               | Some ew \<Rightarrow>
                   Ret (s\<lparr>namesWithOutputFile := AList.delete name names2, etcdw := Some (snd (RemoveWatch name ew))\<rparr>))
         else Ret (s\<lparr>namesWithOutputFile := names2\<rparr>))"

definition EmptyGroupWatchs :: "(string list \<Rightarrow> string list) \<Rightarrow> string \<Rightarrow> listen \<Rightarrow> listen go" where
  "EmptyGroupWatchs iter outputalias s =
     (let s1 = s\<lparr>outputFileMap := AList.delete outputalias (outputFileMap s)\<rparr> in
      case map_of (outputFileHasKeys s1) outputalias of
        None \<Rightarrow> Ret s1
      | Some groupWatchs \<Rightarrow>
          go_fold (empty_name outputalias) (range_map iter groupWatchs)
            (s1\<lparr>outputFileHasKeys := AList.delete outputalias (outputFileHasKeys s1)\<rparr>))"

section \<open>Starting and reloading\<close>

definition ReloadEtcdWatch :: "(string list \<Rightarrow> string list) \<Rightarrow> listen \<Rightarrow> listen" where
  "ReloadEtcdWatch iter s =
     fold (\<lambda>k s. case etcdw s of None \<Rightarrow> s | Some ew \<Rightarrow> s\<lparr>etcdw := Some (snd (AddWatch k ew))\<rparr>)
       (iter (map fst (namesWithOutputFile s))) s"

text \<open>
  \<open>Start\<close> up to the point where it waits; \<open>err\<close> is the error of the client's constructor. With an error
  it returns nil as well, and leaves a nil watcher.
\<close>

definition Start :: "(string list \<Rightarrow> string list) \<Rightarrow> string option \<Rightarrow> listen \<Rightarrow> listen" where
  "Start iter err s =
     (let s1 = s\<lparr>lsio := True\<rparr>; (ew, e) = NewEtcdWatcher err; s2 = s1\<lparr>etcdw := ew\<rparr>
      in if e = None then ReloadEtcdWatch iter s2 else s2)"

section \<open>The mirror of etcd\<close>

definition tiggerChangeWatchKeyValue :: "(string \<Rightarrow> nodeInfo option) \<Rightarrow> string \<Rightarrow> string \<Rightarrow> string \<Rightarrow> listen \<Rightarrow> listen" where
  "tiggerChangeWatchKeyValue decode watchkey key value s =
     (if key = [] then s\<lparr>etcdSettings := AList.delete watchkey (etcdSettings s)\<rparr>
      else if value = [] then
        (case map_of (etcdSettings s) watchkey of
           None \<Rightarrow> s
         | Some m \<Rightarrow>
             (case map_of m key of
                None \<Rightarrow> s
              | Some _ \<Rightarrow>
                  let m' = AList.delete key m in
                  if length m' = 0 then s\<lparr>etcdSettings := AList.delete watchkey (etcdSettings s)\<rparr>
                  else s\<lparr>etcdSettings := AList.update watchkey m' (etcdSettings s)\<rparr>))
      else
        let m = map_or_nil (etcdSettings s) watchkey in
        (case decode value of
           Some ni \<Rightarrow> s\<lparr>etcdSettings := AList.update watchkey (AList.update key ni m) (etcdSettings s)\<rparr>
         | None \<Rightarrow> s\<lparr>etcdSettings := AList.update watchkey m (etcdSettings s)\<rparr>))"

definition expected :: "(string \<Rightarrow> 'ver option) \<Rightarrow> (string \<Rightarrow> ('ver \<Rightarrow> bool) option) \<Rightarrow> WatchServerInfo \<Rightarrow> nodeInfo \<Rightarrow> bool" where
  "expected Parse ParseRange fconfig ni =
     (case Parse (ni_Version ni) of
        None \<Rightarrow> False
      | Some vA \<Rightarrow> (case ParseRange (wsi_Version fconfig) of None \<Rightarrow> False | Some expectedRange \<Rightarrow> expectedRange vA))"

definition write_info :: "string \<Rightarrow> nodeInfo \<Rightarrow> WriteServerInfo" where
  "write_info nodeallname ni = \<lparr>Serverkey = nodeallname, Ip = ni_Ip ni, Port = ni_Port ni\<rparr>"

text \<open>The body of the loop over the names of one file, on the map of that file.\<close>

definition refresh_name :: "(string list \<Rightarrow> string list) \<Rightarrow> (string \<Rightarrow> 'ver option) \<Rightarrow> (string \<Rightarrow> ('ver \<Rightarrow> bool) option)
    \<Rightarrow> listen \<Rightarrow> string \<Rightarrow> string \<Rightarrow> (string \<times> WriteServerInfo list) list \<Rightarrow> (string \<times> WriteServerInfo list) list" where
  "refresh_name iter Parse ParseRange s eachfile namekey m =
     (case map_of (outputFileHasKeys s) eachfile of
        None \<Rightarrow> m
      | Some cfgs \<Rightarrow>
          (case map_of cfgs namekey of
             None \<Rightarrow> m
           | Some fconfig \<Rightarrow>
               let m1 = AList.update namekey [] (AList.delete namekey m) in
               case map_of (etcdSettings s) (wsi_Name fconfig) of
                 None \<Rightarrow> m1
               | Some servernodes \<Rightarrow>
                   fold (\<lambda>(nodeallname, ni) m.
                       if expected Parse ParseRange fconfig ni
                       then AList.update namekey (map_or_nil m namekey @ [write_info nodeallname ni]) m else m)
                     (range_map iter servernodes) m1))"

definition refresh_file :: "(string list \<Rightarrow> string list) \<Rightarrow> (string \<Rightarrow> 'ver option) \<Rightarrow> (string \<Rightarrow> ('ver \<Rightarrow> bool) option)
    \<Rightarrow> string \<times> string list \<Rightarrow> listen \<Rightarrow> listen go" where
  "refresh_file iter Parse ParseRange p s =
     (let (eachfile, namekeys) = p;
          m = fold (refresh_name iter Parse ParseRange s eachfile) namekeys (map_or_nil (outputFileMap s) eachfile);
          s1 = s\<lparr>outputFileMap := AList.update eachfile m (outputFileMap s)\<rparr>
      in if lsio s1 then Ret (s1\<lparr>exports := exports s1 @ [(eachfile, m)]\<rparr>) else Panic NilDereference)"

definition tiggerChangesWatchKey :: "(string list \<Rightarrow> string list) \<Rightarrow> (string \<Rightarrow> 'ver option) \<Rightarrow> (string \<Rightarrow> ('ver \<Rightarrow> bool) option)
    \<Rightarrow> string \<Rightarrow> listen \<Rightarrow> listen go" where
  "tiggerChangesWatchKey iter Parse ParseRange watchkey s =
     (case map_of (namesWithOutputFile s) watchkey of
        None \<Rightarrow> Ret s
      | Some files \<Rightarrow> go_fold (refresh_file iter Parse ParseRange) (range_map iter files) s)"

definition ReloadExport :: "(string list \<Rightarrow> string list) \<Rightarrow> (string \<Rightarrow> 'ver option) \<Rightarrow> (string \<Rightarrow> ('ver \<Rightarrow> bool) option)
    \<Rightarrow> listen \<Rightarrow> listen go" where
  "ReloadExport iter Parse ParseRange s =
     go_fold (tiggerChangesWatchKey iter Parse ParseRange) (iter (map fst (namesWithOutputFile s))) s"

text \<open>The methods of \<open>ListenerSC\<close>.\<close>

definition lsc :: "(string list \<Rightarrow> string list) \<Rightarrow> (string \<Rightarrow> 'ver option) \<Rightarrow> (string \<Rightarrow> ('ver \<Rightarrow> bool) option)
    \<Rightarrow> (string \<Rightarrow> nodeInfo option) \<Rightarrow> listen Listener" where
  "lsc iter Parse ParseRange decode =
     \<lparr>L_Set = (\<lambda>watchkey key value s. Ret (tiggerChangeWatchKeyValue decode watchkey key value s)),
      L_SetOk = tiggerChangesWatchKey iter Parse ParseRange,
      L_Create = (\<lambda>watchkey key value s.
        tiggerChangesWatchKey iter Parse ParseRange watchkey (tiggerChangeWatchKeyValue decode watchkey key value s)),
      L_Modify = (\<lambda>watchkey key value s.
        tiggerChangesWatchKey iter Parse ParseRange watchkey (tiggerChangeWatchKeyValue decode watchkey key value s)),
      L_Delete = (\<lambda>watchkey key s.
        tiggerChangesWatchKey iter Parse ParseRange watchkey (tiggerChangeWatchKeyValue decode watchkey key [] s)),
      L_Empty = (\<lambda>watchkey s.
        tiggerChangesWatchKey iter Parse ParseRange watchkey (tiggerChangeWatchKeyValue decode watchkey [] [] s))\<rparr>"

section \<open>The listener keeps a mirror\<close>

definition settings_view :: "listen \<Rightarrow> string \<Rightarrow> string \<rightharpoonup> nodeInfo" where
  "settings_view s watchkey = map_of (map_or_nil (etcdSettings s) watchkey)"

definition settings_ok :: "listen \<Rightarrow> bool" where
  "settings_ok s \<longleftrightarrow> (\<forall>k m. map_of (etcdSettings s) k = Some m \<longrightarrow> distinct (map fst m))"

definition listen_ready :: "listen \<Rightarrow> bool" where
  "listen_ready s \<longleftrightarrow> lsio s \<and> settings_ok s"

text \<open>The fields that the reports of a watch never change.\<close>

definition same_groups :: "listen \<Rightarrow> listen \<Rightarrow> bool" where
  "same_groups s s' \<longleftrightarrow> outputFileHasKeys s' = outputFileHasKeys s \<and> namesWithOutputFile s' = namesWithOutputFile s
    \<and> etcdw s' = etcdw s \<and> lsio s' = lsio s"

lemma same_groups_refl [simp]: "same_groups s s"
  by (simp add: same_groups_def)

lemma same_groups_trans: "same_groups s s' \<Longrightarrow> same_groups s' s'' \<Longrightarrow> same_groups s s''"
  by (simp add: same_groups_def)

lemma map_or_nil_update [simp]: "map_or_nil (AList.update k v m) l = (if k = l then v else map_or_nil m l)"
  by (simp add: map_or_nil_def update_conv')

lemma map_or_nil_delete [simp]: "map_or_nil (AList.delete k m) l = (if k = l then [] else map_or_nil m l)"
  by (simp add: map_or_nil_def delete_conv')

lemma alist_empty: "m = [] \<longleftrightarrow> (\<forall>k. map_of m k = None)"
  by (cases m) (auto split: if_splits)

lemma trigger_value_groups: "same_groups s (tiggerChangeWatchKeyValue decode wk k v s)"
  by (simp add: same_groups_def tiggerChangeWatchKeyValue_def Let_def split: option.split)

lemma trigger_value_put:
  assumes "k \<noteq> []" and "v \<noteq> []" and "decode v = Some x" and "listen_ready s"
  shows "settings_view (tiggerChangeWatchKeyValue decode wk k v s) = (settings_view s)(wk := (settings_view s wk)(k \<mapsto> x))"
    and "listen_ready (tiggerChangeWatchKeyValue decode wk k v s)"
proof -
  show "settings_view (tiggerChangeWatchKeyValue decode wk k v s) = (settings_view s)(wk := (settings_view s wk)(k \<mapsto> x))"
    using assms(1-3) by (auto simp: tiggerChangeWatchKeyValue_def settings_view_def Let_def update_conv')
  have "distinct (map fst (map_or_nil (etcdSettings s) wk))"
    using assms(4) by (simp add: listen_ready_def settings_ok_def map_or_nil_def split: option.split)
  then show "listen_ready (tiggerChangeWatchKeyValue decode wk k v s)"
    using assms by (auto simp: listen_ready_def settings_ok_def tiggerChangeWatchKeyValue_def Let_def update_conv' distinct_update
        split: if_splits)
qed

lemma trigger_value_delete:
  assumes "k \<noteq> []" and "listen_ready s"
  shows "settings_view (tiggerChangeWatchKeyValue decode wk k [] s) = (settings_view s)(wk := (settings_view s wk)(k := None))"
    and "listen_ready (tiggerChangeWatchKeyValue decode wk k [] s)"
proof -
  show "settings_view (tiggerChangeWatchKeyValue decode wk k [] s) = (settings_view s)(wk := (settings_view s wk)(k := None))"
  proof (cases "map_of (etcdSettings s) wk")
    case (Some m)
    then have view: "settings_view s wk = map_of m" by (simp add: settings_view_def map_or_nil_def)
    have "settings_view (tiggerChangeWatchKeyValue decode wk k [] s) l = ((settings_view s)(wk := (map_of m)(k := None))) l" for l
    proof (cases "map_of m k")
      case None
      then show ?thesis using assms(1) Some view
        by (cases "l = wk") (simp_all add: tiggerChangeWatchKeyValue_def fun_upd_idem)
    next
      case (Some x)
      have "AList.delete k m = [] \<Longrightarrow> (map_of m)(k := None) = Map.empty"
        by (metis delete_conv' map_of.simps(1))
      with Some \<open>map_of (etcdSettings s) wk = Some m\<close> assms(1) show ?thesis
        by (simp add: tiggerChangeWatchKeyValue_def Let_def settings_view_def delete_conv')
    qed
    then show ?thesis by (simp only: view) (rule ext)
  next
    case None
    then show ?thesis
      using assms(1) by (auto simp: tiggerChangeWatchKeyValue_def settings_view_def map_or_nil_def fun_eq_iff)
  qed
  show "listen_ready (tiggerChangeWatchKeyValue decode wk k [] s)"
    using assms by (auto simp: listen_ready_def settings_ok_def tiggerChangeWatchKeyValue_def Let_def update_conv' delete_conv' distinct_delete
        split: if_splits option.splits)
qed

lemma trigger_value_empty:
  assumes "listen_ready s"
  shows "settings_view (tiggerChangeWatchKeyValue decode wk [] v s) = (settings_view s)(wk := Map.empty)"
    and "listen_ready (tiggerChangeWatchKeyValue decode wk [] v s)"
  using assms
  by (auto simp: tiggerChangeWatchKeyValue_def settings_view_def listen_ready_def settings_ok_def delete_conv' fun_eq_iff split: if_splits)

lemma refresh_file_Ret:
  assumes "refresh_file iter Parse ParseRange p s = Ret s'"
  shows "same_groups s s' \<and> etcdSettings s' = etcdSettings s"
  using assms by (auto simp: refresh_file_def Let_def same_groups_def split: prod.splits if_splits)

lemma trigger_keys_Ret:
  assumes "tiggerChangesWatchKey iter Parse ParseRange wk s = Ret s'"
  shows "same_groups s s' \<and> etcdSettings s' = etcdSettings s"
proof (cases "map_of (namesWithOutputFile s) wk")
  case (Some files)
  with assms have "go_fold (refresh_file iter Parse ParseRange) (range_map iter files) s = Ret s'"
    by (simp add: tiggerChangesWatchKey_def)
  then show ?thesis
  proof (rule go_fold_invariant [where P = "\<lambda>t. same_groups s t \<and> etcdSettings t = etcdSettings s"])
    fix x t t'
    assume "same_groups s t \<and> etcdSettings t = etcdSettings s" "refresh_file iter Parse ParseRange x t = Ret t'"
    with refresh_file_Ret [OF this(2)] show "same_groups s t' \<and> etcdSettings t' = etcdSettings s"
      by (auto intro: same_groups_trans)
  qed simp
qed (use assms in \<open>simp add: tiggerChangesWatchKey_def\<close>)

lemma refresh_file_total: "lsio s \<Longrightarrow> \<exists>s'. refresh_file iter Parse ParseRange p s = Ret s'"
  by (cases p) (simp add: refresh_file_def Let_def)

lemma trigger_keys_total: "lsio s \<Longrightarrow> \<exists>s'. tiggerChangesWatchKey iter Parse ParseRange wk s = Ret s'"
proof -
  assume "lsio s"
  then have "\<exists>s'. go_fold (refresh_file iter Parse ParseRange) ps s = Ret s'" for ps
  proof (induction ps arbitrary: s)
    case (Cons p ps)
    then obtain s1 where s1: "refresh_file iter Parse ParseRange p s = Ret s1"
      using refresh_file_total by blast
    moreover have "lsio s1" using refresh_file_Ret [OF s1] Cons.prems by (simp add: same_groups_def)
    ultimately show ?case using Cons.IH by auto
  qed simp
  then show ?thesis by (simp add: tiggerChangesWatchKey_def split: option.split)
qed

lemma trigger_keys_view:
  assumes "listen_ready s"
  shows "\<exists>s'. tiggerChangesWatchKey iter Parse ParseRange wk s = Ret s' \<and> listen_ready s' \<and> settings_view s' = settings_view s"
proof -
  have "lsio s" using assms by (simp add: listen_ready_def)
  then obtain s' where s': "tiggerChangesWatchKey iter Parse ParseRange wk s = Ret s'" using trigger_keys_total by blast
  with trigger_keys_Ret [OF s'] assms show ?thesis
    by (intro exI [of _ s']) (simp add: listen_ready_def same_groups_def settings_ok_def settings_view_def [abs_def])
qed

lemma trigger_value_view:
  assumes "listen_ready s"
  shows "settings_view (tiggerChangeWatchKeyValue decode wk k v s)
    = (settings_view s)(wk := view_set decode (k, v) (settings_view s wk))"
proof -
  have undecoded: "settings_view (tiggerChangeWatchKeyValue decode wk k v s) = settings_view s"
    if "k \<noteq> []" "v \<noteq> []" "decode v = None"
    using that by (auto simp: tiggerChangeWatchKeyValue_def settings_view_def Let_def fun_eq_iff)
  show ?thesis
    using trigger_value_empty(1) [OF assms, of decode wk v] trigger_value_delete(1) [OF _ assms, of k decode wk] undecoded
      trigger_value_put(1) [OF _ _ _ assms, of k v decode _ wk]
    by (cases "k = []"; cases "v = []"; cases "decode v") (simp_all add: view_set_def)
qed

lemma trigger_value_ready: "listen_ready s \<Longrightarrow> listen_ready (tiggerChangeWatchKeyValue decode wk k v s)"
proof -
  assume r: "listen_ready s"
  then have "distinct (map fst (map_or_nil (etcdSettings s) wk))"
    by (simp add: listen_ready_def settings_ok_def map_or_nil_def split: option.split)
  with r show ?thesis
    by (auto simp: listen_ready_def settings_ok_def tiggerChangeWatchKeyValue_def Let_def update_conv' delete_conv'
        distinct_update distinct_delete split: if_splits option.splits)
qed

interpretation lsc: listener "lsc iter Parse ParseRange decode" settings_view decode listen_ready
proof
  fix s :: listen and k v wk :: string
  assume r: "listen_ready s"
  have set: "\<exists>s'. tiggerChangesWatchKey iter Parse ParseRange wk (tiggerChangeWatchKeyValue decode wk k v s) = Ret s' \<and> listen_ready s'
      \<and> settings_view s' = (settings_view s)(wk := view_set decode (k, v) (settings_view s wk))" for k v
    using trigger_keys_view [OF trigger_value_ready [OF r, of decode wk k v]] by (simp only: trigger_value_view [OF r])
  show "\<exists>s'. L_Set (lsc iter Parse ParseRange decode) wk k v s = Ret s' \<and> listen_ready s'
      \<and> settings_view s' = (settings_view s)(wk := view_set decode (k, v) (settings_view s wk))"
    using trigger_value_ready [OF r] trigger_value_view [OF r] by (simp add: lsc_def)
  show "\<exists>s'. L_SetOk (lsc iter Parse ParseRange decode) wk s = Ret s' \<and> listen_ready s' \<and> settings_view s' = settings_view s"
    using trigger_keys_view [OF r] by (simp add: lsc_def)
  show "\<exists>s'. L_Create (lsc iter Parse ParseRange decode) wk k v s = Ret s' \<and> listen_ready s'
      \<and> settings_view s' = (settings_view s)(wk := view_set decode (k, v) (settings_view s wk))"
    and "\<exists>s'. L_Modify (lsc iter Parse ParseRange decode) wk k v s = Ret s' \<and> listen_ready s'
      \<and> settings_view s' = (settings_view s)(wk := view_set decode (k, v) (settings_view s wk))"
    and "\<exists>s'. L_Delete (lsc iter Parse ParseRange decode) wk k s = Ret s' \<and> listen_ready s'
      \<and> settings_view s' = (settings_view s)(wk := view_set decode (k, []) (settings_view s wk))"
    using set by (simp_all add: lsc_def)
  show "\<exists>s'. L_Empty (lsc iter Parse ParseRange decode) wk s = Ret s' \<and> listen_ready s' \<and> settings_view s' = (settings_view s)(wk := Map.empty)"
    using set [of "[]" "[]"] by (simp add: lsc_def view_set_def)
qed

section \<open>The exported lists\<close>

definition watched_config :: "listen \<Rightarrow> string \<Rightarrow> string \<Rightarrow> WatchServerInfo option" where
  "watched_config s f n = Option.bind (map_of (outputFileHasKeys s) f) (\<lambda>cfgs. map_of cfgs n)"

definition watched_names :: "listen \<Rightarrow> string \<Rightarrow> string \<Rightarrow> string list option" where
  "watched_names s wk f = Option.bind (map_of (namesWithOutputFile s) wk) (\<lambda>files. map_of files f)"

definition server_list :: "(string list \<Rightarrow> string list) \<Rightarrow> (string \<Rightarrow> 'ver option) \<Rightarrow> (string \<Rightarrow> ('ver \<Rightarrow> bool) option)
    \<Rightarrow> listen \<Rightarrow> WatchServerInfo \<Rightarrow> WriteServerInfo list" where
  "server_list iter Parse ParseRange s cfg =
     map (\<lambda>(k, ni). write_info k ni) (List.filter (\<lambda>(k, ni). expected Parse ParseRange cfg ni)
       (range_map iter (map_or_nil (etcdSettings s) (wsi_Name cfg))))"

lemma iter_ok_props:
  assumes "iter_ok iter"
  shows "set (iter xs) = set xs" and "distinct (iter xs) = distinct xs" and "iter [] = []"
proof -
  have m: "mset (iter ys) = mset ys" for ys using assms by (simp add: iter_ok_def)
  show "set (iter xs) = set xs" using m by (metis set_mset_mset)
  show "distinct (iter xs) = distinct xs" using m by (metis distinct_count_atmost_1 set_mset_mset)
  show "iter [] = []" using m [of "[]"] by simp
qed

lemma set_range_map: "iter_ok iter \<Longrightarrow> (k, v) \<in> set (range_map iter m) \<longleftrightarrow> map_of m k = Some v"
proof -
  assume ok: "iter_ok iter"
  have "(k, v) \<in> set (range_map iter m) \<longleftrightarrow> k \<in> fst ` set m \<and> v = the (map_of m k)"
    by (auto simp: range_map_def iter_ok_props(1) [OF ok])
  also have "\<dots> \<longleftrightarrow> map_of m k = Some v"
    by (metis (no_types, lifting) map_of_eq_None_iff option.collapse option.distinct(1) option.sel)
  finally show ?thesis .
qed

lemma range_map_keys: "map fst (range_map iter m) = iter (map fst m)"
  by (simp add: range_map_def comp_def)

lemma server_list_spec:
  assumes "iter_ok iter" and "settings_ok s"
  shows "set (server_list iter Parse ParseRange s cfg)
      = {write_info k ni | k ni. settings_view s (wsi_Name cfg) k = Some ni \<and> expected Parse ParseRange cfg ni}"
    and "distinct (map Serverkey (server_list iter Parse ParseRange s cfg))"
proof -
  let ?nodes = "map_or_nil (etcdSettings s) (wsi_Name cfg)"
  show "set (server_list iter Parse ParseRange s cfg)
      = {write_info k ni | k ni. settings_view s (wsi_Name cfg) k = Some ni \<and> expected Parse ParseRange cfg ni}"
    by (auto simp: server_list_def set_range_map [OF assms(1)] settings_view_def image_iff) fastforce
  have "distinct (map fst ?nodes)"
    using assms(2) by (auto simp: settings_ok_def map_or_nil_def split: option.split)
  then have "distinct (map fst (range_map iter ?nodes))"
    by (simp add: range_map_keys iter_ok_props(2) [OF assms(1)])
  moreover have "map Serverkey (map (\<lambda>(k, ni). write_info k ni) ps) = map fst ps" for ps
    by (induction ps) (auto simp: write_info_def)
  ultimately show "distinct (map Serverkey (server_list iter Parse ParseRange s cfg))"
    unfolding server_list_def by (simp only: distinct_map_filter)
qed

lemma fold_append_servers:
  "map_of m n = Some base \<Longrightarrow>
   map_of (fold (\<lambda>(k, ni) m. if P ni then AList.update n (map_or_nil m n @ [w k ni]) m else m) ps m) l =
     (if l = n then Some (base @ map (\<lambda>(k, ni). w k ni) (List.filter (\<lambda>(k, ni). P ni) ps)) else map_of m l)"
  by (induction ps arbitrary: m base) (auto simp: update_conv' map_or_nil_def)

lemma refresh_name_map:
  assumes "iter_ok iter"
  shows "map_of (refresh_name iter Parse ParseRange s f n m) l =
    (case watched_config s f n of
       None \<Rightarrow> map_of m l
     | Some cfg \<Rightarrow> if l = n then Some (server_list iter Parse ParseRange s cfg) else map_of m l)"
proof (cases "watched_config s f n")
  case None
  then show ?thesis by (auto simp: watched_config_def refresh_name_def split: option.splits bind_splits)
next
  case (Some cfg)
  then obtain cfgs where c: "map_of (outputFileHasKeys s) f = Some cfgs" "map_of cfgs n = Some cfg"
    by (auto simp: watched_config_def split: bind_splits)
  define m1 where "m1 = AList.update n [] (AList.delete n m)"
  have m1: "map_of m1 k = (if k = n then Some [] else map_of m k)" for k by (simp add: m1_def update_conv' delete_conv')
  show ?thesis
  proof (cases "map_of (etcdSettings s) (wsi_Name cfg)")
    case None
    then show ?thesis
      using c Some m1 by (simp add: refresh_name_def m1_def [symmetric] server_list_def map_or_nil_def range_map_def iter_ok_props(3) [OF assms])
  next
    case nodes: (Some nodes)
    then show ?thesis
      using c Some fold_append_servers [of m1 n "[]" "expected Parse ParseRange cfg" write_info "range_map iter nodes" l] m1
      by (simp add: refresh_name_def m1_def [symmetric] server_list_def map_or_nil_def)
  qed
qed

lemma refresh_names_map:
  assumes "iter_ok iter" and "watched_config s f n = Some cfg" and "n \<in> set ns"
  shows "map_of (fold (refresh_name iter Parse ParseRange s f) ns m) n = Some (server_list iter Parse ParseRange s cfg)"
  using assms(3)
proof (induction ns rule: rev_induct)
  case (snoc x ns)
  then show ?case
    using assms(2) by (cases "x = n") (auto simp: refresh_name_map [OF assms(1)] split: option.split)
qed simp

text \<open>The list of a name in a file: kept and exported last, and equal to the matching servers of the mirror.\<close>

definition exported :: "(string \<Rightarrow> 'ver option) \<Rightarrow> (string \<Rightarrow> ('ver \<Rightarrow> bool) option) \<Rightarrow> listen \<Rightarrow> string \<Rightarrow> string \<Rightarrow> WatchServerInfo \<Rightarrow> bool" where
  "exported Parse ParseRange s f n cfg \<longleftrightarrow>
     (\<exists>m srv. map_of (outputFileMap s) f = Some m \<and> map_of (rev (exports s)) f = Some m \<and> map_of m n = Some srv
       \<and> distinct (map Serverkey srv)
       \<and> set srv = {write_info k ni | k ni. settings_view s (wsi_Name cfg) k = Some ni \<and> expected Parse ParseRange cfg ni})"

definition exports_current :: "(string \<Rightarrow> 'ver option) \<Rightarrow> (string \<Rightarrow> ('ver \<Rightarrow> bool) option) \<Rightarrow> string \<Rightarrow> listen \<Rightarrow> bool" where
  "exports_current Parse ParseRange wk s \<longleftrightarrow>
     (\<forall>f ns n cfg. watched_names s wk f = Some ns \<longrightarrow> n \<in> set ns \<longrightarrow> watched_config s f n = Some cfg
        \<longrightarrow> exported Parse ParseRange s f n cfg)"

lemma refresh_file_exported:
  assumes "iter_ok iter" and "settings_ok s" and "refresh_file iter Parse ParseRange (f, ns) s = Ret s'"
    and "n \<in> set ns" and "watched_config s f n = Some cfg"
  shows "exported Parse ParseRange s' f n cfg"
proof -
  define m where "m = fold (refresh_name iter Parse ParseRange s f) ns (map_or_nil (outputFileMap s) f)"
  have s': "map_of (outputFileMap s') f = Some m" "map_of (rev (exports s')) f = Some m" "etcdSettings s' = etcdSettings s"
    using assms(3) by (auto simp: refresh_file_def Let_def m_def [symmetric] update_conv' split: if_splits)
  have "map_of m n = Some (server_list iter Parse ParseRange s cfg)"
    unfolding m_def by (rule refresh_names_map [OF assms(1,5,4)])
  with s' server_list_spec [OF assms(1,2), of Parse ParseRange cfg] show ?thesis
    unfolding exported_def settings_view_def by simp
qed

lemma refresh_file_other:
  assumes "refresh_file iter Parse ParseRange (g, ns) s = Ret s'" and "f \<noteq> g" and "exported Parse ParseRange s f n cfg"
  shows "exported Parse ParseRange s' f n cfg"
  using assms by (auto simp: refresh_file_def Let_def exported_def settings_view_def update_conv' split: if_splits)

lemma refresh_files_exported:
  assumes "iter_ok iter"
  shows "settings_ok s \<Longrightarrow> go_fold (refresh_file iter Parse ParseRange) ps s = Ret s' \<Longrightarrow>
    (\<And>f ns. (f, ns) \<in> set ps \<Longrightarrow> fileof f = Some ns) \<Longrightarrow>
    (f, ns) \<in> set ps \<or> fileof f = Some ns \<and> exported Parse ParseRange s f n cfg \<Longrightarrow>
    n \<in> set ns \<Longrightarrow> watched_config s f n = Some cfg \<Longrightarrow> exported Parse ParseRange s' f n cfg"
proof (induction ps arbitrary: s)
  case (Cons p ps)
  obtain g ms where p: "p = (g, ms)" by fastforce
  from Cons.prems(2) p obtain s1 where s1: "refresh_file iter Parse ParseRange (g, ms) s = Ret s1"
    "go_fold (refresh_file iter Parse ParseRange) ps s1 = Ret s'" by auto
  note frame = refresh_file_Ret [OF s1(1)]
  have ok1: "settings_ok s1" "watched_config s1 f n = Some cfg"
    using frame Cons.prems(1,6) by (simp_all add: settings_ok_def watched_config_def same_groups_def)
  have file_f: "fileof f = Some ns" using Cons.prems(3,4) by auto
  have "(f, ns) \<in> set ps \<or> fileof f = Some ns \<and> exported Parse ParseRange s1 f n cfg"
  proof (cases "f = g")
    case True
    then have "ms = ns" using Cons.prems(3) [of g ms] p file_f by simp
    with True s1(1) Cons.prems(1,5,6) file_f show ?thesis
      using refresh_file_exported [OF assms, of s Parse ParseRange f ns s1 n cfg] by simp
  next
    case False
    then show ?thesis using Cons.prems(4) p refresh_file_other [OF s1(1) False] by auto
  qed
  with Cons.IH [OF ok1(1) s1(2) _ _ Cons.prems(5) ok1(2)] Cons.prems(3) show ?case by (meson list.set_intros(2))
qed auto

lemma trigger_keys_exports:
  assumes "iter_ok iter" and "settings_ok s" and "tiggerChangesWatchKey iter Parse ParseRange wk s = Ret s'"
  shows "exports_current Parse ParseRange wk s'"
  unfolding exports_current_def
proof (intro allI impI)
  fix f ns n cfg
  assume w: "watched_names s' wk f = Some ns" "n \<in> set ns" "watched_config s' f n = Some cfg"
  note frame = trigger_keys_Ret [OF assms(3)]
  from w(1) frame obtain files where files: "map_of (namesWithOutputFile s) wk = Some files" "map_of files f = Some ns"
    by (auto simp: watched_names_def same_groups_def split: bind_splits)
  have "watched_config s f n = Some cfg" using w(3) frame by (simp add: watched_config_def same_groups_def)
  moreover have "go_fold (refresh_file iter Parse ParseRange) (range_map iter files) s = Ret s'"
    using assms(3) files by (simp add: tiggerChangesWatchKey_def)
  ultimately show "exported Parse ParseRange s' f n cfg"
    using w(2) files(2)
    by (intro refresh_files_exported [OF assms(1,2), where fileof = "map_of files" and f = f and ns = ns])
      (auto simp: set_range_map [OF assms(1)])
qed

lemma notify_exports:
  assumes "iter_ok iter" and "listen_ready s" and "exports_current Parse ParseRange wk s" and "same_groups s0 s"
    and "notify (lsc iter Parse ParseRange decode) wk e s = Ret s'"
  shows "listen_ready s' \<and> exports_current Parse ParseRange wk s' \<and> same_groups s0 s'"
proof (cases "e = OtherEvent")
  case False
  then obtain k v where t: "tiggerChangesWatchKey iter Parse ParseRange wk (tiggerChangeWatchKeyValue decode wk k v s) = Ret s'"
    using assms(5) by (cases e) (auto simp: lsc_def)
  define s1 where "s1 = tiggerChangeWatchKeyValue decode wk k v s"
  have s1: "listen_ready s1" "same_groups s s1" using trigger_value_ready [OF assms(2)] trigger_value_groups by (simp_all add: s1_def)
  then have "exports_current Parse ParseRange wk s'"
    using trigger_keys_exports [OF assms(1) _ t] by (simp add: s1_def listen_ready_def)
  moreover have "same_groups s1 s'" "listen_ready s'"
    using trigger_keys_Ret [OF t] s1 by (simp_all add: s1_def [symmetric] listen_ready_def same_groups_def settings_ok_def)
  ultimately show ?thesis using s1(2) assms(4) by (blast intro: same_groups_trans)
qed (use assms in simp)

lemma loop_exports:
  assumes "iter_ok iter"
  shows "listen_ready s \<Longrightarrow> exports_current Parse ParseRange wk s \<Longrightarrow> same_groups s0 s \<Longrightarrow>
    watch_loop (lsc iter Parse ParseRange decode) wk ms s = Ret (s', st) \<Longrightarrow>
    exports_current Parse ParseRange wk s' \<and> same_groups s0 s'"
proof (induction "lsc iter Parse ParseRange decode" wk ms s rule: watch_loop.induct)
  case (4 wk evs ms s)
  then obtain s1 where s1: "go_fold (notify (lsc iter Parse ParseRange decode) wk) evs s = Ret s1"
    "watch_loop (lsc iter Parse ParseRange decode) wk ms s1 = Ret (s', st)" by auto
  have "listen_ready s1 \<and> exports_current Parse ParseRange wk s1 \<and> same_groups s0 s1"
    using s1(1)
  proof (rule go_fold_invariant [where P = "\<lambda>t. listen_ready t \<and> exports_current Parse ParseRange wk t \<and> same_groups s0 t"])
    show "listen_ready s \<and> exports_current Parse ParseRange wk s \<and> same_groups s0 s" using 4 by simp
  qed (use notify_exports [OF assms] in blast)
  then show ?case using 4(1) [OF s1(1)] s1(2) by blast
qed auto

lemma initial_exports:
  assumes "iter_ok iter" and "listen_ready s" and "watch_initial (lsc iter Parse ParseRange decode) wk kvs s = Ret s1"
  shows "listen_ready s1 \<and> exports_current Parse ParseRange wk s1 \<and> same_groups s s1"
proof -
  obtain t where t: "tiggerChangesWatchKey iter Parse ParseRange wk t = Ret s1" "listen_ready t" "same_groups s t"
  proof (cases "kvs = []")
    case True
    then show thesis
      using assms(3) that [of "tiggerChangeWatchKeyValue decode wk [] [] s"] trigger_value_ready [OF assms(2)] trigger_value_groups
      by (simp add: watch_initial_def lsc_def)
  next
    case False
    with assms(3) obtain t where t: "go_fold (\<lambda>(k, v). L_Set (lsc iter Parse ParseRange decode) wk k v) kvs s = Ret t"
      "tiggerChangesWatchKey iter Parse ParseRange wk t = Ret s1"
      by (auto simp: watch_initial_def lsc_def)
    from t(1) have "listen_ready t \<and> same_groups s t"
    proof (rule go_fold_invariant [where P = "\<lambda>t. listen_ready t \<and> same_groups s t"])
      fix p u u'
      assume u: "listen_ready u \<and> same_groups s u"
        "(case p of (k, v) \<Rightarrow> L_Set (lsc iter Parse ParseRange decode) wk k v) u = Ret u'"
      then obtain k v where "u' = tiggerChangeWatchKeyValue decode wk k v u" by (cases p) (auto simp: lsc_def)
      with u(1) show "listen_ready u' \<and> same_groups s u'"
        using trigger_value_ready trigger_value_groups by (blast intro: same_groups_trans)
    qed (simp add: assms(2))
    with t(2) that show thesis by blast
  qed
  from trigger_keys_exports [OF assms(1) _ t(1)] trigger_keys_Ret [OF t(1)] t(2,3) show ?thesis
    by (auto simp: listen_ready_def same_groups_def settings_ok_def)
qed

text \<open>C5: a watch of a key that the listener did not hold before keeps the listener up to date with what etcd reports: after the first answer and
  any delivered events the mirror below the key is what the reports leave one after another, where a value that decodes is stored, an
  empty value removes its key, a value that does not decode leaves the node that the key had before, and an empty key clears the mirror. So when all keys and
  values are not empty and all values decode, the mirror is the decoded content of the store of etcd. And for every group that
  watches the key, the list it exported last for each name holds exactly the servers of the mirror whose version lies in the
  range of that name.\<close>

theorem watch_mirrors_and_exports:
  assumes "iter_ok iter" and "listen_ready s" and "settings_view s wk = Map.empty" and "delivering ms"
  shows "\<exists>s'. watch (lsc iter Parse ParseRange decode) wk (Inr kvs) ms s = Ret (s', Waiting)
    \<and> settings_view s' wk = fold (view_event decode) (concat (map resp_events ms)) (fold (view_set decode) kvs Map.empty)
    \<and> (list_all (event_ok decode) (map (\<lambda>(k, v). Created k v) kvs @ concat (map resp_events ms)) \<longrightarrow>
        settings_view s' wk = decoded decode (fold etcd_apply (concat (map resp_events ms)) (fold (\<lambda>(k, v) m. m(k \<mapsto> v)) kvs Map.empty)))
    \<and> exports_current Parse ParseRange wk s' \<and> same_groups s s'"
proof -
  from lsc.watch_view [where iter = iter and Parse = Parse and ParseRange = ParseRange and decode = decode, OF assms(2,4)] obtain s' where
    "watch (lsc iter Parse ParseRange decode) wk (Inr kvs) ms s = Ret (s', Waiting)"
    "settings_view s' = (settings_view s)(wk := fold (view_event decode) (concat (map resp_events ms))
        (if kvs = [] then Map.empty else fold (view_set decode) kvs (settings_view s wk)))"
    by blast
  then have s': "watch (lsc iter Parse ParseRange decode) wk (Inr kvs) ms s = Ret (s', Waiting)"
    "settings_view s' wk = fold (view_event decode) (concat (map resp_events ms)) (fold (view_set decode) kvs Map.empty)"
    by (cases "kvs = []"; simp add: assms(3))+
  have "settings_view s' wk = decoded decode (fold etcd_apply (concat (map resp_events ms)) (fold (\<lambda>(k, v) m. m(k \<mapsto> v)) kvs Map.empty))"
    if ok: "list_all (event_ok decode) (map (\<lambda>(k, v). Created k v) kvs @ concat (map resp_events ms))"
  proof -
    have "list_all (\<lambda>(k, v). event_ok decode (Created k v)) kvs" using ok by (auto simp: list.pred_map comp_def case_prod_beta')
    from view_sets_decoded [OF this, of Map.empty] view_events_decoded [of decode "concat (map resp_events ms)"] ok s'(2)
    show ?thesis by simp
  qed
  moreover from s'(1) obtain s1 where s1: "watch_initial (lsc iter Parse ParseRange decode) wk kvs s = Ret s1"
    "watch_loop (lsc iter Parse ParseRange decode) wk ms s1 = Ret (s', Waiting)" by (auto simp: watch_def)
  moreover have "listen_ready s1 \<and> exports_current Parse ParseRange wk s1 \<and> same_groups s s1"
    by (rule initial_exports [OF assms(1,2) s1(1)])
  ultimately show ?thesis using loop_exports [OF assms(1) _ _ _ s1(2)] s' by blast
qed

text \<open>C24: what the listener held for a key before is not cleared by a new watch whose first answer has pairs: a node that
  left etcd while the key was not watched stays in the mirror.\<close>

theorem rewatch_keeps_stale:
  assumes "listen_ready s" and "settings_view s wk = decoded decode old" and "old k = Some v" and "k \<notin> fst ` set kvs"
    and "kvs \<noteq> []" and "list_all (\<lambda>(k, v). event_ok decode (Created k v)) kvs"
  shows "\<exists>s'. watch (lsc iter Parse ParseRange decode) wk (Inr kvs) [] s = Ret (s', Waiting)
    \<and> settings_view s' wk k = decode v"
proof -
  have "fold (\<lambda>(k, v) m. m(k \<mapsto> v)) kvs old k = Some v"
    using assms(3,4) by (induction kvs arbitrary: old) auto
  with lsc.watch_view [where iter = iter and Parse = Parse and ParseRange = ParseRange and decode = decode, OF assms(1), of "[]"] assms(2,5)
    view_sets_decoded [OF assms(6), of old]
  show ?thesis by (fastforce simp: delivering_def decoded_def)
qed

section \<open>The index of watched names\<close>

text \<open>The names of a group that are about a key.\<close>

definition names_about :: "listen \<Rightarrow> string \<Rightarrow> string \<Rightarrow> string set" where
  "names_about s wk f = {n. \<exists>cfg. watched_config s f n = Some cfg \<and> wsi_Name cfg = wk}"

definition index_ok :: "listen \<Rightarrow> bool" where
  "index_ok s \<longleftrightarrow>
     (\<forall>wk f. case watched_names s wk f of
        None \<Rightarrow> names_about s wk f = {}
      | Some ns \<Rightarrow> ns \<noteq> [] \<and> distinct ns \<and> set ns = names_about s wk f)
   \<and> (\<forall>wk. map_of (namesWithOutputFile s) wk \<noteq> Some [])
   \<and> (\<forall>f cfgs. map_of (outputFileHasKeys s) f = Some cfgs \<longrightarrow> distinct (map fst cfgs))"

definition find2 :: "(string \<times> (string \<times> 'a) list) list \<Rightarrow> string \<Rightarrow> string \<Rightarrow> 'a option" where
  "find2 m a b = Option.bind (map_of m a) (\<lambda>x. map_of x b)"

lemma watched_names_find2: "watched_names s wk f = find2 (namesWithOutputFile s) wk f"
  by (simp add: watched_names_def find2_def)

lemma find2_map_or_nil: "find2 m a b = map_of (map_or_nil m a) b"
  by (simp add: find2_def map_or_nil_def split: option.split)

lemma add_name_eq:
  "add_name f (n, w) names =
     AList.update (wsi_Name w) (AList.update f (map_or_nil (map_or_nil names (wsi_Name w)) f @ [n]) (map_or_nil names (wsi_Name w))) names"
  by (simp add: add_name_def Let_def)

lemma fold_add_name:
  "find2 (fold (add_name f) ps names) wk g =
     (if g = f \<and> (\<exists>p \<in> set ps. wsi_Name (snd p) = wk)
      then Some (map_or_nil (map_or_nil names wk) f @ map fst (List.filter (\<lambda>p. wsi_Name (snd p) = wk) ps))
      else find2 names wk g)"
proof (induction ps arbitrary: names)
  case (Cons p ps)
  obtain n w where p: "p = (n, w)" by fastforce
  show ?case by (simp only: p fold_simps Cons.IH) (auto simp: add_name_eq find2_map_or_nil update_conv')
qed simp

lemma fold_add_name_nonempty:
  "(\<And>wk. map_of names wk \<noteq> Some []) \<Longrightarrow> map_of (fold (add_name f) ps names) wk \<noteq> Some []"
proof (induction ps arbitrary: names)
  case (Cons p ps)
  obtain n w where p: "p = (n, w)" by fastforce
  have "AList.update f x m \<noteq> []" for x :: "string list" and m by (cases m) auto
  then have "map_of (add_name f (n, w) names) wk \<noteq> Some []" for wk
    using Cons.prems by (simp add: add_name_eq update_conv')
  then show ?case using Cons.IH p by simp
qed simp

lemma index_okD:
  assumes "index_ok s"
  shows "case watched_names s wk f of None \<Rightarrow> names_about s wk f = {}
    | Some ns \<Rightarrow> ns \<noteq> [] \<and> distinct ns \<and> set ns = names_about s wk f"
    and "map_of (namesWithOutputFile s) wk \<noteq> Some []"
    and "map_of (outputFileHasKeys s) f = Some cfgs \<Longrightarrow> distinct (map fst cfgs)"
  using assms by (simp_all add: index_ok_def)

text \<open>The names of a group that are about a key, in the order in which adding the group visits them.\<close>

definition group_names :: "(string list \<Rightarrow> string list) \<Rightarrow> (string \<times> WatchServerInfo) list \<Rightarrow> string \<Rightarrow> string list" where
  "group_names iter wsi wk = map fst (List.filter (\<lambda>p. wsi_Name (snd p) = wk) (range_map iter wsi))"

lemma group_names_spec:
  assumes "iter_ok iter"
  shows "set (group_names iter wsi wk) = {n. \<exists>cfg. map_of wsi n = Some cfg \<and> wsi_Name cfg = wk}"
    and "distinct (map fst wsi) \<Longrightarrow> distinct (group_names iter wsi wk)"
proof -
  show "set (group_names iter wsi wk) = {n. \<exists>cfg. map_of wsi n = Some cfg \<and> wsi_Name cfg = wk}"
    by (auto simp: group_names_def set_range_map [OF assms] image_iff)
  show "distinct (map fst wsi) \<Longrightarrow> distinct (group_names iter wsi wk)"
    unfolding group_names_def by (intro distinct_map_filter) (simp add: range_map_keys iter_ok_props(2) [OF assms])
qed

lemma AddGroupWatchs_effect:
  assumes "index_ok s" and "AddGroupWatchs iter wsi f s = (None, s')"
  shows "map_of (outputFileHasKeys s) f = None"
    and "outputFileHasKeys s' = AList.update f wsi (outputFileHasKeys s)"
    and "namesWithOutputFile s' = fold (add_name f) (range_map iter wsi) (namesWithOutputFile s)"
    and "watched_names s' wk g =
      (if g = f then (if group_names iter wsi wk = [] then None else Some (group_names iter wsi wk)) else watched_names s wk g)"
proof -
  show none: "map_of (outputFileHasKeys s) f = None" and "outputFileHasKeys s' = AList.update f wsi (outputFileHasKeys s)"
    and names: "namesWithOutputFile s' = fold (add_name f) (range_map iter wsi) (namesWithOutputFile s)"
    using assms(2) by (auto simp: AddGroupWatchs_def split: option.splits)
  have "names_about s wk f = {}" using none by (simp add: names_about_def watched_config_def)
  with index_okD(1) [OF assms(1), of wk f] have old: "watched_names s wk f = None" by (auto split: option.splits)
  then have "map_or_nil (map_or_nil (namesWithOutputFile s) wk) f = []"
    unfolding watched_names_find2 find2_map_or_nil by (simp add: map_or_nil_def)
  with old show "watched_names s' wk g =
      (if g = f then (if group_names iter wsi wk = [] then None else Some (group_names iter wsi wk)) else watched_names s wk g)"
    unfolding watched_names_find2 names fold_add_name group_names_def by (auto simp: filter_empty_conv)
qed

lemma AddGroupWatchs_index_ok:
  assumes "iter_ok iter" and "index_ok s" and "distinct (map fst wsi)" and "AddGroupWatchs iter wsi f s = (None, s')"
  shows "index_ok s'"
proof -
  note effect = AddGroupWatchs_effect [OF assms(2,4)]
  have about: "names_about s' wk g = (if g = f then set (group_names iter wsi wk) else names_about s wk g)" for wk g
    by (simp add: names_about_def watched_config_def effect(2) update_conv' group_names_spec(1) [OF assms(1)])
  show ?thesis
    unfolding index_ok_def
  proof (intro conjI allI)
    fix wk g
    show "case watched_names s' wk g of None \<Rightarrow> names_about s' wk g = {}
      | Some ns \<Rightarrow> ns \<noteq> [] \<and> distinct ns \<and> set ns = names_about s' wk g"
      unfolding effect(4) about using index_okD(1) [OF assms(2), of wk g] group_names_spec(2) [OF assms(1,3)]
      by (cases "g = f") simp_all
    show "map_of (namesWithOutputFile s') wk \<noteq> Some []"
      unfolding effect(3) by (intro fold_add_name_nonempty index_okD(2) [OF assms(2)])
  qed (use index_okD(3) [OF assms(2)] assms(3) in \<open>auto simp: effect(2) update_conv'\<close>)
qed

text \<open>C25: the index from a watched key to the names that use it is exact: adding a group keeps it so, refuses a group that is
  there already without any change, and otherwise adds exactly the names of the new group.\<close>

theorem AddGroupWatchs_index:
  assumes "iter_ok iter" and "index_ok s" and "distinct (map fst wsi)"
  shows "case AddGroupWatchs iter wsi f s of
      (Some e, s') \<Rightarrow> s' = s \<and> map_of (outputFileHasKeys s) f \<noteq> None
    | (None, s') \<Rightarrow> map_of (outputFileHasKeys s) f = None \<and> index_ok s' \<and> map_of (outputFileHasKeys s') f = Some wsi
        \<and> (\<forall>g wk. g \<noteq> f \<longrightarrow> watched_names s' wk g = watched_names s wk g)"
proof (cases "map_of (outputFileHasKeys s) f")
  case (Some cfgs)
  then show ?thesis by (simp add: AddGroupWatchs_def)
next
  case None
  then obtain s' where s': "AddGroupWatchs iter wsi f s = (None, s')" by (simp add: AddGroupWatchs_def)
  with AddGroupWatchs_effect [OF assms(2) s'] AddGroupWatchs_index_ok [OF assms s'] show ?thesis by (simp add: update_conv')
qed

lemma Contains_from_notin: "n \<notin> set ns \<Longrightarrow> Contains_from i ns n = -1"
  by (induction ns arbitrary: i) auto

lemma Contains_from_in:
  "n \<in> set ns \<Longrightarrow> \<exists>k < length ns. Contains_from (int i) ns n = int (i + k) \<and> n = ns ! k \<and> n \<notin> set (take k ns)"
proof (induction ns arbitrary: i)
  case (Cons x ns)
  show ?case
  proof (cases "x = n")
    case False
    with Cons obtain k where "k < length ns" "Contains_from (int (Suc i)) ns n = int (Suc i + k)" "n = ns ! k" "n \<notin> set (take k ns)"
      by fastforce
    with False show ?thesis by (intro exI [of _ "Suc k"]) (simp add: add.commute)
  qed auto
qed simp

lemma drop_after_Contains:
  assumes "n \<in> set ns" and "distinct ns"
  shows "Contains_string ns n \<noteq> -1"
    and "set (drop (nat (Contains_string ns n + 1)) ns) \<subseteq> set ns - {n}"
    and "distinct (drop (nat (Contains_string ns n + 1)) ns)"
proof -
  from Contains_from_in [OF assms(1), of 0] obtain k where k: "k < length ns" "Contains_string ns n = int k" "n = ns ! k"
    by (auto simp: Contains_string_def)
  show "Contains_string ns n \<noteq> -1" using k by simp
  have d: "drop (nat (Contains_string ns n + 1)) ns = drop (Suc k) ns" using k by (simp add: nat_add_distrib)
  have "distinct (drop k ns)" using assms(2) by (rule distinct_drop)
  moreover have "drop k ns = n # drop (Suc k) ns" using k by (simp add: Cons_nth_drop_Suc)
  ultimately have "n \<notin> set (drop (Suc k) ns)" by simp
  then show "set (drop (nat (Contains_string ns n + 1)) ns) \<subseteq> set ns - {n}"
    unfolding d using set_drop_subset [of "Suc k" ns] by blast
  show "distinct (drop (nat (Contains_string ns n + 1)) ns)" unfolding d using assms(2) by (rule distinct_drop)
qed

text \<open>The list of a name's file without what the loop cuts off: the name and everything before it.\<close>

definition cut_name :: "string \<Rightarrow> string list \<Rightarrow> string list" where
  "cut_name n l = (if Contains_string l n \<noteq> -1 then drop (nat (Contains_string l n + 1)) l else l)"

lemma cut_name_props:
  assumes "distinct l"
  shows "distinct (cut_name n l)" and "set (cut_name n l) \<subseteq> set l - {n}"
proof -
  have "Contains_string l n = -1" if "n \<notin> set l" using that by (simp add: Contains_string_def Contains_from_notin)
  then show "distinct (cut_name n l)" and "set (cut_name n l) \<subseteq> set l - {n}"
    using drop_after_Contains [OF _ assms, of n] assms by (cases "n \<in> set l"; auto simp: cut_name_def)+
qed

text \<open>The state of the loop that empties a group: the names still to visit cover what the index holds for the group.\<close>

definition names_left :: "(string \<times> WatchServerInfo) list \<Rightarrow> string \<Rightarrow> string set" where
  "names_left ps wk = fst ` {p \<in> set ps. wsi_Name (snd p) = wk}"

lemma names_left_simps [simp]:
  "names_left [] wk = {}" "names_left ((n, w) # ps) wk = (if wsi_Name w = wk then insert n (names_left ps wk) else names_left ps wk)"
  by (auto simp: names_left_def image_iff)

definition emptying :: "string \<Rightarrow> (string \<times> WatchServerInfo) list \<Rightarrow> listen \<Rightarrow> bool" where
  "emptying f ps s \<longleftrightarrow>
     (\<forall>wk ns. watched_names s wk f = Some ns \<longrightarrow> ns \<noteq> [] \<and> distinct ns \<and> set ns \<subseteq> names_left ps wk)
   \<and> (\<forall>wk. map_of (namesWithOutputFile s) wk \<noteq> Some [])"

lemma drop_name_map:
  "find2 (drop_name f n name names) wk g =
     (if wk = name \<and> g = f then
        (case find2 names name f of None \<Rightarrow> None | Some l \<Rightarrow> if cut_name n l = [] then None else Some (cut_name n l))
      else find2 names wk g)"
proof (cases "map_of names name")
  case None
  then show ?thesis by (simp add: drop_name_def find2_def map_or_nil_def)
next
  case (Some v)
  then show ?thesis
    by (cases "map_of v f")
      (auto simp: drop_name_def find2_def map_or_nil_def update_conv' delete_conv' Let_def cut_name_def)
qed

lemma drop_name_other: "wk \<noteq> name \<Longrightarrow> map_of (drop_name f n name names) wk = map_of names wk"
  by (auto simp: drop_name_def update_conv' Let_def split: option.split)

definition groups_frame :: "listen \<Rightarrow> listen \<Rightarrow> bool" where
  "groups_frame s s' \<longleftrightarrow> outputFileHasKeys s' = outputFileHasKeys s \<and> outputFileMap s' = outputFileMap s
    \<and> etcdSettings s' = etcdSettings s \<and> lsio s' = lsio s \<and> exports s' = exports s"

text \<open>A key is watched after the group is gone exactly when it was and some other group uses it.\<close>

definition watched_after :: "EtcdWatcher \<Rightarrow> string set \<Rightarrow> listen \<Rightarrow> bool" where
  "watched_after ew wks s \<longleftrightarrow> (\<exists>ew'. etcdw s = Some ew' \<and> (\<forall>k. map_of (closeHandler ew') k =
     (if k \<in> wks \<and> map_of (namesWithOutputFile s) k = None then None else map_of (closeHandler ew) k)))"

lemma RemoveWatch_map: "map_of (closeHandler (snd (RemoveWatch k m))) l = (if l = k then None else map_of (closeHandler m) l)"
  by (simp add: RemoveWatch_def delete_conv' split: option.split)

lemma watched_after_trans:
  assumes "watched_after ew A s1" and "etcdw s1 = Some ew1" and "watched_after ew1 B s2"
    and "\<And>k. k \<in> A \<Longrightarrow> map_of (namesWithOutputFile s1) k = None \<Longrightarrow> map_of (namesWithOutputFile s2) k = None"
    and "\<And>k. k \<notin> B \<Longrightarrow> map_of (namesWithOutputFile s2) k = map_of (namesWithOutputFile s1) k"
  shows "watched_after ew (A \<union> B) s2"
proof -
  have 1: "map_of (closeHandler ew1) k =
      (if k \<in> A \<and> map_of (namesWithOutputFile s1) k = None then None else map_of (closeHandler ew) k)" for k
    using assms(1,2) by (auto simp: watched_after_def)
  from assms(3) obtain ew2 where 2: "etcdw s2 = Some ew2" "\<And>k. map_of (closeHandler ew2) k =
      (if k \<in> B \<and> map_of (namesWithOutputFile s2) k = None then None else map_of (closeHandler ew1) k)"
    unfolding watched_after_def by blast
  have "map_of (closeHandler ew2) k =
      (if k \<in> A \<union> B \<and> map_of (namesWithOutputFile s2) k = None then None else map_of (closeHandler ew) k)" for k
    unfolding 2(2) 1 using assms(4,5) [of k] by (cases "k \<in> A"; cases "k \<in> B") simp_all
  with 2(1) show ?thesis by (simp add: watched_after_def)
qed

text \<open>One turn of the loop.\<close>

lemma empty_name_effect:
  assumes "etcdw s = Some ew"
  shows "\<exists>s'. empty_name f (n, w) s = Ret s' \<and> groups_frame s s' \<and> watched_after ew {wsi_Name w} s'
    \<and> (\<forall>wk g. watched_names s' wk g =
      (if wk = wsi_Name w \<and> g = f then
         (case watched_names s wk f of None \<Rightarrow> None | Some l \<Rightarrow> if cut_name n l = [] then None else Some (cut_name n l))
       else watched_names s wk g))
    \<and> (\<forall>wk. wk \<noteq> wsi_Name w \<longrightarrow> map_of (namesWithOutputFile s') wk = map_of (namesWithOutputFile s) wk)
    \<and> map_of (namesWithOutputFile s') (wsi_Name w) \<noteq> Some []"
proof -
  define name where "name = wsi_Name w"
  define names2 where "names2 = drop_name f n name (namesWithOutputFile s)"
  define names3 where "names3 = (if length (map_or_nil names2 name) = 0 then AList.delete name names2 else names2)"
  define ew' where "ew' = (if length (map_or_nil names2 name) = 0 then snd (RemoveWatch name ew) else ew)"
  define s' where "s' = s\<lparr>namesWithOutputFile := names3, etcdw := Some ew'\<rparr>"
  have step: "empty_name f (n, w) s = Ret s'"
    using assms by (simp add: empty_name_def name_def [symmetric] names2_def [symmetric] names3_def ew'_def s'_def Let_def)
  have f3: "find2 names3 wk g = find2 names2 wk g" for wk g by (simp add: names3_def find2_map_or_nil)
  have gone: "map_of names3 name = None \<longleftrightarrow> length (map_or_nil names2 name) = 0"
    by (auto simp: names3_def delete_conv' map_or_nil_def split: option.splits)
  have "watched_after ew {name} s'"
    using gone unfolding watched_after_def s'_def ew'_def by (auto simp: RemoveWatch_map)
  moreover have "map_of names3 name \<noteq> Some []" by (auto simp: names3_def delete_conv' map_or_nil_def)
  moreover have "map_of names3 wk = map_of (namesWithOutputFile s) wk" if "wk \<noteq> name" for wk
    using that by (simp add: names3_def delete_conv' names2_def drop_name_other)
  moreover have "watched_names s' wk g = find2 names2 wk g" for wk g by (simp add: watched_names_find2 s'_def f3)
  ultimately show ?thesis
    using step unfolding names2_def drop_name_map watched_names_find2 [symmetric] name_def
    by (intro exI [of _ s'] conjI) (simp_all add: s'_def groups_frame_def)
qed

lemma empty_step:
  assumes "emptying f ((n, w) # ps) s" and "etcdw s = Some ew"
  shows "\<exists>s'. empty_name f (n, w) s = Ret s' \<and> emptying f ps s' \<and> groups_frame s s'
    \<and> (\<forall>wk g. g \<noteq> f \<longrightarrow> watched_names s' wk g = watched_names s wk g) \<and> watched_after ew {wsi_Name w} s'
    \<and> (\<forall>wk. wk \<noteq> wsi_Name w \<longrightarrow> map_of (namesWithOutputFile s') wk = map_of (namesWithOutputFile s) wk)"
proof -
  obtain s' where s': "empty_name f (n, w) s = Ret s'" "groups_frame s s'"
    "watched_after ew {wsi_Name w} s'"
    "\<And>wk g. watched_names s' wk g =
      (if wk = wsi_Name w \<and> g = f then
         (case watched_names s wk f of None \<Rightarrow> None | Some l \<Rightarrow> if cut_name n l = [] then None else Some (cut_name n l))
       else watched_names s wk g)"
    "\<And>wk. wk \<noteq> wsi_Name w \<Longrightarrow> map_of (namesWithOutputFile s') wk = map_of (namesWithOutputFile s) wk"
    "map_of (namesWithOutputFile s') (wsi_Name w) \<noteq> Some []"
    using empty_name_effect [OF assms(2), of f n w] by blast
  have old: "ms \<noteq> [] \<and> distinct ms \<and> set ms \<subseteq> names_left ((n, w) # ps) wk" if "watched_names s wk f = Some ms" for wk ms
    using assms(1) that by (simp add: emptying_def)
  have "ns \<noteq> [] \<and> distinct ns \<and> set ns \<subseteq> names_left ps wk" if ns: "watched_names s' wk f = Some ns" for wk ns
  proof (cases "wk = wsi_Name w")
    case True
    with ns obtain l where l: "watched_names s wk f = Some l" "ns = cut_name n l" "ns \<noteq> []"
      by (auto simp: s'(4) split: option.splits if_splits)
    with old [OF l(1)] cut_name_props [of l n] True show ?thesis by auto
  next
    case False
    with ns old [of wk ns] show ?thesis by (simp add: s'(4))
  qed
  moreover have "map_of (namesWithOutputFile s') wk \<noteq> Some []" for wk
    using assms(1) s'(5,6) by (cases "wk = wsi_Name w") (auto simp: emptying_def)
  ultimately have "emptying f ps s'" by (simp add: emptying_def)
  with s' show ?thesis by auto
qed

lemma find2_None:
  assumes "\<And>g. watched_names s wk g = None" and "map_of (namesWithOutputFile s) wk \<noteq> Some []"
  shows "map_of (namesWithOutputFile s) wk = None"
proof (rule ccontr)
  assume "map_of (namesWithOutputFile s) wk \<noteq> None"
  then obtain v where v: "map_of (namesWithOutputFile s) wk = Some v" by blast
  then have "\<forall>g. map_of v g = None" using assms(1) by (simp add: watched_names_def)
  then have "v = []" by (rule iffD2 [OF alist_empty])
  with v assms(2) show False by simp
qed

lemma emptied_None: "emptying f [] s \<Longrightarrow> watched_names s wk f = None"
  by (cases "watched_names s wk f") (auto simp: emptying_def)

lemma empty_loop:
  "emptying f ps s \<Longrightarrow> etcdw s = Some ew \<Longrightarrow>
   \<exists>s'. go_fold (empty_name f) ps s = Ret s' \<and> emptying f [] s' \<and> groups_frame s s'
    \<and> (\<forall>wk g. g \<noteq> f \<longrightarrow> watched_names s' wk g = watched_names s wk g)
    \<and> watched_after ew ((\<lambda>p. wsi_Name (snd p)) ` set ps) s'
    \<and> (\<forall>wk. wk \<notin> (\<lambda>p. wsi_Name (snd p)) ` set ps \<longrightarrow> map_of (namesWithOutputFile s') wk = map_of (namesWithOutputFile s) wk)"
proof (induction ps arbitrary: s ew)
  case Nil
  then show ?case by (simp add: groups_frame_def watched_after_def)
next
  case (Cons p ps)
  obtain n w where p: "p = (n, w)" by fastforce
  from empty_step [OF Cons.prems(1) [unfolded p] Cons.prems(2)] obtain s1 where s1: "empty_name f (n, w) s = Ret s1" "emptying f ps s1"
    "groups_frame s s1" "\<forall>wk g. g \<noteq> f \<longrightarrow> watched_names s1 wk g = watched_names s wk g" "watched_after ew {wsi_Name w} s1"
    "\<forall>wk. wk \<noteq> wsi_Name w \<longrightarrow> map_of (namesWithOutputFile s1) wk = map_of (namesWithOutputFile s) wk" by blast
  from s1(5) obtain ew1 where ew1: "etcdw s1 = Some ew1" by (auto simp: watched_after_def)
  from Cons.IH [OF s1(2) ew1] obtain s2 where s2: "go_fold (empty_name f) ps s1 = Ret s2" "emptying f [] s2" "groups_frame s1 s2"
    "\<forall>wk g. g \<noteq> f \<longrightarrow> watched_names s2 wk g = watched_names s1 wk g"
    "watched_after ew1 ((\<lambda>p. wsi_Name (snd p)) ` set ps) s2"
    "\<forall>wk. wk \<notin> (\<lambda>p. wsi_Name (snd p)) ` set ps \<longrightarrow> map_of (namesWithOutputFile s2) wk = map_of (namesWithOutputFile s1) wk" by blast
  have "watched_after ew ({wsi_Name w} \<union> (\<lambda>p. wsi_Name (snd p)) ` set ps) s2"
  proof (rule watched_after_trans [OF s1(5) ew1 s2(5)])
    fix k
    assume none: "map_of (namesWithOutputFile s1) k = None"
    have "watched_names s2 k g = None" for g
      using emptied_None [OF s2(2)] s2(4) none by (cases "g = f") (simp_all add: watched_names_def)
    then show "map_of (namesWithOutputFile s2) k = None" using s2(2) by (intro find2_None) (simp_all add: emptying_def)
  qed (use s2(6) in blast)
  with s1 s2 p show ?case by (auto simp: groups_frame_def)
qed

lemma EmptyGroupWatchs_loop:
  assumes "iter_ok iter" and "index_ok s" and "etcdw s = Some ew" and "map_of (outputFileHasKeys s) f = Some cfgs"
  shows "\<exists>s'. EmptyGroupWatchs iter f s = Ret s' \<and> emptying f [] s'
    \<and> outputFileHasKeys s' = AList.delete f (outputFileHasKeys s) \<and> outputFileMap s' = AList.delete f (outputFileMap s)
    \<and> (\<forall>wk g. g \<noteq> f \<longrightarrow> watched_names s' wk g = watched_names s wk g)
    \<and> watched_after ew {wk. names_about s wk f \<noteq> {}} s'"
proof -
  define s1 where "s1 = s\<lparr>outputFileMap := AList.delete f (outputFileMap s), outputFileHasKeys := AList.delete f (outputFileHasKeys s)\<rparr>"
  have e: "EmptyGroupWatchs iter f s = go_fold (empty_name f) (range_map iter cfgs) s1"
    using assms(4) by (simp add: EmptyGroupWatchs_def s1_def)
  have same: "watched_names s1 wk g = watched_names s wk g" for wk g by (simp add: watched_names_def s1_def)
  have about: "names_about s wk f = names_left (range_map iter cfgs) wk" for wk
  proof -
    have "n \<in> names_left (range_map iter cfgs) wk \<longleftrightarrow> (\<exists>c. (n, c) \<in> set (range_map iter cfgs) \<and> wsi_Name c = wk)" for n
      unfolding names_left_def by force
    then show ?thesis
      using assms(4) by (auto simp: names_about_def watched_config_def set_range_map [OF assms(1)])
  qed
  have "ns \<noteq> [] \<and> distinct ns \<and> set ns \<subseteq> names_left (range_map iter cfgs) wk" if "watched_names s1 wk f = Some ns" for wk ns
    using index_okD(1) [OF assms(2), of wk f] that by (simp add: same about)
  then have "emptying f (range_map iter cfgs) s1"
    using index_okD(2) [OF assms(2)] by (simp add: emptying_def s1_def)
  from empty_loop [OF this, of ew] assms(3) obtain s' where s': "go_fold (empty_name f) (range_map iter cfgs) s1 = Ret s'"
    "emptying f [] s'" "groups_frame s1 s'" "\<forall>wk g. g \<noteq> f \<longrightarrow> watched_names s' wk g = watched_names s1 wk g"
    "watched_after ew ((\<lambda>p. wsi_Name (snd p)) ` set (range_map iter cfgs)) s'"
    by (auto simp: s1_def)
  moreover have "(\<lambda>p. wsi_Name (snd p)) ` set (range_map iter cfgs) = {wk. names_about s wk f \<noteq> {}}"
    unfolding about names_left_def by force
  ultimately show ?thesis unfolding e same by (auto simp: groups_frame_def s1_def)
qed

lemma index_unused_key:
  assumes "index_ok s"
  shows "map_of (namesWithOutputFile s) wk = None \<longleftrightarrow> (\<forall>g. names_about s wk g = {})"
proof
  assume "map_of (namesWithOutputFile s) wk = None"
  then have "watched_names s wk g = None" for g by (simp add: watched_names_def)
  then show "\<forall>g. names_about s wk g = {}" using index_okD(1) [OF assms, of wk] by simp
next
  assume "\<forall>g. names_about s wk g = {}"
  then have "watched_names s wk g = None" for g using index_okD(1) [OF assms, of wk g] by (cases "watched_names s wk g") auto
  then show "map_of (namesWithOutputFile s) wk = None" by (rule find2_None) (rule index_okD(2) [OF assms])
qed

text \<open>C26: emptying a group of a started listener undoes it: the group, its exports and its part of the index are gone, every other group keeps its
  part of the index, the index stays exact, and a key of the group stays watched exactly when another group still uses
  it.\<close>

theorem EmptyGroupWatchs_removes:
  assumes "iter_ok iter" and "index_ok s" and "etcdw s = Some ew" and "map_of (outputFileHasKeys s) f = Some cfgs"
  shows "\<exists>s' ew'. EmptyGroupWatchs iter f s = Ret s' \<and> index_ok s'
    \<and> map_of (outputFileHasKeys s') f = None \<and> map_of (outputFileMap s') f = None
    \<and> (\<forall>wk. watched_names s' wk f = None)
    \<and> (\<forall>wk g. g \<noteq> f \<longrightarrow> watched_names s' wk g = watched_names s wk g)
    \<and> etcdw s' = Some ew' \<and> (\<forall>wk. map_of (closeHandler ew') wk =
        (if names_about s wk f \<noteq> {} \<and> (\<forall>g. names_about s' wk g = {}) then None else map_of (closeHandler ew) wk))"
proof -
  from EmptyGroupWatchs_loop [OF assms] obtain s' where s': "EmptyGroupWatchs iter f s = Ret s'" "emptying f [] s'"
    "outputFileHasKeys s' = AList.delete f (outputFileHasKeys s)" "outputFileMap s' = AList.delete f (outputFileMap s)"
    "\<And>wk g. g \<noteq> f \<Longrightarrow> watched_names s' wk g = watched_names s wk g" "watched_after ew {wk. names_about s wk f \<noteq> {}} s'"
    by blast
  note none = emptied_None [OF s'(2)]
  have about: "names_about s' wk g = (if g = f then {} else names_about s wk g)" for wk g
    by (simp add: names_about_def watched_config_def s'(3) delete_conv')
  have "index_ok s'"
    unfolding index_ok_def
  proof (intro conjI allI)
    fix wk g
    show "case watched_names s' wk g of None \<Rightarrow> names_about s' wk g = {}
      | Some ns \<Rightarrow> ns \<noteq> [] \<and> distinct ns \<and> set ns = names_about s' wk g"
      using index_okD(1) [OF assms(2), of wk g] unfolding about by (cases "g = f") (simp_all add: none s'(5))
  qed (use s'(2) index_okD(3) [OF assms(2)] in \<open>auto simp: emptying_def s'(3) delete_conv'\<close>)
  with index_unused_key [OF this] show ?thesis
    using s' none by (auto simp: watched_after_def delete_conv')
qed

section \<open>Examples\<close>

definition sample_listen :: listen where
  "sample_listen =
     \<lparr>outputFileHasKeys = [(''g'', [(''web'', \<lparr>wsi_Name = ''/s'', wsi_Version = ''1''\<rparr>)])],
      namesWithOutputFile = [(''/s'', [(''g'', [''web''])])],
      outputFileMap = [(''g'', [])],
      etcdSettings = [],
      etcdw = Some (snd (AddWatch ''/s'' fresh_watcher)),
      lsio = True, exports = []\<rparr>"

definition sample_decode :: "string \<Rightarrow> nodeInfo option" where
  "sample_decode v = Some \<lparr>NodeId = v, Handles = [], Address = [], ni_Port = 80, Metadata = [], ni_Ip = ''10.0.0.1'', ni_Version = v\<rparr>"

lemma iter_ok_id: "iter_ok (\<lambda>xs. xs)"
  by (simp add: iter_ok_def)

lemma sample_ready: "listen_ready sample_listen" "settings_view sample_listen ''/s'' = Map.empty"
  by (simp_all add: listen_ready_def settings_ok_def sample_listen_def settings_view_def map_or_nil_def)

lemma sample_index: "index_ok sample_listen"
proof -
  have n: "watched_names sample_listen wk f = (if wk = ''/s'' \<and> f = ''g'' then Some [''web''] else None)" for wk f
    by (simp add: watched_names_def sample_listen_def)
  have a: "names_about sample_listen wk f = (if wk = ''/s'' \<and> f = ''g'' then {''web''} else {})" for wk f
    by (auto simp: names_about_def watched_config_def sample_listen_def split: if_splits)
  show ?thesis unfolding index_ok_def n a by (auto simp: sample_listen_def)
qed

theorem watch_mirrors_and_exports_witness:
  "\<exists>s'. watch (lsc (\<lambda>xs. xs) Some (\<lambda>r. Some (\<lambda>v. v = r)) sample_decode) ''/s'' (Inr [(''/s/0'', ''1''), (''/s/1'', ''2'')])
      [Resp None [Deleted ''/s/1'', Created ''/s/2'' ''1'']] sample_listen = Ret (s', Waiting)
    \<and> exports_current Some (\<lambda>r. Some (\<lambda>v. v = r)) ''/s'' s' \<and> dom (settings_view s' ''/s'') = {''/s/0'', ''/s/2''}"
proof -
  have ok: "delivering [Resp None [Deleted ''/s/1'', Created ''/s/2'' ''1'']]" by (simp add: delivering_def)
  from watch_mirrors_and_exports [OF iter_ok_id sample_ready ok, of Some "\<lambda>r. Some (\<lambda>v. v = r)" sample_decode
      "[(''/s/0'', ''1''), (''/s/1'', ''2'')]"] obtain s' where
    s': "watch (lsc (\<lambda>xs. xs) Some (\<lambda>r. Some (\<lambda>v. v = r)) sample_decode) ''/s'' (Inr [(''/s/0'', ''1''), (''/s/1'', ''2'')])
      [Resp None [Deleted ''/s/1'', Created ''/s/2'' ''1'']] sample_listen = Ret (s', Waiting)"
    "exports_current Some (\<lambda>r. Some (\<lambda>v. v = r)) ''/s'' s'"
    "settings_view s' ''/s'' = decoded sample_decode ([''/s/0'' \<mapsto> ''1'', ''/s/2'' \<mapsto> ''1''])"
    by (auto simp: fun_upd_twist event_ok_def sample_decode_def)
  have "dom (settings_view s' ''/s'') = {''/s/0'', ''/s/2''}"
    unfolding s'(3) by (auto simp: decoded_def sample_decode_def dom_def)
  with s' show ?thesis by blast
qed

theorem rewatch_keeps_stale_witness:
  "\<exists>s'. watch (lsc (\<lambda>xs. xs) Some (\<lambda>r. Some (\<lambda>v. v = r)) sample_decode) ''/s'' (Inr [(''/s/1'', ''1'')]) []
      (sample_listen\<lparr>etcdSettings := [(''/s'', [(''/s/0'', the (sample_decode ''1''))])]\<rparr>) = Ret (s', Waiting)
    \<and> settings_view s' ''/s'' ''/s/0'' = sample_decode ''1''"
proof (rule rewatch_keeps_stale [where old = "[''/s/0'' \<mapsto> ''1'']"])
  show "listen_ready (sample_listen\<lparr>etcdSettings := [(''/s'', [(''/s/0'', the (sample_decode ''1''))])]\<rparr>)"
    by (simp add: listen_ready_def settings_ok_def sample_listen_def)
  show "settings_view (sample_listen\<lparr>etcdSettings := [(''/s'', [(''/s/0'', the (sample_decode ''1''))])]\<rparr>) ''/s''
      = decoded sample_decode [''/s/0'' \<mapsto> ''1'']"
    by (auto simp: settings_view_def map_or_nil_def decoded_def sample_decode_def fun_eq_iff)
qed (simp_all add: event_ok_def sample_decode_def)

theorem AddGroupWatchs_index_witness:
  "index_ok (snd (AddGroupWatchs (\<lambda>xs. xs) [(''api'', \<lparr>wsi_Name = ''/s'', wsi_Version = ''2''\<rparr>)] ''h'' sample_listen))"
  using AddGroupWatchs_index [OF iter_ok_id sample_index, of "[(''api'', \<lparr>wsi_Name = ''/s'', wsi_Version = ''2''\<rparr>)]" "''h''"]
  by (simp add: AddGroupWatchs_def sample_listen_def)

theorem EmptyGroupWatchs_removes_witness:
  "\<exists>s' ew'. EmptyGroupWatchs (\<lambda>xs. xs) ''g'' sample_listen = Ret s' \<and> index_ok s' \<and> etcdw s' = Some ew'
    \<and> map_of (outputFileHasKeys s') ''g'' = None"
proof -
  have s: "etcdw sample_listen = Some (snd (AddWatch ''/s'' fresh_watcher))"
    "map_of (outputFileHasKeys sample_listen) ''g'' = Some [(''web'', \<lparr>wsi_Name = ''/s'', wsi_Version = ''1''\<rparr>)]"
    by (simp_all add: sample_listen_def)
  from EmptyGroupWatchs_removes [OF iter_ok_id sample_index s] show ?thesis by blast
qed

end
