(* ===== verification/Etcd_System.thy ===== *)
theory Etcd_System
  imports Etcd_Listen
begin

text \<open>
  The listener under several watches at once (\<open>util/etcd_listen/etcd_listen.go\<close> and \<open>etcd_watcher.go\<close>). Each watched
  key has a goroutine of its own, and all of them report to the one \<open>ListenerSC\<close>. What a goroutine does between two
  messages of its watch is a sequence of critical sections: the change of the mirror under \<open>lockEtcd\<close>, and for each file
  that uses the key the refresh and the export under \<open>lockOutputFileMap\<close>. A goroutine enters a section when the mutex
  of the section is free and leaves it later, so sections of different mutexes overlap. The refresh reads the mirror without
  \<open>lockEtcd\<close>: when it overlaps with a section that writes the same map, the run has raced, the process may die of a concurrent
  access to the map, and nothing is said about what follows. The groups stay as they are; the loop over the
  files of a key reads the index once.
\<close>

section \<open>Critical sections\<close>

datatype crit_section = SetValue string string | RefreshFile string "string list"

definition run_section :: "(string list \<Rightarrow> string list) \<Rightarrow> (string \<Rightarrow> 'ver option) \<Rightarrow> (string \<Rightarrow> ('ver \<Rightarrow> bool) option)
    \<Rightarrow> (string \<Rightarrow> nodeInfo option) \<Rightarrow> string \<Rightarrow> crit_section \<Rightarrow> listen \<Rightarrow> listen go" where
  "run_section iter Parse ParseRange decode wk a s =
     (case a of
        SetValue k v \<Rightarrow> Ret (tiggerChangeWatchKeyValue decode wk k v s)
      | RefreshFile f ns \<Rightarrow> refresh_file iter Parse ParseRange (f, ns) s)"

definition key_files :: "(string list \<Rightarrow> string list) \<Rightarrow> string \<Rightarrow> listen \<Rightarrow> (string \<times> string list) list" where
  "key_files iter wk s = (case map_of (namesWithOutputFile s) wk of None \<Rightarrow> [] | Some files \<Rightarrow> range_map iter files)"

definition refresh_sections :: "(string list \<Rightarrow> string list) \<Rightarrow> string \<Rightarrow> listen \<Rightarrow> crit_section list" where
  "refresh_sections iter wk s = map (\<lambda>(f, ns). RefreshFile f ns) (key_files iter wk s)"

text \<open>The sections of one report of an event, and of the first answer of the client.\<close>

definition event_sections :: "(string list \<Rightarrow> string list) \<Rightarrow> string \<Rightarrow> etcd_event \<Rightarrow> listen \<Rightarrow> crit_section list" where
  "event_sections iter wk e s =
     (case e of
        Created k v \<Rightarrow> SetValue k v # refresh_sections iter wk s
      | Modified k v \<Rightarrow> SetValue k v # refresh_sections iter wk s
      | Deleted k \<Rightarrow> SetValue k [] # refresh_sections iter wk s
      | OtherEvent \<Rightarrow> [])"

definition first_sections :: "(string list \<Rightarrow> string list) \<Rightarrow> string \<Rightarrow> (string \<times> string) list \<Rightarrow> listen \<Rightarrow> crit_section list" where
  "first_sections iter wk kvs s =
     (if kvs \<noteq> [] then map (\<lambda>(k, v). SetValue k v) kvs @ refresh_sections iter wk s
      else SetValue [] [] # refresh_sections iter wk s)"

text \<open>Run without interruption, the sections are the methods of the listener.\<close>

lemma run_refresh_sections:
  "go_fold (run_section iter Parse ParseRange decode wk) (refresh_sections iter wk s) s = tiggerChangesWatchKey iter Parse ParseRange wk s"
proof -
  have "go_fold (run_section iter Parse ParseRange decode wk) (map (\<lambda>(f, ns). RefreshFile f ns) ps) t
      = go_fold (refresh_file iter Parse ParseRange) ps t" for ps t
    by (induction ps arbitrary: t) (auto simp: run_section_def intro!: go_bind_cong)
  then show ?thesis
    by (simp add: refresh_sections_def key_files_def tiggerChangesWatchKey_def split: option.split)
qed

lemma refresh_sections_same: "same_groups s t \<Longrightarrow> refresh_sections iter wk t = refresh_sections iter wk s"
  by (simp add: refresh_sections_def key_files_def same_groups_def)

lemma run_set_refresh:
  "go_fold (run_section iter Parse ParseRange decode wk) (SetValue k v # refresh_sections iter wk s) s
   = tiggerChangesWatchKey iter Parse ParseRange wk (tiggerChangeWatchKeyValue decode wk k v s)"
  by (simp add: run_section_def refresh_sections_same [OF trigger_value_groups, symmetric, of iter wk s decode wk k v]
      run_refresh_sections)

lemma event_sections_notify:
  "go_fold (run_section iter Parse ParseRange decode wk) (event_sections iter wk e s) s
   = notify (lsc iter Parse ParseRange decode) wk e s"
  by (cases e) (simp_all add: event_sections_def lsc_def run_set_refresh del: go_fold.simps(2))

lemma first_sections_initial:
  "go_fold (run_section iter Parse ParseRange decode wk) (first_sections iter wk kvs s) s
   = watch_initial (lsc iter Parse ParseRange decode) wk kvs s"
proof -
  have "\<exists>t. same_groups s t
      \<and> go_fold (run_section iter Parse ParseRange decode wk) (map (\<lambda>(k, v). SetValue k v) kvs) s = Ret t
      \<and> go_fold (\<lambda>(k, v). L_Set (lsc iter Parse ParseRange decode) wk k v) kvs s = Ret t" for kvs
  proof (induction kvs arbitrary: s)
    case (Cons p kvs)
    obtain k v where p: "p = (k, v)" by fastforce
    from Cons.IH [of "tiggerChangeWatchKeyValue decode wk k v s"] show ?case
      unfolding p by (auto simp: run_section_def lsc_def intro: same_groups_trans [OF trigger_value_groups])
  qed simp
  then obtain t where t: "same_groups s t"
    "go_fold (run_section iter Parse ParseRange decode wk) (map (\<lambda>(k, v). SetValue k v) kvs) s = Ret t"
    "go_fold (\<lambda>(k, v). L_Set (lsc iter Parse ParseRange decode) wk k v) kvs s = Ret t" by blast
  show ?thesis
  proof (cases "kvs = []")
    case True
    then show ?thesis by (simp add: first_sections_def watch_initial_def lsc_def run_set_refresh del: go_fold.simps(2))
  next
    case False
    with t run_refresh_sections [of iter Parse ParseRange decode wk t] show ?thesis
      by (simp add: first_sections_def watch_initial_def go_fold_append refresh_sections_same [OF t(1)] lsc_def)
  qed
qed

section \<open>Mutexes and maps\<close>

datatype mutex = LockEtcd | LockOutputFileMap

fun mutex_of :: "crit_section \<Rightarrow> mutex" where
  "mutex_of (SetValue k v) = LockEtcd"
| "mutex_of (RefreshFile f ns) = LockOutputFileMap"

text \<open>
  The Go maps of the mirror: \<open>etcdSettings\<close> itself, and the map of the nodes below one key. \<open>writes\<close> are the maps that a
  section inserts into or deletes from, \<open>reads\<close> those it looks up or iterates over.
\<close>

datatype map_loc = Mirror | Nodes string

definition writes :: "(string \<Rightarrow> nodeInfo option) \<Rightarrow> listen \<Rightarrow> string \<Rightarrow> crit_section \<Rightarrow> map_loc list" where
  "writes decode s wk a =
     (case a of
        SetValue k v \<Rightarrow>
          (if k = [] then (if map_of (etcdSettings s) wk = None then [] else [Mirror])
           else if v = [] then
             (case map_of (etcdSettings s) wk of
                None \<Rightarrow> []
              | Some nodes \<Rightarrow>
                  (if map_of nodes k = None then [] else if AList.delete k nodes = [] then [Nodes wk, Mirror] else [Nodes wk]))
           else (if map_of (etcdSettings s) wk = None then [Mirror] else []) @ (if decode v = None then [] else [Nodes wk]))
      | RefreshFile f ns \<Rightarrow> [])"

definition reads :: "listen \<Rightarrow> string \<Rightarrow> crit_section \<Rightarrow> map_loc list" where
  "reads s wk a =
     (case a of
        SetValue k v \<Rightarrow> [Mirror, Nodes wk]
      | RefreshFile f ns \<Rightarrow>
          concat (map (\<lambda>n. case watched_config s f n of None \<Rightarrow> [] | Some cfg \<Rightarrow> [Mirror, Nodes (wsi_Name cfg)]) ns))"

definition races :: "(string \<Rightarrow> nodeInfo option) \<Rightarrow> listen \<Rightarrow> string \<times> crit_section \<Rightarrow> string \<times> crit_section \<Rightarrow> bool" where
  "races decode s p q =
     (let (wk, a) = p; (wk', b) = q in
      list_ex (\<lambda>l. l \<in> set (reads s wk' b @ writes decode s wk' b)) (writes decode s wk a)
      \<or> list_ex (\<lambda>l. l \<in> set (reads s wk a)) (writes decode s wk' b))"

section \<open>The system\<close>

text \<open>
  The state of the listener, what each goroutine still has to do (\<open>None\<close> before its first answer), the goroutines that are inside
  their next section, and whether two sections have raced. \<open>told\<close> is what the reports to each watch leave below its key, taken one after the other.
\<close>

record watch_system =
  shared :: listen
  pending :: "string \<Rightarrow> crit_section list option"
  inside :: "string list"
  raced :: bool
  told :: "string \<Rightarrow> string \<rightharpoonup> nodeInfo"

datatype sys_label =
    First string "(string \<times> string) list"
  | Event string etcd_event
  | Enter string
  | Leave string
  | Throw string string

definition section_of :: "watch_system \<Rightarrow> string \<Rightarrow> crit_section option" where
  "section_of w wk = (case pending w wk of Some (a # as) \<Rightarrow> Some a | _ \<Rightarrow> None)"

definition held :: "mutex \<Rightarrow> watch_system \<Rightarrow> bool" where
  "held m w = list_ex (\<lambda>k. map_option mutex_of (section_of w k) = Some m) (inside w)"

definition raced_with :: "(string \<Rightarrow> nodeInfo option) \<Rightarrow> string \<times> crit_section \<Rightarrow> watch_system \<Rightarrow> string \<Rightarrow> bool" where
  "raced_with decode p w k = (case section_of w k of None \<Rightarrow> False | Some b \<Rightarrow> races decode (shared w) p (k, b))"

definition sys_next :: "(string list \<Rightarrow> string list) \<Rightarrow> (string \<Rightarrow> 'ver option) \<Rightarrow> (string \<Rightarrow> ('ver \<Rightarrow> bool) option)
    \<Rightarrow> (string \<Rightarrow> nodeInfo option) \<Rightarrow> sys_label \<Rightarrow> watch_system \<Rightarrow> watch_system go option" where
  "sys_next iter Parse ParseRange decode mv w =
     (case mv of
        First wk kvs \<Rightarrow>
          (if pending w wk = None
           then Some (Ret (w\<lparr>pending := (pending w)(wk \<mapsto> first_sections iter wk kvs (shared w)),
                             told := (told w)(wk := fold (view_set decode) kvs Map.empty)\<rparr>))
           else None)
      | Event wk e \<Rightarrow>
          (if pending w wk = Some []
           then Some (Ret (w\<lparr>pending := (pending w)(wk \<mapsto> event_sections iter wk e (shared w)),
                             told := (told w)(wk := view_event decode e (told w wk))\<rparr>))
           else None)
      | Enter wk \<Rightarrow>
          (case section_of w wk of
             None \<Rightarrow> None
           | Some a \<Rightarrow>
               (if wk \<in> set (inside w) \<or> held (mutex_of a) w then None
                else Some (Ret (w\<lparr>inside := wk # inside w,
                                  raced := raced w \<or> list_ex (raced_with decode (wk, a) w) (inside w)\<rparr>))))
      | Leave wk \<Rightarrow>
          (case pending w wk of
             Some (a # as) \<Rightarrow>
               (if wk \<in> set (inside w)
                then Some (go_bind (run_section iter Parse ParseRange decode wk a (shared w))
                  (\<lambda>s. Ret (w\<lparr>shared := s, pending := (pending w)(wk \<mapsto> as), inside := removeAll wk (inside w)\<rparr>)))
                else None)
           | _ \<Rightarrow> None)
      | Throw wk k \<Rightarrow>
          (case section_of w wk of
             None \<Rightarrow> None
           | Some a \<Rightarrow>
               (if wk \<noteq> k \<and> wk \<in> set (inside w) \<and> k \<in> set (inside w) \<and> raced_with decode (wk, a) w k
                then Some (Panic ConcurrentMapAccess) else None)))"

text \<open>After a race anything may follow.\<close>

inductive sys_step :: "(string list \<Rightarrow> string list) \<Rightarrow> (string \<Rightarrow> 'ver option) \<Rightarrow> (string \<Rightarrow> ('ver \<Rightarrow> bool) option)
    \<Rightarrow> (string \<Rightarrow> nodeInfo option) \<Rightarrow> watch_system \<Rightarrow> watch_system \<Rightarrow> bool"
  for iter Parse ParseRange decode where
  sys_move: "sys_next iter Parse ParseRange decode mv w = Some (Ret w') \<Longrightarrow> sys_step iter Parse ParseRange decode w w'"
| after_race: "raced w \<Longrightarrow> raced w' \<Longrightarrow> sys_step iter Parse ParseRange decode w w'"

inductive_simps sys_step_simp: "sys_step iter Parse ParseRange decode w w'"

definition sys_initial :: "(string list \<Rightarrow> string list) \<Rightarrow> watch_system \<Rightarrow> bool" where
  "sys_initial iter w \<longleftrightarrow> iter_ok iter \<and> index_ok (shared w) \<and> lsio (shared w) \<and> etcdSettings (shared w) = []
    \<and> pending w = (\<lambda>_. None) \<and> inside w = [] \<and> \<not> raced w"

section \<open>Invariant\<close>

text \<open>
  What holds of a key whose goroutine still has to set the values \<open>us\<close> and to refresh the files \<open>rs\<close>: with these
  values the mirror is what the watch was told of, and a file that is not to be refreshed is current.
\<close>

definition sections :: "(string \<times> string) list \<Rightarrow> (string \<times> string list) list \<Rightarrow> crit_section list" where
  "sections us rs = map (\<lambda>(k, v). SetValue k v) us @ map (\<lambda>(f, ns). RefreshFile f ns) rs"

definition work_inv :: "(string \<Rightarrow> 'ver option) \<Rightarrow> (string \<Rightarrow> ('ver \<Rightarrow> bool) option) \<Rightarrow> (string \<Rightarrow> nodeInfo option)
    \<Rightarrow> listen \<Rightarrow> string \<Rightarrow> (string \<times> string) list \<Rightarrow> (string \<times> string list) list \<Rightarrow> (string \<rightharpoonup> nodeInfo) \<Rightarrow> bool" where
  "work_inv Parse ParseRange decode s wk us rs m \<longleftrightarrow>
     fold (view_set decode) us (settings_view s wk) = m
   \<and> (\<forall>f ns. (f, ns) \<in> set rs \<longrightarrow> watched_names s wk f = Some ns)
   \<and> (\<forall>f ns n cfg. watched_names s wk f = Some ns \<longrightarrow> n \<in> set ns \<longrightarrow> watched_config s f n = Some cfg
        \<longrightarrow> (f, ns) \<in> set rs \<or> us = [] \<and> exported Parse ParseRange s f n cfg)"

definition key_inv :: "(string \<Rightarrow> 'ver option) \<Rightarrow> (string \<Rightarrow> ('ver \<Rightarrow> bool) option) \<Rightarrow> (string \<Rightarrow> nodeInfo option)
    \<Rightarrow> listen \<Rightarrow> string \<Rightarrow> crit_section list option \<Rightarrow> (string \<rightharpoonup> nodeInfo) \<Rightarrow> bool" where
  "key_inv Parse ParseRange decode s wk todo m \<longleftrightarrow>
     (case todo of
        None \<Rightarrow> settings_view s wk = Map.empty
      | Some as \<Rightarrow> \<exists>us rs. as = sections us rs \<and> work_inv Parse ParseRange decode s wk us rs m)"

lemma key_inv_Some:
  "key_inv Parse ParseRange decode s wk (Some as) m \<longleftrightarrow>
     (\<exists>us rs. sections us rs = as \<and> work_inv Parse ParseRange decode s wk us rs m)"
  by (auto simp: key_inv_def)

lemma key_inv_sections:
  "work_inv Parse ParseRange decode s wk us rs m \<Longrightarrow> key_inv Parse ParseRange decode s wk (Some (sections us rs)) m"
  unfolding key_inv_Some by blast

text \<open>Sections that overlap have different mutexes and do not race.\<close>

definition sync_inv :: "(string \<Rightarrow> nodeInfo option) \<Rightarrow> watch_system \<Rightarrow> bool" where
  "sync_inv decode w \<longleftrightarrow>
     (\<forall>k \<in> set (inside w). section_of w k \<noteq> None)
   \<and> (\<forall>k \<in> set (inside w). \<forall>l \<in> set (inside w). \<forall>a b. k \<noteq> l \<longrightarrow> section_of w k = Some a \<longrightarrow> section_of w l = Some b
        \<longrightarrow> mutex_of a \<noteq> mutex_of b \<and> \<not> races decode (shared w) (k, a) (l, b))"

definition sys_inv :: "(string list \<Rightarrow> string list) \<Rightarrow> (string \<Rightarrow> 'ver option) \<Rightarrow> (string \<Rightarrow> ('ver \<Rightarrow> bool) option)
    \<Rightarrow> (string \<Rightarrow> nodeInfo option) \<Rightarrow> watch_system \<Rightarrow> bool" where
  "sys_inv iter Parse ParseRange decode w \<longleftrightarrow> raced w \<or>
    iter_ok iter \<and> index_ok (shared w) \<and> listen_ready (shared w) \<and> sync_inv decode w
    \<and> (\<forall>wk. key_inv Parse ParseRange decode (shared w) wk (pending w wk) (told w wk))"

lemma sys_invD:
  assumes "sys_inv iter Parse ParseRange decode w" and "\<not> raced w"
  shows "iter_ok iter" and "index_ok (shared w)" and "listen_ready (shared w)" and "sync_inv decode w"
    and "key_inv Parse ParseRange decode (shared w) wk (pending w wk) (told w wk)"
  using assms by (simp_all add: sys_inv_def)

lemma groups_same:
  assumes "same_groups s s'"
  shows "watched_names s' = watched_names s" and "watched_config s' = watched_config s" and "index_ok s' = index_ok s"
proof -
  show names: "watched_names s' = watched_names s" and cfg: "watched_config s' = watched_config s"
    using assms by (simp_all add: same_groups_def watched_names_def fun_eq_iff watched_config_def)
  then have about: "names_about s' = names_about s" by (simp add: names_about_def fun_eq_iff)
  show "index_ok s' = index_ok s"
    unfolding index_ok_def names about using assms by (simp add: same_groups_def)
qed

lemma index_config:
  assumes "index_ok s" and "watched_names s wk f = Some ns"
  shows "n \<in> set ns \<longleftrightarrow> (\<exists>cfg. watched_config s f n = Some cfg \<and> wsi_Name cfg = wk)"
proof -
  have "case watched_names s wk f of None \<Rightarrow> names_about s wk f = {}
      | Some ns \<Rightarrow> ns \<noteq> [] \<and> distinct ns \<and> set ns = names_about s wk f" using assms(1) by (simp add: index_ok_def)
  with assms(2) show ?thesis by (simp add: names_about_def)
qed

text \<open>A refresh of other names of a file, or of another file, keeps what is exported for a name.\<close>

lemma refresh_names_other:
  assumes "iter_ok iter"
  shows "n \<notin> set ns \<Longrightarrow> map_of (fold (refresh_name iter Parse ParseRange s f) ns m) n = map_of m n"
  by (induction ns arbitrary: m) (auto simp: refresh_name_map [OF assms] split: option.split)

lemma refresh_file_keeps:
  assumes "iter_ok iter" and "refresh_file iter Parse ParseRange (g, ns) s = Ret s'" and "f \<noteq> g \<or> n \<notin> set ns"
    and "exported Parse ParseRange s f n cfg"
  shows "exported Parse ParseRange s' f n cfg"
proof (cases "f = g")
  case True
  define m where "m = fold (refresh_name iter Parse ParseRange s g) ns (map_or_nil (outputFileMap s) g)"
  have s': "map_of (outputFileMap s') f = Some m" "map_of (rev (exports s')) f = Some m" "etcdSettings s' = etcdSettings s"
    using assms(2) True by (auto simp: refresh_file_def Let_def m_def [symmetric] update_conv' split: if_splits)
  moreover have "map_of m n = map_of (map_or_nil (outputFileMap s) f) n"
    unfolding m_def True using True assms(3) by (intro refresh_names_other [OF assms(1)]) simp
  ultimately show ?thesis using assms(4) unfolding exported_def settings_view_def by (auto simp: map_or_nil_def)
next
  case False
  then show ?thesis by (rule refresh_file_other [OF assms(2) _ assms(4)])
qed

text \<open>A section of one key: what it leaves of the groups, and of the mirror and the exports of the other keys.\<close>

lemma section_frame:
  assumes "iter_ok iter" and "index_ok s" and "listen_ready s" and "run_section iter Parse ParseRange decode wk a s = Ret s'"
    and "\<And>f ns. a = RefreshFile f ns \<Longrightarrow> watched_names s wk f = Some ns"
  shows "same_groups s s' \<and> listen_ready s' \<and> (\<forall>wk'. wk' \<noteq> wk \<longrightarrow> settings_view s' wk' = settings_view s wk')
    \<and> (\<forall>f n cfg. watched_config s f n = Some cfg \<longrightarrow> wsi_Name cfg \<noteq> wk \<longrightarrow> exported Parse ParseRange s f n cfg
          \<longrightarrow> exported Parse ParseRange s' f n cfg)"
proof (cases a)
  case (SetValue k v)
  then have s': "s' = tiggerChangeWatchKeyValue decode wk k v s" using assms(4) by (simp add: run_section_def)
  have keep: "outputFileMap s' = outputFileMap s" "exports s' = exports s"
    unfolding s' by (simp_all add: tiggerChangeWatchKeyValue_def Let_def split: option.split)
  have view: "settings_view s' wk' = settings_view s wk'" if "wk' \<noteq> wk" for wk'
    using that unfolding s' trigger_value_view [OF assms(3)] by simp
  then show ?thesis
    using trigger_value_groups [of s decode wk k v] trigger_value_ready [OF assms(3), of decode wk k v] keep
    by (auto simp: s' [symmetric] exported_def)
next
  case (RefreshFile f ns)
  then have r: "refresh_file iter Parse ParseRange (f, ns) s = Ret s'" using assms(4) by (simp add: run_section_def)
  have "exported Parse ParseRange s' g n cfg"
    if c: "watched_config s g n = Some cfg" "wsi_Name cfg \<noteq> wk" "exported Parse ParseRange s g n cfg" for g n cfg
  proof (rule refresh_file_keeps [OF assms(1) r _ c(3)])
    show "g \<noteq> f \<or> n \<notin> set ns"
      using index_config [OF assms(2) assms(5) [OF RefreshFile], of n] c(1,2) by (cases "g = f") auto
  qed
  with refresh_file_Ret [OF r] assms(3) show ?thesis
    by (auto simp: listen_ready_def settings_ok_def settings_view_def same_groups_def)
qed

text \<open>Refreshing one key keeps the lists of the others, so reloading the exports, which refreshes every key in turn, leaves all of them current.\<close>

lemma trigger_keys_keeps:
  assumes "iter_ok iter" and "index_ok s" and "tiggerChangesWatchKey iter Parse ParseRange wk s = Ret s'"
    and c: "watched_config s f n = Some cfg" "wsi_Name cfg \<noteq> wk" "exported Parse ParseRange s f n cfg"
  shows "exported Parse ParseRange s' f n cfg"
proof (cases "map_of (namesWithOutputFile s) wk")
  case (Some files)
  then have "go_fold (refresh_file iter Parse ParseRange) (range_map iter files) s = Ret s'"
    using assms(3) by (simp add: tiggerChangesWatchKey_def)
  then show ?thesis
  proof (rule go_fold_invariant [where P = "\<lambda>t. exported Parse ParseRange t f n cfg"])
    fix x t t'
    assume x: "x \<in> set (range_map iter files)" and e: "exported Parse ParseRange t f n cfg"
      and r: "refresh_file iter Parse ParseRange x t = Ret t'"
    obtain g ns where g: "x = (g, ns)" by fastforce
    with x Some have "watched_names s wk g = Some ns" by (simp add: set_range_map [OF assms(1)] watched_names_def)
    from index_config [OF assms(2) this, of n] c(1,2) have "f \<noteq> g \<or> n \<notin> set ns" by (cases "f = g") auto
    then show "exported Parse ParseRange t' f n cfg" using refresh_file_keeps [OF assms(1) r [unfolded g] _ e] by blast
  qed (rule c(3))
qed (use assms(3) c(3) in \<open>simp add: tiggerChangesWatchKey_def\<close>)

lemma trigger_keys_current:
  assumes "iter_ok iter" and "index_ok s" and "listen_ready s" and "exports_current Parse ParseRange k s"
    and t: "tiggerChangesWatchKey iter Parse ParseRange wk s = Ret s'"
  shows "exports_current Parse ParseRange k s'"
proof (cases "k = wk")
  case True
  then show ?thesis using trigger_keys_exports [OF assms(1) _ t] assms(3) by (simp add: listen_ready_def)
next
  case False
  note groups = groups_same [OF conjunct1 [OF trigger_keys_Ret [OF t]]]
  show ?thesis
    unfolding exports_current_def groups
  proof (intro allI impI)
    fix f ns n cfg
    assume n: "watched_names s k f = Some ns" "n \<in> set ns" "watched_config s f n = Some cfg"
    with index_config [OF assms(2) n(1), of n] False have "wsi_Name cfg \<noteq> wk" by auto
    moreover have "exported Parse ParseRange s f n cfg" using assms(4) n by (simp add: exports_current_def)
    ultimately show "exported Parse ParseRange s' f n cfg" by (intro trigger_keys_keeps [OF assms(1,2) t n(3)])
  qed
qed

lemma ReloadExport_current:
  assumes "iter_ok iter" and "index_ok s" and "listen_ready s"
  shows "\<exists>s'. ReloadExport iter Parse ParseRange s = Ret s' \<and> settings_view s' = settings_view s
    \<and> (\<forall>wk. exports_current Parse ParseRange wk s')"
proof -
  have fold: "\<exists>s'. go_fold (tiggerChangesWatchKey iter Parse ParseRange) ks t = Ret s' \<and> settings_view s' = settings_view t
      \<and> same_groups t s' \<and> (\<forall>k. k \<in> set ks \<or> exports_current Parse ParseRange k t \<longrightarrow> exports_current Parse ParseRange k s')"
    if "index_ok t" "listen_ready t" for ks t
    using that
  proof (induction ks arbitrary: t)
    case (Cons k ks)
    from trigger_keys_view [OF Cons.prems(2)] obtain t1
      where t1: "tiggerChangesWatchKey iter Parse ParseRange k t = Ret t1" "listen_ready t1" "settings_view t1 = settings_view t"
      by blast
    have g: "same_groups t t1" using trigger_keys_Ret [OF t1(1)] by simp
    have "exports_current Parse ParseRange k t1"
      using trigger_keys_exports [OF assms(1) _ t1(1)] Cons.prems(2) by (simp add: listen_ready_def)
    moreover note trigger_keys_current [OF assms(1) Cons.prems _ t1(1)] Cons.IH [OF _ t1(2)] groups_same(3) [OF g] Cons.prems(1)
    ultimately show ?case using t1(1,3) g by (fastforce intro: same_groups_trans)
  qed simp
  obtain s' where s': "ReloadExport iter Parse ParseRange s = Ret s'" "settings_view s' = settings_view s" "same_groups s s'"
    "\<And>k. k \<in> set (iter (map fst (namesWithOutputFile s))) \<Longrightarrow> exports_current Parse ParseRange k s'"
    using fold [OF assms(2,3), of "iter (map fst (namesWithOutputFile s))"] unfolding ReloadExport_def by blast
  have "exports_current Parse ParseRange k s'" if "k \<notin> set (iter (map fst (namesWithOutputFile s)))" for k
  proof -
    have "map_of (namesWithOutputFile s) k = None" using that iter_ok_props(1) [OF assms(1)] by (simp add: map_of_eq_None_iff)
    then show ?thesis by (simp add: exports_current_def groups_same [OF s'(3)] watched_names_def)
  qed
  with s' show ?thesis by blast
qed

text \<open>The other keys, and the key of the goroutine that moved.\<close>

lemma work_inv_frame:
  assumes "index_ok s" and "same_groups s s'" and "settings_view s' wk = settings_view s wk"
    and "\<And>f n cfg. watched_config s f n = Some cfg \<Longrightarrow> wsi_Name cfg = wk \<Longrightarrow> exported Parse ParseRange s f n cfg
          \<Longrightarrow> exported Parse ParseRange s' f n cfg"
    and "work_inv Parse ParseRange decode s wk us rs m"
  shows "work_inv Parse ParseRange decode s' wk us rs m"
  unfolding work_inv_def groups_same [OF assms(2)] assms(3)
proof (intro conjI allI impI)
  fix f ns n cfg
  assume n: "watched_names s wk f = Some ns" "n \<in> set ns" "watched_config s f n = Some cfg"
  then have "wsi_Name cfg = wk" using index_config [OF assms(1) n(1), of n] by simp
  with assms(4,5) n show "(f, ns) \<in> set rs \<or> us = [] \<and> exported Parse ParseRange s' f n cfg"
    unfolding work_inv_def by blast
qed (use assms(5) in \<open>simp_all add: work_inv_def\<close>)

lemma key_inv_frame:
  assumes "index_ok s" and "same_groups s s'" and "settings_view s' wk = settings_view s wk"
    and "\<And>f n cfg. watched_config s f n = Some cfg \<Longrightarrow> wsi_Name cfg = wk \<Longrightarrow> exported Parse ParseRange s f n cfg
          \<Longrightarrow> exported Parse ParseRange s' f n cfg"
    and "key_inv Parse ParseRange decode s wk todo m"
  shows "key_inv Parse ParseRange decode s' wk todo m"
proof (cases todo)
  case (Some as)
  with assms(5) obtain us rs where i: "sections us rs = as" "work_inv Parse ParseRange decode s wk us rs m"
    by (auto simp: key_inv_Some)
  have "work_inv Parse ParseRange decode s' wk us rs m" by (rule work_inv_frame [OF assms(1-3) _ i(2)]) (rule assms(4))
  with i(1) Some show ?thesis by (auto simp: key_inv_Some)
qed (use assms(3,5) in \<open>simp add: key_inv_def\<close>)

lemma work_inv_set:
  assumes "listen_ready s" and "work_inv Parse ParseRange decode s wk ((k, v) # us) rs m"
  shows "work_inv Parse ParseRange decode (tiggerChangeWatchKeyValue decode wk k v s) wk us rs m"
proof -
  have view: "settings_view (tiggerChangeWatchKeyValue decode wk k v s) wk = view_set decode (k, v) (settings_view s wk)"
    by (simp add: trigger_value_view [OF assms(1)])
  show ?thesis
    unfolding work_inv_def groups_same [OF trigger_value_groups [of s decode wk k v]] view
    using assms(2) unfolding work_inv_def fold_simps by blast
qed

lemma work_inv_refresh:
  assumes "iter_ok iter" and "listen_ready s" and "refresh_file iter Parse ParseRange (f, ns) s = Ret s'"
    and "work_inv Parse ParseRange decode s wk [] ((f, ns) # rs) m"
  shows "work_inv Parse ParseRange decode s' wk [] rs m"
proof -
  note frame = refresh_file_Ret [OF assms(3)]
  have view: "settings_view s' wk = settings_view s wk" using frame by (simp add: settings_view_def)
  have ns: "watched_names s wk f = Some ns" using assms(4) by (simp add: work_inv_def)
  have "(g, ms) \<in> set rs \<or> exported Parse ParseRange s' g n cfg"
    if n: "watched_names s wk g = Some ms" "n \<in> set ms" "watched_config s g n = Some cfg" for g ms n cfg
  proof (cases "g = f")
    case True
    with n ns have "exported Parse ParseRange s' f n cfg"
      using refresh_file_exported [OF assms(1) _ assms(3), of n cfg] assms(2) by (simp add: listen_ready_def)
    then show ?thesis using True by simp
  next
    case False
    have "(g, ms) \<in> set ((f, ns) # rs) \<or> exported Parse ParseRange s g n cfg"
      using assms(4) n unfolding work_inv_def by blast
    then show ?thesis using False refresh_file_other [OF assms(3) False] by auto
  qed
  with assms(4) show ?thesis
    unfolding work_inv_def groups_same [OF conjunct1 [OF frame]] view by simp
qed

lemma sections_Cons:
  assumes "sections us rs = a # as"
  obtains k v us' where "us = (k, v) # us'" "a = SetValue k v" "as = sections us' rs"
    | f ns rs' where "us = []" "rs = (f, ns) # rs'" "a = RefreshFile f ns" "as = sections [] rs'"
proof (cases us)
  case Nil
  with assms that(2) show thesis by (cases rs) (auto simp: sections_def)
next
  case (Cons u us')
  with assms that(1) show thesis by (cases u) (auto simp: sections_def)
qed

lemma key_inv_section:
  assumes "iter_ok iter" and "listen_ready s" and "run_section iter Parse ParseRange decode wk a s = Ret s'"
    and "key_inv Parse ParseRange decode s wk (Some (a # as)) m"
  shows "key_inv Parse ParseRange decode s' wk (Some as) m"
proof -
  from assms(4) obtain us rs where i: "sections us rs = a # as" "work_inv Parse ParseRange decode s wk us rs m"
    by (auto simp: key_inv_Some)
  from i(1) show ?thesis
  proof (cases rule: sections_Cons)
    case (1 k v us')
    with assms(3) have "s' = tiggerChangeWatchKeyValue decode wk k v s" by (simp add: run_section_def)
    with i(2) 1 show ?thesis by (simp add: key_inv_sections work_inv_set [OF assms(2)])
  next
    case (2 f ns rs')
    with assms(3) have "refresh_file iter Parse ParseRange (f, ns) s = Ret s'" by (simp add: run_section_def)
    with i(2) 2 show ?thesis by (simp add: key_inv_sections work_inv_refresh [OF assms(1,2)])
  qed
qed

lemma key_inv_refreshes:
  "key_inv Parse ParseRange decode s wk (Some (RefreshFile f ns # as)) m \<Longrightarrow> watched_names s wk f = Some ns"
  by (auto simp: key_inv_Some work_inv_def elim!: sections_Cons)

text \<open>A message: the goroutine has everything to set and every file of the key to refresh.\<close>

lemma key_files_names:
  assumes "iter_ok iter"
  shows "(f, ns) \<in> set (key_files iter wk s) \<longleftrightarrow> watched_names s wk f = Some ns"
  by (cases "map_of (namesWithOutputFile s) wk") (simp_all add: key_files_def watched_names_def set_range_map [OF assms])

lemma work_inv_all:
  assumes "iter_ok iter" and "fold (view_set decode) us (settings_view s wk) = m"
  shows "work_inv Parse ParseRange decode s wk us (key_files iter wk s) m"
  using assms(2) unfolding work_inv_def key_files_names [OF assms(1)] by blast

lemma key_inv_first:
  assumes "iter_ok iter" and "settings_view s wk = Map.empty"
  shows "key_inv Parse ParseRange decode s wk (Some (first_sections iter wk kvs s)) (fold (view_set decode) kvs Map.empty)"
proof -
  define us where "us = (if kvs = [] then [([], [])] else kvs)"
  have "fold (view_set decode) us (settings_view s wk) = fold (view_set decode) kvs Map.empty"
    by (simp add: us_def assms(2) view_set_def)
  from key_inv_sections [OF work_inv_all [OF assms(1) this]]
  have "key_inv Parse ParseRange decode s wk (Some (sections us (key_files iter wk s))) (fold (view_set decode) kvs Map.empty)" .
  moreover have "sections us (key_files iter wk s) = first_sections iter wk kvs s"
    by (simp add: sections_def us_def first_sections_def refresh_sections_def)
  ultimately show ?thesis by (simp only:)
qed

lemma key_inv_idle:
  "key_inv Parse ParseRange decode s wk (Some []) m \<longleftrightarrow> settings_view s wk = m \<and> exports_current Parse ParseRange wk s"
proof -
  have "sections us rs = [] \<longleftrightarrow> us = [] \<and> rs = []" for us rs by (simp add: sections_def)
  then show ?thesis by (simp add: key_inv_Some work_inv_def exports_current_def)
qed

lemma key_inv_event:
  assumes "iter_ok iter" and "key_inv Parse ParseRange decode s wk (Some []) m"
  shows "key_inv Parse ParseRange decode s wk (Some (event_sections iter wk e s)) (view_event decode e m)"
proof -
  have sec: "SetValue k v # refresh_sections iter wk s = sections [(k, v)] (key_files iter wk s)" for k v
    by (simp add: sections_def refresh_sections_def)
  have set: "key_inv Parse ParseRange decode s wk (Some (SetValue k v # refresh_sections iter wk s)) (view_set decode (k, v) m)" for k v
    unfolding sec using assms(2) by (intro key_inv_sections work_inv_all [OF assms(1)]) (simp add: key_inv_idle)
  show ?thesis using assms(2) by (cases e) (simp_all add: event_sections_def set)
qed

section \<open>Every interleaving\<close>

lemma section_of_pending [simp]:
  "section_of (w\<lparr>pending := f, told := t\<rparr>) k = (case f k of Some (a # as) \<Rightarrow> Some a | _ \<Rightarrow> None)"
  "section_of (w\<lparr>inside := ks, raced := b\<rparr>) k = section_of w k"
  by (simp_all add: section_of_def)

lemma section_of_Some: "section_of w k = Some a \<longleftrightarrow> (\<exists>as. pending w k = Some (a # as))"
  by (auto simp: section_of_def split: option.splits list.splits)

lemma races_sym: "races decode s p q = races decode s q p"
  by (auto simp: races_def list_ex_iff split: prod.splits)

text \<open>A message for a goroutine that waits.\<close>

lemma sys_inv_message:
  assumes inv: "sys_inv iter Parse ParseRange decode w" and idle: "section_of w wk = None"
    and key: "\<not> raced w \<Longrightarrow> key_inv Parse ParseRange decode (shared w) wk (Some as) m"
  shows "sys_inv iter Parse ParseRange decode (w\<lparr>pending := (pending w)(wk \<mapsto> as), told := (told w)(wk := m)\<rparr>)"
proof (cases "raced w")
  case False
  note i = sys_invD [OF inv False]
  define w' where "w' = w\<lparr>pending := (pending w)(wk \<mapsto> as), told := (told w)(wk := m)\<rparr>"
  have "wk \<notin> set (inside w)" using i(4) idle by (auto simp: sync_inv_def)
  then have "section_of w' k = section_of w k" if "k \<in> set (inside w)" for k using that by (auto simp: w'_def section_of_def)
  then have "sync_inv decode w' = sync_inv decode w"
    unfolding sync_inv_def by (simp add: w'_def)
  then show ?thesis unfolding w'_def [symmetric] using i(1-5) key [OF False] by (simp add: sys_inv_def w'_def)
qed (simp add: sys_inv_def)

lemma sys_inv_enter:
  assumes inv: "sys_inv iter Parse ParseRange decode w" and a: "section_of w wk = Some a" and free: "\<not> held (mutex_of a) w"
  shows "sys_inv iter Parse ParseRange decode (w\<lparr>inside := wk # inside w, raced := raced w \<or> list_ex (raced_with decode (wk, a) w) (inside w)\<rparr>)"
proof (cases "raced w \<or> list_ex (raced_with decode (wk, a) w) (inside w)")
  case False
  then have nr: "\<not> raced w" and apart: "\<And>k b. k \<in> set (inside w) \<Longrightarrow> section_of w k = Some b \<Longrightarrow> \<not> races decode (shared w) (wk, a) (k, b)"
    by (auto simp: list_ex_iff raced_with_def)
  note i = sys_invD [OF inv nr]
  have other: "mutex_of b \<noteq> mutex_of a \<and> mutex_of a \<noteq> mutex_of b" if "k \<in> set (inside w)" "section_of w k = Some b" for k b
    using free that by (auto simp: held_def list_ex_iff)
  have apart': "\<not> races decode (shared w) (k, b) (wk, a)" if "k \<in> set (inside w)" "section_of w k = Some b" for k b
    using apart [OF that] by (simp add: races_sym [of decode "shared w" "(k, b)"])
  have "sync_inv decode (w\<lparr>inside := wk # inside w, raced := False\<rparr>)"
    using i(4) a apart apart' other unfolding sync_inv_def by simp
  with i False show ?thesis by (simp add: sys_inv_def)
qed (simp add: sys_inv_def)

text \<open>There are two mutexes only, so a goroutine that leaves its section leaves at most one other inside.\<close>

lemma sync_inv_leave:
  assumes "sync_inv decode w" and "wk \<in> set (inside w)"
  shows "sync_inv decode (w\<lparr>shared := s, pending := (pending w)(wk := x), inside := removeAll wk (inside w)\<rparr>)"
proof -
  have two: "m = m' \<or> m' = m'' \<or> m = m''" for m m' m'' :: mutex by (cases m; cases m'; cases m'') simp_all
  have sec: "\<exists>a. section_of w k = Some a" if "k \<in> set (inside w)" for k using assms(1) that by (auto simp: sync_inv_def)
  have differ: "mutex_of a \<noteq> mutex_of b"
    if "k \<in> set (inside w)" "l \<in> set (inside w)" "k \<noteq> l" "section_of w k = Some a" "section_of w l = Some b" for k l a b
    using assms(1) that unfolding sync_inv_def by blast
  have "k = l" if kl: "k \<in> set (inside w)" "l \<in> set (inside w)" "k \<noteq> wk" "l \<noteq> wk" for k l
  proof (rule ccontr)
    assume "k \<noteq> l"
    from sec [OF kl(1)] sec [OF kl(2)] sec [OF assms(2)] obtain a b c
      where sections: "section_of w k = Some a" "section_of w l = Some b" "section_of w wk = Some c" by (elim exE)
    from two [of "mutex_of a" "mutex_of b" "mutex_of c"] differ [OF kl(1,2) \<open>k \<noteq> l\<close> sections(1,2)]
      differ [OF kl(1) assms(2) kl(3) sections(1,3)] differ [OF kl(2) assms(2) kl(4) sections(2,3)] show False by simp
  qed
  then show ?thesis using assms(1) by (auto simp: sync_inv_def section_of_def)
qed

lemma sys_inv_leave:
  assumes inv: "sys_inv iter Parse ParseRange decode w" and "pending w wk = Some (a # as)" and "wk \<in> set (inside w)"
    and run: "run_section iter Parse ParseRange decode wk a (shared w) = Ret s"
  shows "sys_inv iter Parse ParseRange decode (w\<lparr>shared := s, pending := (pending w)(wk \<mapsto> as), inside := removeAll wk (inside w)\<rparr>)"
proof (cases "raced w")
  case False
  note i = sys_invD [OF inv False]
  have own: "key_inv Parse ParseRange decode (shared w) wk (Some (a # as)) (told w wk)" using i(5) [of wk] assms(2) by simp
  from section_frame [OF i(1-3) run] key_inv_refreshes own have frame: "same_groups (shared w) s" "listen_ready s"
    "\<And>wk'. wk' \<noteq> wk \<Longrightarrow> settings_view s wk' = settings_view (shared w) wk'"
    "\<And>f n cfg. watched_config (shared w) f n = Some cfg \<Longrightarrow> wsi_Name cfg \<noteq> wk \<Longrightarrow> exported Parse ParseRange (shared w) f n cfg
        \<Longrightarrow> exported Parse ParseRange s f n cfg" by blast+
  have "key_inv Parse ParseRange decode s wk' (((pending w)(wk \<mapsto> as)) wk') (told w wk')" for wk'
  proof (cases "wk' = wk")
    case True
    with key_inv_section [OF i(1,3) run own] show ?thesis by simp
  next
    case False
    with key_inv_frame [OF i(2) frame(1) frame(3) frame(4) i(5), of wk'] show ?thesis by simp
  qed
  with i frame groups_same(3) [OF frame(1)] sync_inv_leave [OF i(4) assms(3)] show ?thesis by (simp add: sys_inv_def)
qed (simp add: sys_inv_def)

interpretation watches: invariant_system "sys_initial iter" "sys_step iter Parse ParseRange decode" "sys_inv iter Parse ParseRange decode"
proof
  fix w w' :: watch_system
  show "sys_initial iter w \<Longrightarrow> sys_inv iter Parse ParseRange decode w"
    by (auto simp: sys_initial_def sys_inv_def listen_ready_def settings_ok_def key_inv_def settings_view_def map_or_nil_def sync_inv_def)
  assume inv: "sys_inv iter Parse ParseRange decode w" and "sys_step iter Parse ParseRange decode w w'"
  then consider mv where "sys_next iter Parse ParseRange decode mv w = Some (Ret w')" | "raced w'"
    by (auto simp: sys_step_simp)
  then show "sys_inv iter Parse ParseRange decode w'"
  proof cases
    case (1 mv)
    note keys = sys_invD(5) [OF inv] and iter = sys_invD(1) [OF inv]
    show ?thesis
    proof (cases mv)
      case (First wk kvs)
      with 1 have "pending w wk = None" "w' = w\<lparr>pending := (pending w)(wk \<mapsto> first_sections iter wk kvs (shared w)),
          told := (told w)(wk := fold (view_set decode) kvs Map.empty)\<rparr>"
        by (auto simp: sys_next_def split: if_splits)
      with sys_inv_message [OF inv, of wk, OF _ key_inv_first] keys [of wk] iter show ?thesis by (simp add: section_of_def key_inv_def)
    next
      case (Event wk e)
      with 1 have "pending w wk = Some []" "w' = w\<lparr>pending := (pending w)(wk \<mapsto> event_sections iter wk e (shared w)),
          told := (told w)(wk := view_event decode e (told w wk))\<rparr>"
        by (auto simp: sys_next_def split: if_splits)
      with sys_inv_message [OF inv, of wk, OF _ key_inv_event] keys [of wk] iter show ?thesis by (simp add: section_of_def)
    next
      case (Enter wk)
      with 1 sys_inv_enter [OF inv] show ?thesis by (auto simp: sys_next_def split: option.splits if_splits)
    next
      case (Leave wk)
      with 1 sys_inv_leave [OF inv] show ?thesis by (auto simp: sys_next_def split: option.splits list.splits if_splits)
    next
      case (Throw wk k)
      with 1 show ?thesis by (auto simp: sys_next_def split: option.splits if_splits)
    qed
  qed (simp add: sys_inv_def)
qed

lemma section_total: "listen_ready s \<Longrightarrow> \<exists>s'. run_section iter Parse ParseRange decode wk a s = Ret s'"
  by (cases a) (auto simp: run_section_def listen_ready_def intro: refresh_file_total)

lemma Leave_possible:
  assumes "sys_inv iter Parse ParseRange decode w" and "\<not> raced w" and "wk \<in> set (inside w)"
  shows "\<exists>w'. sys_next iter Parse ParseRange decode (Leave wk) w = Some (Ret w')"
proof -
  note i = sys_invD [OF assms(1,2)]
  obtain a as where p: "pending w wk = Some (a # as)" using i(4) assms(3) section_of_Some by (fastforce simp: sync_inv_def)
  from section_total [OF i(3), of iter Parse ParseRange decode wk a] p assms(3) show ?thesis by (auto simp: sys_next_def)
qed

lemma Panic_raced:
  assumes inv: "sys_inv iter Parse ParseRange decode w" and "sys_next iter Parse ParseRange decode mv w = Some (Panic p)"
  shows "raced w"
proof (rule ccontr)
  assume nr: "\<not> raced w"
  note i = sys_invD [OF inv nr]
  show False
  proof (cases mv)
    case (Leave wk)
    with assms(2) obtain a as where "pending w wk = Some (a # as)" "wk \<in> set (inside w)"
      by (auto simp: sys_next_def split: option.splits list.splits if_splits)
    with Leave_possible [OF inv nr, of wk] assms(2) Leave show False by simp
  next
    case (Throw wk k)
    with assms(2) i(4) show False
      by (auto simp: sys_next_def sync_inv_def raced_with_def split: option.splits if_splits)
  qed (use assms(2) in \<open>auto simp: sys_next_def split: option.splits if_splits\<close>)
qed

text \<open>C4: the goroutines of the watches enter and leave their critical sections in any order that the two mutexes allow. As long as no refresh, which reads the
  mirror without its mutex, has overlapped with a section that writes the same map (the run has not raced): whenever the goroutine of a key waits for its next
  message, the mirror below that key is what the reports to its watch leave, and every list last exported for that key is current, whatever
  the other goroutines are doing; a goroutine inside a section can leave it, and one before a section can enter it or another goroutine holds its mutex and can leave;
  and no move panics. So a panic, and the fatal error of a concurrent access to a map, need a race.\<close>

theorem interleaved_watches_current:
  assumes "reachable (sys_initial iter) (sys_step iter Parse ParseRange decode) w"
  shows "(\<not> raced w \<longrightarrow> pending w wk = Some [] \<longrightarrow>
      settings_view (shared w) wk = told w wk \<and> exports_current Parse ParseRange wk (shared w))
    \<and> (\<not> raced w \<longrightarrow> wk \<in> set (inside w) \<longrightarrow> (\<exists>w'. sys_next iter Parse ParseRange decode (Leave wk) w = Some (Ret w')))
    \<and> (\<not> raced w \<longrightarrow> wk \<notin> set (inside w) \<longrightarrow> section_of w wk = Some a \<longrightarrow>
        (\<exists>w'. sys_next iter Parse ParseRange decode (Enter wk) w = Some (Ret w'))
        \<or> (\<exists>k b w'. k \<in> set (inside w) \<and> section_of w k = Some b \<and> mutex_of b = mutex_of a
             \<and> sys_next iter Parse ParseRange decode (Leave k) w = Some (Ret w')))
    \<and> (sys_next iter Parse ParseRange decode mv w = Some (Panic p) \<longrightarrow> raced w)"
proof -
  have inv: "sys_inv iter Parse ParseRange decode w" by (rule watches.reachable_inv [OF assms])
  have "settings_view (shared w) wk = told w wk \<and> exports_current Parse ParseRange wk (shared w)"
    if "\<not> raced w" "pending w wk = Some []"
    using sys_invD(5) [OF inv that(1), of wk] that(2) by (simp add: key_inv_idle)
  moreover have "\<exists>w'. sys_next iter Parse ParseRange decode (Enter wk) w = Some (Ret w')"
    if "wk \<notin> set (inside w)" "section_of w wk = Some a" "\<not> held (mutex_of a) w"
    using that by (simp add: sys_next_def)
  moreover have "\<exists>k b. k \<in> set (inside w) \<and> section_of w k = Some b \<and> mutex_of b = mutex_of a" if "held (mutex_of a) w"
    using that by (auto simp: held_def list_ex_iff)
  ultimately show ?thesis using Leave_possible [OF inv] Panic_raced [OF inv] by blast
qed

section \<open>Examples\<close>

text \<open>A run of the system, as the list of its moves.\<close>

fun sys_run :: "(string list \<Rightarrow> string list) \<Rightarrow> (string \<Rightarrow> 'ver option) \<Rightarrow> (string \<Rightarrow> ('ver \<Rightarrow> bool) option)
    \<Rightarrow> (string \<Rightarrow> nodeInfo option) \<Rightarrow> sys_label list \<Rightarrow> watch_system \<Rightarrow> watch_system option" where
  "sys_run iter Parse ParseRange decode [] w = Some w"
| "sys_run iter Parse ParseRange decode (mv # mvs) w =
     (case sys_next iter Parse ParseRange decode mv w of
        Some (Ret w') \<Rightarrow> sys_run iter Parse ParseRange decode mvs w'
      | _ \<Rightarrow> None)"

lemma sys_run_reachable:
  "reachable (sys_initial iter) (sys_step iter Parse ParseRange decode) w \<Longrightarrow>
   sys_run iter Parse ParseRange decode mvs w = Some w' \<Longrightarrow> reachable (sys_initial iter) (sys_step iter Parse ParseRange decode) w'"
proof (induction mvs arbitrary: w)
  case (Cons mv mvs)
  then obtain w1 where w1: "sys_next iter Parse ParseRange decode mv w = Some (Ret w1)" "sys_run iter Parse ParseRange decode mvs w1 = Some w'"
    by (auto split: option.splits go.splits)
  from Cons.IH [OF reach_step [OF Cons.prems(1) sys_move [OF w1(1)]] w1(2)] show ?case .
qed simp

text \<open>One file with a name for each of two keys.\<close>

definition empty_listen :: listen where
  "empty_listen = \<lparr>outputFileHasKeys = [], namesWithOutputFile = [], outputFileMap = [], etcdSettings = [], etcdw = None,
     lsio = True, exports = []\<rparr>"

definition two_keys :: watch_system where
  "two_keys =
     \<lparr>shared = snd (AddGroupWatchs (\<lambda>xs. xs) [(''web'', \<lparr>wsi_Name = ''/s'', wsi_Version = ''1''\<rparr>), (''api'', \<lparr>wsi_Name = ''/t'', wsi_Version = ''1''\<rparr>)]
        ''g'' empty_listen), pending = (\<lambda>_. None), inside = [], raced = False, told = (\<lambda>_. Map.empty)\<rparr>"

text \<open>A run in which the sections of the two keys overlap without a race: the goroutine of the second key changes a node while the
  first one refreshes the file.\<close>

definition two_keys_run :: "sys_label list" where
  "two_keys_run = [First ''/s'' [(''/s/0'', ''1'')], First ''/t'' [(''/t/0'', ''1'')], Enter ''/s'', Leave ''/s'', Enter ''/t'', Leave ''/t'',
     Enter ''/t'', Leave ''/t'', Event ''/t'' (Modified ''/t/0'' ''1''), Enter ''/s'', Enter ''/t'', Leave ''/s'']"

text \<open>And one with a race: the first key appears in the mirror while the goroutine of the second key refreshes the file.\<close>

definition racing_run :: "sys_label list" where
  "racing_run = [First ''/s'' [(''/s/0'', ''1'')], First ''/t'' [], Enter ''/t'', Leave ''/t'', Enter ''/t'', Enter ''/s'']"

lemma two_keys_reachable: "reachable (sys_initial (\<lambda>xs. xs)) (sys_step (\<lambda>xs. xs) Parse ParseRange decode) two_keys"
proof (rule reach_init)
  have empty: "index_ok empty_listen"
    by (auto simp: index_ok_def watched_names_def names_about_def watched_config_def empty_listen_def)
  have "AddGroupWatchs (\<lambda>xs. xs) wsi f empty_listen = (None, snd (AddGroupWatchs (\<lambda>xs. xs) wsi f empty_listen))" for wsi f
    by (simp add: AddGroupWatchs_def empty_listen_def)
  from AddGroupWatchs_index_ok [OF iter_ok_id empty _ this] show "sys_initial (\<lambda>xs. xs) two_keys"
    by (simp add: sys_initial_def two_keys_def iter_ok_id) (simp add: AddGroupWatchs_def empty_listen_def)
qed

lemmas run_eval = sys_next_def section_of_def held_def raced_with_def races_def reads_def writes_def AddGroupWatchs_def empty_listen_def
  add_name_def range_map_def map_or_nil_def first_sections_def refresh_sections_def key_files_def event_sections_def watched_config_def
  run_section_def tiggerChangeWatchKeyValue_def sample_decode_def refresh_file_def refresh_name_def expected_def Let_def two_keys_def

text \<open>The race is reachable, and it can end the process.\<close>

lemma race_reachable:
  "\<exists>w. reachable (sys_initial (\<lambda>xs. xs)) (sys_step (\<lambda>xs. xs) Some (\<lambda>r. Some (\<lambda>v. v = r)) sample_decode) w \<and> raced w
    \<and> sys_next (\<lambda>xs. xs) Some (\<lambda>r. Some (\<lambda>v. v = r)) sample_decode (Throw ''/t'' ''/s'') w = Some (Panic ConcurrentMapAccess)"
proof -
  define w where "w = the (sys_run (\<lambda>xs. xs) Some (\<lambda>r. Some (\<lambda>v. v = r)) sample_decode racing_run two_keys)"
  have "sys_run (\<lambda>xs. xs) Some (\<lambda>r. Some (\<lambda>v. v = r)) sample_decode racing_run two_keys = Some w" and "raced w"
    and "sys_next (\<lambda>xs. xs) Some (\<lambda>r. Some (\<lambda>v. v = r)) sample_decode (Throw ''/t'' ''/s'') w = Some (Panic ConcurrentMapAccess)"
    by (simp_all add: w_def racing_run_def run_eval)
  then show ?thesis using sys_run_reachable [OF two_keys_reachable] by blast
qed

theorem interleaved_watches_current_witness:
  "\<exists>w. sys_run (\<lambda>xs. xs) Some (\<lambda>r. Some (\<lambda>v. v = r)) sample_decode two_keys_run two_keys = Some w \<and> \<not> raced w
    \<and> inside w = [''/t''] \<and> settings_view (shared w) ''/s'' = view_set sample_decode (''/s/0'', ''1'') Map.empty
    \<and> exports_current Some (\<lambda>r. Some (\<lambda>v. v = r)) ''/s'' (shared w)"
proof -
  define w where "w = the (sys_run (\<lambda>xs. xs) Some (\<lambda>r. Some (\<lambda>v. v = r)) sample_decode two_keys_run two_keys)"
  have r: "sys_run (\<lambda>xs. xs) Some (\<lambda>r. Some (\<lambda>v. v = r)) sample_decode two_keys_run two_keys = Some w" "\<not> raced w"
    and p: "inside w = [''/t'']" "pending w ''/s'' = Some []" "told w ''/s'' = view_set sample_decode (''/s/0'', ''1'') Map.empty"
    by (simp_all add: w_def two_keys_run_def run_eval)
  from interleaved_watches_current [OF sys_run_reachable [OF two_keys_reachable r(1)], of "''/s''"] r p show ?thesis by simp
qed

end
