(* ===== verification/Mq_Producer.thy ===== *)
theory Mq_Producer
  imports Go_Strings "HOL-Library.AList"
begin

text \<open>
  The message producer (\<open>components/mq/producer.go\<close>): the rotation through the lookup servers, the pools of connections to the
  message servers, publishing with retries, and closing. A buffered channel of connections is the list of
  its elements with its capacity. What the lookup servers answer, whether a connection can be made and how
  a publish ends are parameters, as is the result of parsing an address as a URL. Methods that lock run
  as one step.
\<close>

section \<open>State\<close>

record conn =
  conn_addr :: string
  conn_serial :: nat

record producerPool =
  closed :: bool
  conns :: "conn list"
  conns_cap :: nat
  conns_closed :: bool

record Producer =
  lookupdQueryIndex :: int
  lookupdHTTPAddrs :: "string list"
  nsqdTCPAddrs :: "string list"
  connections :: "(string \<times> producerPool) list"
  exit_closed :: bool
  loops :: nat
  next_serial :: nat
  stopped :: "conn list"

record peerInfo =
  BroadcastAddress :: string
  TCPPort :: int

datatype mq_error =
    ErrNotConnected
  | ErrStopped
  | ErrClosing
  | ErrAlreadyConnected
  | ErrOverMaxInFlight
  | MqText string

definition NewProducer :: Producer where
  "NewProducer = \<lparr>lookupdQueryIndex = 0, lookupdHTTPAddrs = [], nsqdTCPAddrs = [], connections = [], exit_closed = False,
                  loops = 0, next_serial = 0, stopped = []\<rparr>"

section \<open>Connections\<close>

definition ConnectToNSQD :: "(string \<Rightarrow> string option) \<Rightarrow> string \<Rightarrow> int \<Rightarrow> Producer \<Rightarrow> (mq_error option \<times> Producer) go" where
  "ConnectToNSQD dial addr poolCap p =
     (case map_of (connections p) addr of
        Some _ \<Rightarrow> Ret (Some ErrAlreadyConnected, p)
      | None \<Rightarrow>
          if poolCap < 0 then Panic (Explicit ''makechan: size out of range'')
          else
            let pool = \<lparr>closed = False, conns = [], conns_cap = nat poolCap, conns_closed = False\<rparr>;
                p1 = p\<lparr>connections := AList.update addr pool (connections p)\<rparr>
            in case dial addr of
                 Some e \<Rightarrow> Ret (Some (MqText e), p1)
               | None \<Rightarrow>
                   let c = \<lparr>conn_addr = addr, conn_serial = next_serial p1\<rparr>
                   in Ret (None, p1\<lparr>connections := AList.update addr (pool\<lparr>conns := replicate (nat poolCap) c\<rparr>) (connections p1),
                                    next_serial := Suc (next_serial p1)\<rparr>))"

fun has_infix :: "string \<Rightarrow> string \<Rightarrow> bool" where
  "has_infix pat [] = (pat = [])"
| "has_infix pat (c # s) = (take (length pat) (c # s) = pat \<or> has_infix pat s)"

text \<open>
  The parameter \<open>nodes_url\<close> parses a URL, sets an empty path to \<open>/nodes\<close> and prints it; \<open>None\<close> where
  \<open>url.Parse\<close> fails.
\<close>

definition url_string :: "string \<Rightarrow> string" where
  "url_string addr = (if \<not> has_infix ''://'' addr then ''http://'' @ addr else addr)"

definition nextLookupdEndpoint :: "(string \<Rightarrow> string option) \<Rightarrow> Producer \<Rightarrow> (string \<times> Producer) go" where
  "nextLookupdEndpoint nodes_url p =
     (let i = (if lookupdQueryIndex p \<ge> int (length (lookupdHTTPAddrs p)) then 0 else lookupdQueryIndex p) in
      go_bind (go_index (lookupdHTTPAddrs p) i) (\<lambda>addr.
      go_bind (go_mod (int64 (i + 1)) (int (length (lookupdHTTPAddrs p)))) (\<lambda>next.
        let p1 = p\<lparr>lookupdQueryIndex := next\<rparr> in
        case nodes_url (url_string addr) of
          None \<Rightarrow> Panic (Explicit ''url.Parse'')
        | Some u \<Rightarrow> Ret (u, p1))))"

definition JoinHostPort :: "string \<Rightarrow> string \<Rightarrow> string" where
  "JoinHostPort host port =
     (if CHR '':'' \<in> set host then ''['' @ host @ '']:'' @ port else host @ '':'' @ port)"

fun nsqd_addrs :: "peerInfo option list \<Rightarrow> string list go" where
  "nsqd_addrs [] = Ret []"
| "nsqd_addrs (None # ps) = Panic NilDereference"
| "nsqd_addrs (Some producer # ps) =
     go_bind (nsqd_addrs ps) (\<lambda>as. Ret (JoinHostPort (BroadcastAddress producer) (Itoa (TCPPort producer)) # as))"

text \<open>
  \<open>queryLookupd\<close>: \<open>lookup\<close> gives the answer to each request, \<open>None\<close> for a failed one; the first argument
  counts the attempts that are left, and the answer may depend on it, so that one server can fail and answer later.
\<close>

fun queryLookupd_retry :: "nat \<Rightarrow> (string \<Rightarrow> string option) \<Rightarrow> (nat \<Rightarrow> string \<Rightarrow> peerInfo option list option) \<Rightarrow> (string \<Rightarrow> string option)
    \<Rightarrow> int \<Rightarrow> Producer \<Rightarrow> Producer go" where
  "queryLookupd_retry 0 nodes_url lookup dial poolCap p = Ret p"
| "queryLookupd_retry (Suc retries) nodes_url lookup dial poolCap p =
     go_bind (nextLookupdEndpoint nodes_url p) (\<lambda>(endpoint, p1).
       case lookup retries endpoint of
         None \<Rightarrow> queryLookupd_retry retries nodes_url lookup dial poolCap p1
       | Some producers \<Rightarrow>
           go_bind (nsqd_addrs producers) (\<lambda>addrs.
           go_bind (go_fold (\<lambda>addr p. go_bind (ConnectToNSQD dial addr poolCap p) (\<lambda>(err, p'). Ret p')) addrs p1) (\<lambda>p2.
             Ret (p2\<lparr>nsqdTCPAddrs := addrs\<rparr>))))"

definition queryLookupd :: "(string \<Rightarrow> string option) \<Rightarrow> (nat \<Rightarrow> string \<Rightarrow> peerInfo option list option) \<Rightarrow> (string \<Rightarrow> string option)
    \<Rightarrow> int \<Rightarrow> Producer \<Rightarrow> Producer go" where
  "queryLookupd = queryLookupd_retry 3"

definition ConnectToNSQLookupd :: "(string \<Rightarrow> string option) \<Rightarrow> (nat \<Rightarrow> string \<Rightarrow> peerInfo option list option) \<Rightarrow> (string \<Rightarrow> string option)
    \<Rightarrow> string \<Rightarrow> int \<Rightarrow> Producer \<Rightarrow> (mq_error option \<times> Producer) go" where
  "ConnectToNSQLookupd nodes_url lookup dial addr poolCap p =
     (if addr \<in> set (lookupdHTTPAddrs p) then Ret (None, p)
      else
        let p1 = p\<lparr>lookupdHTTPAddrs := lookupdHTTPAddrs p @ [addr]\<rparr> in
        if length (lookupdHTTPAddrs p1) = 1
        then go_bind (queryLookupd nodes_url lookup dial poolCap p1) (\<lambda>p2. Ret (None, p2\<lparr>loops := Suc (loops p2)\<rparr>))
        else Ret (None, p1))"

text \<open>
  The loop that polls the lookup servers, over the messages its \<open>select\<close> receives: a tick, with what
  the servers answer then, or the end of the exit channel.
\<close>

datatype poll_msg = Tick "nat \<Rightarrow> string \<Rightarrow> peerInfo option list option" | Exit

fun lookupdLoop_select :: "(string \<Rightarrow> string option) \<Rightarrow> (string \<Rightarrow> string option) \<Rightarrow> int \<Rightarrow> poll_msg list \<Rightarrow> Producer \<Rightarrow> Producer go" where
  "lookupdLoop_select nodes_url dial poolCap [] p = Ret p"
| "lookupdLoop_select nodes_url dial poolCap (Tick lookup # ms) p =
     go_bind (queryLookupd nodes_url lookup dial poolCap p) (lookupdLoop_select nodes_url dial poolCap ms)"
| "lookupdLoop_select nodes_url dial poolCap (Exit # ms) p = Ret (p\<lparr>loops := loops p - 1\<rparr>)"

text \<open>The ticker is made with \<open>LookupdPollInterval\<close> of the configuration; \<open>time.NewTicker\<close> panics unless it is positive.\<close>

definition lookupdLoop :: "int \<Rightarrow> (string \<Rightarrow> string option) \<Rightarrow> (string \<Rightarrow> string option) \<Rightarrow> int \<Rightarrow> poll_msg list \<Rightarrow> Producer \<Rightarrow> Producer go" where
  "lookupdLoop interval nodes_url dial poolCap ms p =
     (if interval \<le> 0 then Panic (Explicit ''non-positive interval for NewTicker'') else lookupdLoop_select nodes_url dial poolCap ms p)"

section \<open>Publishing\<close>

text \<open>
  Taking a connection: an error, a connection with its address, or waiting. On a closed and drained channel the
  loop of the source spins, which waits as well.
\<close>

datatype taken = Failed mq_error | Taken string conn | Waits

definition getProducerConn :: "nat \<Rightarrow> Producer \<Rightarrow> (taken \<times> Producer) go" where
  "getProducerConn draw p =
     (if nsqdTCPAddrs p = [] \<or> connections p = [] then Ret (Failed (MqText ''producer not exist''), p)
      else
        let addr = nsqdTCPAddrs p ! (draw mod length (nsqdTCPAddrs p)) in
        case map_of (connections p) addr of
          None \<Rightarrow> Panic NilDereference
        | Some pool \<Rightarrow>
            if closed pool then Ret (Failed (MqText ''connect pool is closed''), p)
            else
              (case conns pool of
                 [] \<Rightarrow> Ret (Waits, p)
               | c # cs \<Rightarrow> Ret (Taken addr c, p\<lparr>connections := AList.update addr (pool\<lparr>conns := cs\<rparr>) (connections p)\<rparr>)))"

definition putProducerConn :: "string \<Rightarrow> conn \<Rightarrow> Producer \<Rightarrow> (mq_error option \<times> Producer) go" where
  "putProducerConn addr producer p =
     (case map_of (connections p) addr of
        None \<Rightarrow> Panic NilDereference
      | Some pool \<Rightarrow>
          if closed pool then Ret (Some (MqText ''connect pool is closed''), p)
          else if conns_closed pool then Panic ClosedChannel
          else if length (conns pool) < conns_cap pool
          then Ret (None, p\<lparr>connections := AList.update addr (pool\<lparr>conns := conns pool @ [producer]\<rparr>) (connections p)\<rparr>)
          else Ret (Some (MqText (''connect addr('' @ addr @ '') pool is filled'')), p\<lparr>stopped := stopped p @ [producer]\<rparr>))"

text \<open>
  \<open>publish i\<close> is the error of the attempt with number \<open>i\<close>. The result is \<open>None\<close> while the call waits. A call is one step here: the moves of other calls
  between taking a connection and giving it back are not modelled.
\<close>

fun publish_retry :: "(nat \<Rightarrow> string option) \<Rightarrow> nat \<Rightarrow> nat \<Rightarrow> string option" where
  "publish_retry publish i 0 = publish i"
| "publish_retry publish i (Suc left) =
     (case publish i of None \<Rightarrow> None | Some e \<Rightarrow> publish_retry publish (Suc i) left)"

definition Publish :: "nat \<Rightarrow> (nat \<Rightarrow> string option) \<Rightarrow> Producer \<Rightarrow> (mq_error option option \<times> Producer) go" where
  "Publish draw publish p =
     go_bind (getProducerConn draw p) (\<lambda>(t, p1).
       case t of
         Failed e \<Rightarrow> Ret (Some (Some e), p1)
       | Waits \<Rightarrow> Ret (None, p1)
       | Taken addr producer \<Rightarrow>
           (case publish_retry publish 0 2 of
              Some e \<Rightarrow>
                go_bind (putProducerConn addr producer p1) (\<lambda>(err, p2).
                  if err \<noteq> None then Ret (Some err, p2) else Ret (Some err, p2))
            | None \<Rightarrow>
                go_bind (putProducerConn addr producer p1) (\<lambda>(err, p2).
                  if err \<noteq> None then Ret (Some err, p2) else Ret (Some None, p2))))"

definition close_pool :: "string \<times> producerPool \<Rightarrow> Producer \<Rightarrow> Producer go" where
  "close_pool ap p =
     (let (addr, pool) = ap in
      if conns_closed pool then Panic ClosedChannel
      else Ret (p\<lparr>connections := AList.update addr (pool\<lparr>conns := [], conns_closed := True, closed := True\<rparr>) (connections p),
                  stopped := stopped p @ conns pool\<rparr>))"

definition Close :: "Producer \<Rightarrow> Producer go" where
  "Close p =
     go_bind (go_fold close_pool (connections p) p) (\<lambda>p1.
       if exit_closed p1 then Panic ClosedChannel else Ret (p1\<lparr>exit_closed := True\<rparr>))"

section \<open>Asking the lookup servers in turn\<close>

definition lookups_ready :: "(string \<Rightarrow> string option) \<Rightarrow> Producer \<Rightarrow> bool" where
  "lookups_ready nodes_url p \<longleftrightarrow> lookupdHTTPAddrs p \<noteq> [] \<and> length (lookupdHTTPAddrs p) < 2 ^ 63 \<and> 0 \<le> lookupdQueryIndex p
     \<and> list_all (\<lambda>a. nodes_url (url_string a) \<noteq> None) (lookupdHTTPAddrs p)"

definition lookup_endpoints :: "(string \<Rightarrow> string option) \<Rightarrow> Producer \<Rightarrow> string list" where
  "lookup_endpoints nodes_url p = map (\<lambda>a. the (nodes_url (url_string a))) (lookupdHTTPAddrs p)"

definition lookup_cursor :: "Producer \<Rightarrow> nat" where
  "lookup_cursor p = (if lookupdQueryIndex p \<ge> int (length (lookupdHTTPAddrs p)) then 0 else nat (lookupdQueryIndex p))"

definition pick_endpoint :: "(string \<Rightarrow> string option) \<Rightarrow> Producer \<Rightarrow> (string \<times> Producer) option" where
  "pick_endpoint nodes_url p = (case nextLookupdEndpoint nodes_url p of Ret r \<Rightarrow> Some r | Panic _ \<Rightarrow> None)"

lemma nextLookupdEndpoint_ready:
  assumes "lookups_ready nodes_url p"
  shows "nextLookupdEndpoint nodes_url p = Ret (lookup_endpoints nodes_url p ! lookup_cursor p,
    p\<lparr>lookupdQueryIndex := int (Suc (lookup_cursor p) mod length (lookupdHTTPAddrs p))\<rparr>)"
proof -
  define c where "c = lookup_cursor p"
  let ?n = "length (lookupdHTTPAddrs p)"
  have r: "lookupdHTTPAddrs p \<noteq> []" "0 \<le> lookupdQueryIndex p" "?n < 2 ^ 63" using assms by (simp_all add: lookups_ready_def)
  have c: "c < ?n" using r by (auto simp: c_def lookup_cursor_def)
  have i: "(if lookupdQueryIndex p \<ge> int ?n then 0 else lookupdQueryIndex p) = int c" using r by (simp add: c_def lookup_cursor_def)
  have "int64 (int c + 1) = int c + 1" using c r(3) by (intro int64_id) (simp add: in_int64_def)
  then have m: "go_mod (int64 (int c + 1)) (int ?n) = Ret (int (Suc c mod ?n))"
    using r(1) go_mod_pos [of "1 + int c" "int ?n"] by (simp add: zmod_int add.commute)
  obtain u where u: "nodes_url (url_string (lookupdHTTPAddrs p ! c)) = Some u"
    using assms c by (fastforce simp: lookups_ready_def list_all_length)
  then have "lookup_endpoints nodes_url p ! c = u" using c by (simp add: lookup_endpoints_def)
  then show ?thesis
    using c m u unfolding nextLookupdEndpoint_def Let_def i c_def [symmetric] by (simp add: go_index_in)
qed

interpretation lookups: cyclic_selector "lookup_endpoints nodes_url" lookup_cursor "pick_endpoint nodes_url" "lookups_ready nodes_url"
proof
  fix p
  assume r: "lookups_ready nodes_url p"
  show "lookup_endpoints nodes_url p \<noteq> []" using r by (simp add: lookups_ready_def lookup_endpoints_def)
  have c: "lookup_cursor p < length (lookupdHTTPAddrs p)" using r by (auto simp: lookup_cursor_def lookups_ready_def)
  have "Suc (lookup_cursor p) mod length (lookupdHTTPAddrs p) < length (lookupdHTTPAddrs p)"
    by (rule mod_less_divisor) (use r in \<open>simp add: lookups_ready_def\<close>)
  then have "lookup_cursor (p\<lparr>lookupdQueryIndex := int (Suc (lookup_cursor p) mod length (lookupdHTTPAddrs p))\<rparr>)
      = Suc (lookup_cursor p) mod length (lookupdHTTPAddrs p)"
    unfolding lookup_cursor_def [of "p\<lparr>lookupdQueryIndex := x\<rparr>" for x] by simp
  with nextLookupdEndpoint_ready [OF r] r c
  show "\<exists>p'. pick_endpoint nodes_url p = Some (lookup_endpoints nodes_url p ! (lookup_cursor p mod length (lookup_endpoints nodes_url p)), p')
      \<and> lookups_ready nodes_url p' \<and> lookup_endpoints nodes_url p' = lookup_endpoints nodes_url p
      \<and> lookup_cursor p' mod length (lookup_endpoints nodes_url p) = Suc (lookup_cursor p) mod length (lookup_endpoints nodes_url p)"
    by (simp add: pick_endpoint_def lookup_endpoints_def lookups_ready_def)
qed

text \<open>As many queries as there are lookup servers ask every one of them once, in the order they were added, starting with
  the server under the cursor.\<close>

lemma lookup_full_round:
  assumes "lookups_ready nodes_url p"
  shows "\<exists>p'. picks (pick_endpoint nodes_url) (length (lookupdHTTPAddrs p)) p
    = Some (rotate (lookup_cursor p) (lookup_endpoints nodes_url p), p')"
  using lookups.full_round [OF assms] by (metis length_map lookup_endpoints_def)

text \<open>When no server answers, a query uses up its three attempts, each on the next server, and changes nothing but the cursor: the addresses that were
  found before stay in use.\<close>

lemma lookups_ready_moved:
  assumes "lookups_ready nodes_url p"
  shows "lookups_ready nodes_url (p\<lparr>lookupdQueryIndex := int (k mod length (lookupdHTTPAddrs p))\<rparr>)"
    and "lookup_cursor (p\<lparr>lookupdQueryIndex := int (k mod length (lookupdHTTPAddrs p))\<rparr>) = k mod length (lookupdHTTPAddrs p)"
proof -
  have "0 < length (lookupdHTTPAddrs p)" using assms by (simp add: lookups_ready_def)
  then have "k mod length (lookupdHTTPAddrs p) < length (lookupdHTTPAddrs p)" by (rule mod_less_divisor)
  then show "lookup_cursor (p\<lparr>lookupdQueryIndex := int (k mod length (lookupdHTTPAddrs p))\<rparr>) = k mod length (lookupdHTTPAddrs p)"
    unfolding lookup_cursor_def by simp
  show "lookups_ready nodes_url (p\<lparr>lookupdQueryIndex := int (k mod length (lookupdHTTPAddrs p))\<rparr>)"
    using assms by (simp add: lookups_ready_def)
qed

lemma queryLookupd_unreachable:
  assumes "lookups_ready nodes_url p" and "\<And>r u. u \<in> set (lookup_endpoints nodes_url p) \<Longrightarrow> lookup r u = None"
  shows "queryLookupd_retry (Suc k) nodes_url lookup dial n p
    = Ret (p\<lparr>lookupdQueryIndex := int ((Suc k + lookup_cursor p) mod length (lookupdHTTPAddrs p))\<rparr>)"
  using assms
proof (induction k arbitrary: p)
  case 0
  have "lookup_cursor p < length (lookup_endpoints nodes_url p)"
    using 0(1) by (auto simp: lookup_cursor_def lookups_ready_def lookup_endpoints_def)
  then show ?case using nextLookupdEndpoint_ready [OF 0(1)] 0(2) by simp
next
  case (Suc k)
  define q where "q = p\<lparr>lookupdQueryIndex := int (Suc (lookup_cursor p) mod length (lookupdHTTPAddrs p))\<rparr>"
  have "lookup_cursor p < length (lookup_endpoints nodes_url p)"
    using Suc.prems(1) by (auto simp: lookup_cursor_def lookups_ready_def lookup_endpoints_def)
  then have "queryLookupd_retry (Suc (Suc k)) nodes_url lookup dial n p = queryLookupd_retry (Suc k) nodes_url lookup dial n q"
    using nextLookupdEndpoint_ready [OF Suc.prems(1)] Suc.prems(2)
    by (subst queryLookupd_retry.simps(2)) (simp add: q_def del: queryLookupd_retry.simps(2))
  also have "\<dots> = Ret (q\<lparr>lookupdQueryIndex := int ((Suc k + lookup_cursor q) mod length (lookupdHTTPAddrs q))\<rparr>)"
    using Suc.prems by (intro Suc.IH) (simp_all add: q_def lookups_ready_moved lookup_endpoints_def)
  also have "\<dots> = Ret (p\<lparr>lookupdQueryIndex := int ((Suc (Suc k) + lookup_cursor p) mod length (lookupdHTTPAddrs p))\<rparr>)"
    using lookups_ready_moved(2) [OF Suc.prems(1), of "Suc (lookup_cursor p)"]
      mod_add_right_eq [of "Suc k" "Suc (lookup_cursor p)" "length (lookupdHTTPAddrs p)"] by (simp add: q_def)
  finally show ?case .
qed

section \<open>The pools\<close>

definition pool_ok :: "string \<Rightarrow> producerPool \<Rightarrow> bool" where
  "pool_ok a pool \<longleftrightarrow> (closed pool \<longleftrightarrow> conns_closed pool) \<and> length (conns pool) \<le> conns_cap pool \<and> (closed pool \<longrightarrow> conns pool = [])
     \<and> list_all (\<lambda>c. conn_addr c = a) (conns pool)"

definition pools_ok :: "Producer \<Rightarrow> bool" where
  "pools_ok p \<longleftrightarrow> distinct (map fst (connections p)) \<and> (\<forall>a pool. map_of (connections p) a = Some pool \<longrightarrow> pool_ok a pool)
     \<and> set (nsqdTCPAddrs p) \<subseteq> dom (map_of (connections p))"

lemma pools_ok_pool: "pools_ok p \<Longrightarrow> map_of (connections p) a = Some pool \<Longrightarrow> pool_ok a pool"
  by (simp add: pools_ok_def)

lemma pools_ok_addr: "pools_ok p \<Longrightarrow> a \<in> set (nsqdTCPAddrs p) \<Longrightarrow> \<exists>pool. map_of (connections p) a = Some pool"
  unfolding pools_ok_def by blast

lemma pools_ok_update:
  assumes "pools_ok p" and "pool_ok a pool"
  shows "pools_ok (p\<lparr>connections := AList.update a pool (connections p)\<rparr>)"
  using assms by (auto simp: pools_ok_def distinct_update update_conv')

lemma pools_ok_frame:
  "pools_ok p \<Longrightarrow> connections p' = connections p \<Longrightarrow> nsqdTCPAddrs p' = nsqdTCPAddrs p \<Longrightarrow> pools_ok p'"
  by (simp add: pools_ok_def)

lemma ConnectToNSQD_ok:
  assumes "pools_ok p" and "ConnectToNSQD dial a n p = Ret (e, p')"
  shows "pools_ok p' \<and> insert a (dom (map_of (connections p))) = dom (map_of (connections p')) \<and> nsqdTCPAddrs p' = nsqdTCPAddrs p"
proof (cases "map_of (connections p) a")
  case (Some pool)
  then show ?thesis using assms by (auto simp: ConnectToNSQD_def)
next
  case None
  define pool where "pool = \<lparr>closed = False, conns = [], conns_cap = nat n, conns_closed = False\<rparr>"
  define p1 where "p1 = p\<lparr>connections := AList.update a pool (connections p)\<rparr>"
  have ok1: "pools_ok p1" using assms(1) by (simp add: p1_def pools_ok_update pool_ok_def pool_def)
  define pool2 where "pool2 = pool\<lparr>conns := replicate (nat n) \<lparr>conn_addr = a, conn_serial = next_serial p1\<rparr>\<rparr>"
  have "pools_ok (p1\<lparr>connections := AList.update a pool2 (connections p1)\<rparr>)"
    using ok1 by (rule pools_ok_update) (auto simp: pool_ok_def pool2_def pool_def list_all_iff)
  then have "pools_ok (p1\<lparr>connections := AList.update a pool2 (connections p1), next_serial := m\<rparr>)" for m
    by (rule pools_ok_frame) simp_all
  moreover have "p' = p1 \<or> (\<exists>m. p' = p1\<lparr>connections := AList.update a pool2 (connections p1), next_serial := m\<rparr>)"
    using assms(2) None
    by (auto simp: ConnectToNSQD_def Let_def p1_def pool2_def pool_def split: if_splits option.splits)
  ultimately show ?thesis
    using ok1 by (auto simp: p1_def update_conv')
qed

lemma nsqd_connect_all:
  assumes "go_fold (\<lambda>addr p. go_bind (ConnectToNSQD dial addr n p) (\<lambda>(err, p'). Ret p')) addrs p = Ret p'" and "pools_ok p"
  shows "pools_ok p' \<and> set addrs \<union> dom (map_of (connections p)) \<subseteq> dom (map_of (connections p'))"
  using assms
proof (induction addrs arbitrary: p)
  case (Cons a addrs)
  then obtain e p1 where p1: "ConnectToNSQD dial a n p = Ret (e, p1)"
    "go_fold (\<lambda>addr p. go_bind (ConnectToNSQD dial addr n p) (\<lambda>(err, p'). Ret p')) addrs p1 = Ret p'" by fastforce
  note ok = ConnectToNSQD_ok [OF Cons.prems(2) p1(1)]
  then have "set addrs \<union> dom (map_of (connections p1)) \<subseteq> dom (map_of (connections p'))" "pools_ok p'"
    using Cons.IH [OF p1(2)] by blast+
  moreover have "dom (map_of (connections p1)) = insert a (dom (map_of (connections p)))" using ok by blast
  ultimately show ?case by simp
qed simp

lemma queryLookupd_ok:
  "queryLookupd_retry k nodes_url lookup dial n p = Ret p' \<Longrightarrow> pools_ok p \<Longrightarrow> pools_ok p'"
proof (induction k arbitrary: p)
  case (Suc k)
  then obtain u p1 where p1: "nextLookupdEndpoint nodes_url p = Ret (u, p1)" by fastforce
  then have ok1: "pools_ok p1"
    using Suc.prems(2)
    by (intro pools_ok_frame [OF Suc.prems(2)]) (auto simp: nextLookupdEndpoint_def Let_def split: option.splits)
  show ?case
  proof (cases "lookup k u")
    case None
    then show ?thesis using Suc.prems(1) p1 ok1 Suc.IH [of p1] by simp
  next
    case (Some producers)
    then obtain addrs p2 where "go_fold (\<lambda>addr p. go_bind (ConnectToNSQD dial addr n p) (\<lambda>(err, p'). Ret p')) addrs p1 = Ret p2"
      "p' = p2\<lparr>nsqdTCPAddrs := addrs\<rparr>"
      using Suc.prems(1) p1 by auto
    with nsqd_connect_all [OF this(1) ok1] show ?thesis by (simp add: pools_ok_def)
  qed
qed simp

lemma getProducerConn_ok:
  assumes "pools_ok p" and "getProducerConn draw p = Ret (t, p1)"
  shows "pools_ok p1"
proof (cases t)
  case (Taken a c)
  with assms obtain pool cs where pool: "map_of (connections p) a = Some pool" "conns pool = c # cs" "\<not> closed pool"
    "p1 = p\<lparr>connections := AList.update a (pool\<lparr>conns := cs\<rparr>) (connections p)\<rparr>"
    by (auto simp: getProducerConn_def Let_def split: if_splits option.splits list.splits)
  have "pool_ok a (pool\<lparr>conns := cs\<rparr>)" using pools_ok_pool [OF assms(1) pool(1)] pool(2,3) by (simp add: pool_ok_def)
  with assms(1) pool(4) show ?thesis by (simp add: pools_ok_update)
qed (use assms in \<open>auto simp: getProducerConn_def Let_def split: if_splits option.splits list.splits\<close>)

lemma putProducerConn_ok:
  assumes "pools_ok p" and "putProducerConn a c p = Ret (e, p1)" and "conn_addr c = a"
  shows "pools_ok p1"
proof (cases e)
  case None
  with assms(2) obtain pool where pool: "map_of (connections p) a = Some pool" "\<not> closed pool" "length (conns pool) < conns_cap pool"
    "p1 = p\<lparr>connections := AList.update a (pool\<lparr>conns := conns pool @ [c]\<rparr>) (connections p)\<rparr>"
    by (auto simp: putProducerConn_def split: if_splits option.splits)
  have "pool_ok a (pool\<lparr>conns := conns pool @ [c]\<rparr>)"
    using pools_ok_pool [OF assms(1) pool(1)] pool(2,3) assms(3) by (simp add: pool_ok_def)
  with assms(1) pool(4) show ?thesis by (simp add: pools_ok_update)
next
  case (Some err)
  with assms(1,2) show ?thesis
    by (auto simp: putProducerConn_def pools_ok_def split: if_splits option.splits)
qed

lemma getProducerConn_addr:
  assumes "pools_ok p" and "getProducerConn draw p = Ret (Taken a c, p1)"
  shows "conn_addr c = a \<and> a \<in> set (nsqdTCPAddrs p)"
proof -
  from assms(2) obtain pool cs where pool: "map_of (connections p) a = Some pool" "conns pool = c # cs"
    "a = nsqdTCPAddrs p ! (draw mod length (nsqdTCPAddrs p))" "nsqdTCPAddrs p \<noteq> []"
    by (auto simp: getProducerConn_def Let_def split: if_splits option.splits list.splits)
  then show ?thesis using pools_ok_pool [OF assms(1) pool(1)] by (simp add: pool_ok_def)
qed

lemma Publish_ok:
  assumes "pools_ok p" and "Publish draw pub p = Ret (r, p')"
  shows "pools_ok p'"
proof -
  obtain t p1 where g: "getProducerConn draw p = Ret (t, p1)" using assms(2) by (auto simp: Publish_def)
  note ok1 = getProducerConn_ok [OF assms(1) g]
  show ?thesis
  proof (cases t)
    case (Taken a c)
    with assms(2) g obtain e where "putProducerConn a c p1 = Ret (e, p')"
      by (auto simp: Publish_def split: option.splits if_splits)
    then show ?thesis using putProducerConn_ok [OF ok1] getProducerConn_addr [OF assms(1)] g Taken by blast
  qed (use assms(2) g ok1 in \<open>auto simp: Publish_def\<close>)
qed

lemma close_pools:
  assumes "distinct (map fst ps)" and "\<And>a pool. (a, pool) \<in> set ps \<Longrightarrow> \<not> conns_closed pool"
  shows "\<exists>p'. go_fold close_pool ps p = Ret p'
    \<and> map_of (connections p') = (\<lambda>a. case map_of ps a of
        None \<Rightarrow> map_of (connections p) a | Some pool \<Rightarrow> Some (pool\<lparr>conns := [], conns_closed := True, closed := True\<rparr>))
    \<and> stopped p' = stopped p @ concat (map (\<lambda>(a, pool). conns pool) ps)
    \<and> nsqdTCPAddrs p' = nsqdTCPAddrs p \<and> exit_closed p' = exit_closed p
    \<and> (distinct (map fst (connections p)) \<longrightarrow> distinct (map fst (connections p')))"
  using assms
proof (induction ps arbitrary: p)
  case (Cons ap ps)
  obtain a pool where ap: "ap = (a, pool)" by fastforce
  define p1 where "p1 = p\<lparr>connections := AList.update a (pool\<lparr>conns := [], conns_closed := True, closed := True\<rparr>) (connections p),
    stopped := stopped p @ conns pool\<rparr>"
  have step: "close_pool ap p = Ret p1" using Cons.prems(2) ap by (auto simp: close_pool_def p1_def)
  have "a \<notin> fst ` set ps" using Cons.prems(1) ap by simp
  then have none: "map_of ps a = None" by (simp add: map_of_eq_None_iff)
  have "\<exists>p'. go_fold close_pool ps p1 = Ret p'
    \<and> map_of (connections p') = (\<lambda>a. case map_of ps a of
        None \<Rightarrow> map_of (connections p1) a | Some pool \<Rightarrow> Some (pool\<lparr>conns := [], conns_closed := True, closed := True\<rparr>))
    \<and> stopped p' = stopped p1 @ concat (map (\<lambda>(a, pool). conns pool) ps)
    \<and> nsqdTCPAddrs p' = nsqdTCPAddrs p1 \<and> exit_closed p' = exit_closed p1
    \<and> (distinct (map fst (connections p1)) \<longrightarrow> distinct (map fst (connections p')))"
    using Cons.prems by (intro Cons.IH) auto
  then show ?case
    using step none ap by (auto simp: p1_def update_conv' fun_eq_iff distinct_update split: option.split)
qed simp

text \<open>The operations of a producer as steps; an operation that panics ends the process.\<close>

inductive mq_step :: "Producer \<Rightarrow> Producer \<Rightarrow> bool" where
  mq_lookupd: "ConnectToNSQLookupd nodes_url lookup dial a n p = Ret (e, p') \<Longrightarrow> mq_step p p'"
| mq_nsqd: "ConnectToNSQD dial a n p = Ret (e, p') \<Longrightarrow> mq_step p p'"
| mq_poll: "lookupdLoop interval nodes_url dial n ms p = Ret p' \<Longrightarrow> mq_step p p'"
| mq_publish: "Publish draw pub p = Ret (r, p') \<Longrightarrow> mq_step p p'"
| mq_close: "Close p = Ret p' \<Longrightarrow> mq_step p p'"

definition mq_initial :: "Producer \<Rightarrow> bool" where
  "mq_initial p \<longleftrightarrow> p = NewProducer"

lemma lookupdLoop_select_ok: "lookupdLoop_select nodes_url dial n ms p = Ret p' \<Longrightarrow> pools_ok p \<Longrightarrow> pools_ok p'"
proof (induction nodes_url dial n ms p rule: lookupdLoop_select.induct)
  case (2 nodes_url dial n lookup ms p)
  then show ?case using queryLookupd_ok by (fastforce simp: queryLookupd_def)
qed (auto intro: pools_ok_frame)

lemma lookupdLoop_ok: "lookupdLoop interval nodes_url dial n ms p = Ret p' \<Longrightarrow> pools_ok p \<Longrightarrow> pools_ok p'"
  by (auto simp: lookupdLoop_def intro: lookupdLoop_select_ok split: if_splits)

lemma Close_Ret:
  assumes "pools_ok p" and "Close p = Ret p'"
  shows "\<And>a pool. map_of (connections p') a = Some pool \<Longrightarrow> closed pool \<and> conns_closed pool \<and> conns pool = []"
    and "stopped p' = stopped p @ concat (map (\<lambda>(a, pool). conns pool) (connections p))"
    and "exit_closed p'" and "dom (map_of (connections p')) = dom (map_of (connections p))"
    and "nsqdTCPAddrs p' = nsqdTCPAddrs p" and "distinct (map fst (connections p'))"
proof -
  have d: "distinct (map fst (connections p))" using assms(1) by (simp add: pools_ok_def)
  have opn: "\<not> conns_closed pool" if "(a, pool) \<in> set (connections p)" for a pool
  proof
    assume c: "conns_closed pool"
    from split_list [OF that] obtain xs ys where "connections p = xs @ (a, pool) # ys" by blast
    with assms(2) c show False by (auto simp: Close_def go_fold_append close_pool_def)
  qed
  from close_pools [OF d, of p] opn obtain p1 where p1: "go_fold close_pool (connections p) p = Ret p1"
    "map_of (connections p1) = (\<lambda>a. case map_of (connections p) a of
        None \<Rightarrow> map_of (connections p) a | Some pool \<Rightarrow> Some (pool\<lparr>conns := [], conns_closed := True, closed := True\<rparr>))"
    "stopped p1 = stopped p @ concat (map (\<lambda>(a, pool). conns pool) (connections p))"
    "nsqdTCPAddrs p1 = nsqdTCPAddrs p" "distinct (map fst (connections p1))" using d by (metis (no_types, lifting))
  have p': "p' = p1\<lparr>exit_closed := True\<rparr>" using assms(2) p1(1) by (auto simp: Close_def split: if_splits)
  show "\<And>a pool. map_of (connections p') a = Some pool \<Longrightarrow> closed pool \<and> conns_closed pool \<and> conns pool = []"
    using p1(2) p' by (auto split: option.splits)
  show "stopped p' = stopped p @ concat (map (\<lambda>(a, pool). conns pool) (connections p))" "exit_closed p'"
    "nsqdTCPAddrs p' = nsqdTCPAddrs p" "distinct (map fst (connections p'))" using p1 p' by simp_all
  show "dom (map_of (connections p')) = dom (map_of (connections p))"
    using p1(2) p' by (auto simp: dom_def split: option.splits)
qed

lemma ConnectToNSQLookupd_ok:
  assumes "pools_ok p" and "ConnectToNSQLookupd nodes_url lookup dial a n p = Ret (e, p')"
  shows "pools_ok p'"
proof -
  have "pools_ok (p\<lparr>lookupdHTTPAddrs := lookupdHTTPAddrs p @ [a]\<rparr>)"
    using assms(1) by (rule pools_ok_frame) simp_all
  then have "pools_ok q" if "queryLookupd nodes_url lookup dial n (p\<lparr>lookupdHTTPAddrs := lookupdHTTPAddrs p @ [a]\<rparr>) = Ret q" for q
    using that queryLookupd_ok by (fastforce simp: queryLookupd_def)
  with assms show ?thesis
    by (auto simp: ConnectToNSQLookupd_def Let_def split: if_splits intro: pools_ok_frame)
qed

lemma Close_ok:
  assumes "pools_ok p" and "Close p = Ret p'"
  shows "pools_ok p'"
  using Close_Ret [OF assms] assms(1) unfolding pools_ok_def pool_ok_def by (metis le0 list.pred_inject(1) list.size(3))

interpretation producer: invariant_system mq_initial mq_step pools_ok
proof
  fix p p' :: Producer
  show "mq_initial p \<Longrightarrow> pools_ok p" by (simp add: mq_initial_def pools_ok_def NewProducer_def)
  assume ok: "pools_ok p" and "mq_step p p'"
  from this(2) show "pools_ok p'"
  proof (cases rule: mq_step.cases)
    case mq_lookupd
    then show ?thesis by (rule ConnectToNSQLookupd_ok [OF ok])
  next
    case mq_close
    then show ?thesis by (rule Close_ok [OF ok])
  qed (use ok ConnectToNSQD_ok lookupdLoop_ok Publish_ok in blast)+
qed

text \<open>C6: in every state a producer can reach, each pool holds at most its capacity of connections to its own address, a closed pool is
  drained, and every address a message may be sent to has a pool.\<close>

theorem mq_pools_invariant:
  assumes "reachable mq_initial mq_step p"
  shows "pools_ok p"
  by (rule producer.reachable_inv [OF assms])

theorem mq_pools_invariant_witness:
  "\<exists>p. ConnectToNSQD (\<lambda>_. None) ''a:4150'' 2 NewProducer = Ret (None, p) \<and> pools_ok p"
proof -
  obtain p where p: "ConnectToNSQD (\<lambda>_. None) ''a:4150'' 2 NewProducer = Ret (None, p)"
    by (simp add: ConnectToNSQD_def NewProducer_def Let_def)
  have "reachable mq_initial mq_step NewProducer" by (rule reach_init) (simp add: mq_initial_def)
  then have "reachable mq_initial mq_step p" by (rule reach_step [where step = mq_step, OF _ mq_nsqd [OF p]])
  with p mq_pools_invariant show ?thesis by blast
qed

section \<open>Publishing and closing\<close>

lemma publish_retry_3:
  "publish_retry pub 0 2 = (if pub 0 = None \<or> pub 1 = None \<or> pub 2 = None then None else pub 2)"
  by (auto simp: numeral_eq_Suc split: option.split)

text \<open>C27: one call of \<open>Publish\<close> on a producer whose pools satisfy their invariant, as those of every reachable producer do, never panics. Without addresses or without pools it fails
  with an error; otherwise it draws an address, which has a pool: a closed pool makes it fail with an error, an open pool without a free connection makes it wait, and when a connection is free
  it is given back, so that the pool has the same connections as before, the used one last. The call then reports success, whether one of the three attempts
  succeeded or all of them failed. Only the last case changes the producer.\<close>

theorem Publish_returns_connection:
  assumes "pools_ok p"
  shows "(nsqdTCPAddrs p = [] \<or> connections p = [] \<longrightarrow> Publish draw pub p = Ret (Some (Some (MqText ''producer not exist'')), p))
    \<and> (nsqdTCPAddrs p \<noteq> [] \<longrightarrow> connections p \<noteq> [] \<longrightarrow>
        (\<exists>a pool. a = nsqdTCPAddrs p ! (draw mod length (nsqdTCPAddrs p)) \<and> map_of (connections p) a = Some pool
          \<and> (case (closed pool, conns pool) of
               (True, _) \<Rightarrow> Publish draw pub p = Ret (Some (Some (MqText ''connect pool is closed'')), p)
             | (False, []) \<Rightarrow> Publish draw pub p = Ret (None, p)
             | (False, c # cs) \<Rightarrow>
                 \<exists>p'. Publish draw pub p = Ret (Some None, p')
                   \<and> map_of (connections p') = (map_of (connections p))(a \<mapsto> pool\<lparr>conns := cs @ [c]\<rparr>) \<and> stopped p' = stopped p
                   \<and> nsqdTCPAddrs p' = nsqdTCPAddrs p)))"
proof (cases "nsqdTCPAddrs p = [] \<or> connections p = []")
  case True
  then show ?thesis by (auto simp: Publish_def getProducerConn_def)
next
  case False
  define a where "a = nsqdTCPAddrs p ! (draw mod length (nsqdTCPAddrs p))"
  have "a \<in> set (nsqdTCPAddrs p)" using False by (simp add: a_def)
  from pools_ok_addr [OF assms this] obtain pool where pool: "map_of (connections p) a = Some pool" by blast
  have ok: "pool_ok a pool" by (rule pools_ok_pool [OF assms pool])
  have "case (closed pool, conns pool) of
      (True, _) \<Rightarrow> Publish draw pub p = Ret (Some (Some (MqText ''connect pool is closed'')), p)
    | (False, []) \<Rightarrow> Publish draw pub p = Ret (None, p)
    | (False, c # cs) \<Rightarrow> \<exists>p'. Publish draw pub p = Ret (Some None, p')
        \<and> map_of (connections p') = (map_of (connections p))(a \<mapsto> pool\<lparr>conns := cs @ [c]\<rparr>) \<and> stopped p' = stopped p \<and> nsqdTCPAddrs p' = nsqdTCPAddrs p"
  proof (cases "closed pool \<or> conns pool = []")
    case True
    with False pool show ?thesis by (auto simp: Publish_def getProducerConn_def Let_def a_def [symmetric] split: bool.split list.split)
  next
    case open_: False
    then obtain c cs where c: "conns pool = c # cs" by (cases "conns pool") auto
    define p1 where "p1 = p\<lparr>connections := AList.update a (pool\<lparr>conns := cs\<rparr>) (connections p)\<rparr>"
    have nc: "\<not> conns_closed pool" "length cs < conns_cap pool" using ok c open_ by (auto simp: pool_ok_def)
    have g: "getProducerConn draw p = Ret (Taken a c, p1)"
      using False pool c open_ by (simp add: getProducerConn_def Let_def p1_def a_def [symmetric])
    have "putProducerConn a c p1 = Ret (None, p1\<lparr>connections := AList.update a (pool\<lparr>conns := cs @ [c]\<rparr>) (connections p1)\<rparr>)"
      using nc open_ by (simp add: putProducerConn_def p1_def update_conv')
    with g c open_ show ?thesis by (auto simp: Publish_def p1_def update_conv' split: option.split)
  qed
  with False pool a_def show ?thesis by blast
qed

theorem Publish_returns_connection_witness:
  "\<exists>p'. Publish 0 (\<lambda>_. Some ''refused'') (NewProducer\<lparr>nsqdTCPAddrs := [''a:1''], connections :=
      [(''a:1'', \<lparr>closed = False, conns = [\<lparr>conn_addr = ''a:1'', conn_serial = 0\<rparr>], conns_cap = 1, conns_closed = False\<rparr>)]\<rparr>)
    = Ret (Some None, p')"
proof -
  define pool where "pool = \<lparr>closed = False, conns = [\<lparr>conn_addr = ''a:1'', conn_serial = 0\<rparr>], conns_cap = 1, conns_closed = False\<rparr>"
  let ?p = "NewProducer\<lparr>nsqdTCPAddrs := [''a:1''], connections := [(''a:1'', pool)]\<rparr>"
  have "pools_ok ?p" by (simp add: pools_ok_def pool_ok_def pool_def split: if_splits)
  from Publish_returns_connection [OF this, of 0 "\<lambda>_. Some ''refused''"] show ?thesis by (auto simp: pool_def)
qed

text \<open>C28: closing a reachable producer stops every pooled connection and leaves every pool closed and drained, so that publishing afterwards fails with an
  error and closing again panics.\<close>

theorem Close_stops_everything:
  assumes "pools_ok p" and "Close p = Ret p'"
  shows "stopped p' = stopped p @ concat (map (\<lambda>(a, pool). conns pool) (connections p))
    \<and> list_all (\<lambda>(a, pool). closed pool \<and> conns pool = []) (connections p')
    \<and> (\<exists>e. Publish draw pub p' = Ret (Some (Some e), p')) \<and> Close p' = Panic ClosedChannel"
proof -
  note c = Close_Ret [OF assms]
  have all: "closed pool \<and> conns_closed pool \<and> conns pool = []" if "(a, pool) \<in> set (connections p')" for a pool
    using c(1) [of a pool] c(6) that by simp
  have "\<exists>e. getProducerConn draw p' = Ret (Failed e, p')"
  proof (cases "nsqdTCPAddrs p' = [] \<or> connections p' = []")
    case False
    let ?a = "nsqdTCPAddrs p' ! (draw mod length (nsqdTCPAddrs p'))"
    have "?a \<in> set (nsqdTCPAddrs p)" using False c(5) by simp
    then have "?a \<in> dom (map_of (connections p'))" using assms(1) c(4) unfolding pools_ok_def by blast
    then obtain pool where "map_of (connections p') ?a = Some pool" by blast
    then show ?thesis using False c(1) by (auto simp: getProducerConn_def Let_def)
  qed (auto simp: getProducerConn_def)
  then have "\<exists>e. Publish draw pub p' = Ret (Some (Some e), p')" by (auto simp: Publish_def)
  moreover have "Close p' = Panic ClosedChannel"
  proof (cases "connections p'")
    case Nil
    then show ?thesis using c(3) by (simp add: Close_def)
  next
    case (Cons x xs)
    then show ?thesis using all [of "fst x" "snd x"] by (cases x) (simp add: Close_def close_pool_def)
  qed
  moreover have "list_all (\<lambda>(a, pool). closed pool \<and> conns pool = []) (connections p')"
    using all by (auto simp: list_all_iff)
  ultimately show ?thesis using c(2) by simp
qed

theorem Close_stops_everything_witness:
  "\<exists>p'. Close (NewProducer\<lparr>connections :=
      [(''a:1'', \<lparr>closed = False, conns = [\<lparr>conn_addr = ''a:1'', conn_serial = 0\<rparr>], conns_cap = 1, conns_closed = False\<rparr>)]\<rparr>) = Ret p'
    \<and> stopped p' = [\<lparr>conn_addr = ''a:1'', conn_serial = 0\<rparr>] \<and> Close p' = Panic ClosedChannel"
proof -
  let ?p = "NewProducer\<lparr>connections :=
      [(''a:1'', \<lparr>closed = False, conns = [\<lparr>conn_addr = ''a:1'', conn_serial = 0\<rparr>], conns_cap = 1, conns_closed = False\<rparr>)]\<rparr>"
  have ok: "pools_ok ?p" by (simp add: pools_ok_def pool_ok_def NewProducer_def split: if_splits)
  obtain p' where p': "Close ?p = Ret p'" by (simp add: Close_def close_pool_def NewProducer_def)
  from Close_stops_everything [OF ok p'] p' show ?thesis by (simp add: NewProducer_def)
qed

text \<open>A connection that could not be made leaves an empty pool behind: connecting again is refused as connected already, and a message for that
  address waits for a connection that never comes.\<close>

lemma failed_dial_leaves_empty_pool:
  assumes "map_of (connections p) a = None" and "dial a = Some e" and "0 \<le> n"
  shows "\<exists>p'. ConnectToNSQD dial a n p = Ret (Some (MqText e), p') \<and> ConnectToNSQD dial2 a n p' = Ret (Some ErrAlreadyConnected, p')
    \<and> getProducerConn draw (p'\<lparr>nsqdTCPAddrs := [a]\<rparr>) = Ret (Waits, p'\<lparr>nsqdTCPAddrs := [a]\<rparr>)"
proof -
  define pool where "pool = \<lparr>closed = False, conns = [], conns_cap = nat n, conns_closed = False\<rparr>"
  define p1 where "p1 = p\<lparr>connections := AList.update a pool (connections p)\<rparr>"
  have 1: "ConnectToNSQD dial a n p = Ret (Some (MqText e), p1)"
    using assms by (simp add: ConnectToNSQD_def Let_def p1_def pool_def)
  have m: "map_of (connections p1) a = Some pool" "connections p1 \<noteq> []"
    by (simp_all add: p1_def update_conv' update_nonempty)
  show ?thesis
    by (rule exI [of _ p1]) (simp add: 1, simp add: ConnectToNSQD_def getProducerConn_def Let_def m pool_def)
qed

end
