(* ===== verification/Go_Float.thy ===== *)
theory Go_Float
  imports J7f_Prelude
begin

text \<open>
  The floating-point operations of Go that the sources use: products of \<open>float64\<close> and quotients of \<open>float32\<close>.
\<close>

section \<open>Floating-point numbers\<close>

text \<open>
  A finite \<open>float64\<close> is a mantissa and a binary exponent; operations round to 53 bits, ties to even. Exponents are
  not bounded here, so infinities and subnormal numbers do not arise.
\<close>

datatype float64 = F64 (mant: int) (expo: int)

function bit_len :: "int \<Rightarrow> nat" where
  "bit_len n = (if n \<le> 0 then 0 else Suc (bit_len (n div 2)))"
  by pat_completeness auto
termination by (relation "measure nat") auto

declare bit_len.simps [simp del]

definition f64_round :: "int \<Rightarrow> int \<Rightarrow> float64" where
  "f64_round m e =
     (let k = bit_len \<bar>m\<bar> in
      if k \<le> 53 then F64 m e
      else
        let d = 2 ^ (k - 53); q = \<bar>m\<bar> div d; r = \<bar>m\<bar> mod d
        in F64 (sgn m * (if d < 2 * r \<or> d = 2 * r \<and> odd q then q + 1 else q)) (e + int (k - 53)))"

definition f64_of_int :: "int \<Rightarrow> float64" where
  "f64_of_int n = f64_round n 0"

definition f64_mult :: "float64 \<Rightarrow> float64 \<Rightarrow> float64" where
  "f64_mult x y = f64_round (mant x * mant y) (expo x + expo y)"

definition int64_of_f64 :: "float64 \<Rightarrow> int" where
  "int64_of_f64 x =
     int64 (if 0 \<le> expo x then mant x * 2 ^ nat (expo x) else sgn (mant x) * (\<bar>mant x\<bar> div 2 ^ nat (- expo x)))"

text \<open>The constant \<open>0.01\<close> as a \<open>float64\<close>.\<close>

definition f64_hundredth :: float64 where
  "f64_hundredth = F64 5764607523034235 (- 59)"

section \<open>Single precision\<close>

text \<open>
  A quotient is rounded to 24 bits: it is computed to more bits than that, and one bit more tells whether a remainder is left, so that
  rounding sees on which side of a tie the quotient lies.
\<close>

datatype float32 = F32 (mant32: int) (expo32: int)

definition f32_round :: "int \<Rightarrow> int \<Rightarrow> float32" where
  "f32_round m e =
     (let k = bit_len \<bar>m\<bar> in
      if k \<le> 24 then F32 m e
      else
        let d = 2 ^ (k - 24); q = \<bar>m\<bar> div d; r = \<bar>m\<bar> mod d
        in F32 (sgn m * (if d < 2 * r \<or> d = 2 * r \<and> odd q then q + 1 else q)) (e + int (k - 24)))"

definition f32_of_int :: "int \<Rightarrow> float32" where
  "f32_of_int n = f32_round n 0"

definition f32_div :: "float32 \<Rightarrow> float32 \<Rightarrow> float32" where
  "f32_div x y =
     (let s = 24 + bit_len \<bar>mant32 y\<bar>; n = \<bar>mant32 x\<bar> * 2 ^ s; q = n div \<bar>mant32 y\<bar>; r = n mod \<bar>mant32 y\<bar>
      in f32_round (sgn (mant32 x) * sgn (mant32 y) * (2 * q + (if r = 0 then 0 else 1))) (expo32 x - expo32 y - int s - 1))"

end
