(* ===== verification/Redsync.thy ===== *)
theory Redsync
  imports Go_Float "HOL-Library.AList"
begin

text \<open>
  The distributed mutex of \<open>lib/gopkg.in/redsync.v1\<close>: a lock is held by whoever wrote a random value under the
  name of the lock on a majority of independent Redis servers. The servers, the network and the clock are
  outside the program. What a call of them returns, and how the world looks after it, is given by the record
  \<open>redis_env\<close>; since the world is arbitrary, the moves of other clients between two requests are part of it.
  What the mutex relies on is the locale \<open>redis_cluster\<close>.
\<close>

section \<open>Base64\<close>

definition b64_alphabet :: string where
  "b64_alphabet = ''ABCDEFGHIJKLMNOPQRSTUVWXYZabcdefghijklmnopqrstuvwxyz0123456789+/''"

definition b64 :: "nat \<Rightarrow> char" where
  "b64 i = b64_alphabet ! i"

text \<open>\<open>base64.StdEncoding.EncodeToString\<close>, on the codes of the bytes.\<close>

fun b64_encode :: "nat list \<Rightarrow> string" where
  "b64_encode [] = []"
| "b64_encode [x] = [b64 (x div 4), b64 (x mod 4 * 16), CHR ''='', CHR ''='']"
| "b64_encode [x, y] = [b64 (x div 4), b64 (x mod 4 * 16 + y div 16), b64 (y mod 16 * 4), CHR ''='']"
| "b64_encode (x # y # z # bs) =
     b64 (x div 4) # b64 (x mod 4 * 16 + y div 16) # b64 (y mod 16 * 4 + z div 64) # b64 (z mod 64) # b64_encode bs"

definition EncodeToString :: "string \<Rightarrow> string" where
  "EncodeToString bs = b64_encode (map of_char bs)"

section \<open>The environment\<close>

text \<open>
  The dynamic value behind an \<open>interface{}\<close>: an integer reply of Redis arrives as an \<open>int64\<close>, a constant of the source
  as an \<open>int\<close>, and values of different dynamic types are never equal.
\<close>

datatype dyn = DynInt int | DynInt64 int | DynOther string

text \<open>
  \<open>do_SET\<close> is \<open>redis.String(conn.Do("SET", name, value, "NX", "PX", ms))\<close> on a connection of the pool, \<open>do_delete\<close>
  and \<open>do_touch\<close> run the two scripts, the latter through \<open>redis.String\<close>; each gives the reply, the error and the world after it.
\<close>

record ('p, 'w) redis_env =
  do_SET :: "'p \<Rightarrow> string \<Rightarrow> string \<Rightarrow> int \<Rightarrow> 'w \<Rightarrow> (string \<times> string option) \<times> 'w"
  do_delete :: "'p \<Rightarrow> string \<Rightarrow> string \<Rightarrow> 'w \<Rightarrow> (dyn \<times> string option) \<times> 'w"
  do_touch :: "'p \<Rightarrow> string \<Rightarrow> string \<Rightarrow> int \<Rightarrow> 'w \<Rightarrow> (string \<times> string option) \<times> 'w"
  time_Now :: "'w \<Rightarrow> int \<times> 'w"
  time_Sleep :: "int \<Rightarrow> 'w \<Rightarrow> 'w"
  rand_Read :: "nat \<Rightarrow> 'w \<Rightarrow> (string \<times> string option) \<times> 'w"

definition Millisecond :: int where
  "Millisecond = 1000000"

text \<open>\<open>Time.Sub\<close> saturates; times are nanoseconds.\<close>

definition time_Sub :: "int \<Rightarrow> int \<Rightarrow> int" where
  "time_Sub t u = max (- (2 ^ 63)) (min (2 ^ 63 - 1) (t - u))"

section \<open>The mutex\<close>

record 'p Mutex =
  m_name :: string
  m_expiry :: int
  m_tries :: int
  m_delay :: int
  m_factor :: float64
  m_quorum :: int
  m_value :: string
  m_until :: int
  m_pools :: "'p list"

text \<open>An option is a function on the mutex.\<close>

definition SetExpiry :: "int \<Rightarrow> 'p Mutex \<Rightarrow> 'p Mutex" where
  "SetExpiry expiry m = m\<lparr>m_expiry := expiry\<rparr>"

definition SetTries :: "int \<Rightarrow> 'p Mutex \<Rightarrow> 'p Mutex" where
  "SetTries tries m = m\<lparr>m_tries := tries\<rparr>"

definition SetRetryDelay :: "int \<Rightarrow> 'p Mutex \<Rightarrow> 'p Mutex" where
  "SetRetryDelay delay m = m\<lparr>m_delay := delay\<rparr>"

definition SetDriftFactor :: "float64 \<Rightarrow> 'p Mutex \<Rightarrow> 'p Mutex" where
  "SetDriftFactor factor m = m\<lparr>m_factor := factor\<rparr>"

definition NewMutex :: "'p list \<Rightarrow> string \<Rightarrow> ('p Mutex \<Rightarrow> 'p Mutex) list \<Rightarrow> 'p Mutex" where
  "NewMutex pools name options =
     fold (\<lambda>option m. option m) options
       \<lparr>m_name = name, m_expiry = 8 * 1000 * Millisecond, m_tries = 32, m_delay = 500 * Millisecond, m_factor = f64_hundredth,
        m_quorum = int (length pools) div 2 + 1, m_value = [], m_until = 0, m_pools = pools\<rparr>"

definition genValue :: "('p, 'w) redis_env \<Rightarrow> 'w \<Rightarrow> (string \<times> string option) \<times> 'w" where
  "genValue e w =
     (let ((b, err), w1) = rand_Read e 32 w in
      case err of Some x \<Rightarrow> (([], Some x), w1) | None \<Rightarrow> ((EncodeToString b, None), w1))"

definition acquire :: "('p, 'w) redis_env \<Rightarrow> 'p Mutex \<Rightarrow> string \<Rightarrow> 'p \<Rightarrow> 'w \<Rightarrow> bool \<times> 'w" where
  "acquire e m value pool w =
     (let ((reply, err), w1) = do_SET e pool (m_name m) value (m_expiry m sdiv Millisecond) w
      in (err = None \<and> reply = ''OK'', w1))"

definition release :: "('p, 'w) redis_env \<Rightarrow> 'p Mutex \<Rightarrow> string \<Rightarrow> 'p \<Rightarrow> 'w \<Rightarrow> bool \<times> 'w" where
  "release e m value pool w =
     (let ((status, err), w1) = do_delete e pool (m_name m) value w in (err = None \<and> status \<noteq> DynInt 0, w1))"

definition touch :: "('p, 'w) redis_env \<Rightarrow> 'p Mutex \<Rightarrow> string \<Rightarrow> int \<Rightarrow> 'p \<Rightarrow> 'w \<Rightarrow> bool \<times> 'w" where
  "touch e m value expiry pool w =
     (let ((status, err), w1) = do_touch e pool (m_name m) value expiry w in (err = None \<and> status \<noteq> ''ERR'', w1))"

text \<open>The loops over the pools that count the answers \<open>ok\<close>.\<close>

fun tally :: "('p \<Rightarrow> 'w \<Rightarrow> bool \<times> 'w) \<Rightarrow> 'p list \<Rightarrow> int \<Rightarrow> 'w \<Rightarrow> int \<times> 'w" where
  "tally ask [] n w = (n, w)"
| "tally ask (p # ps) n w = (let (yes, w1) = ask p w in tally ask ps (if yes then n + 1 else n) w1)"

definition drift :: "'p Mutex \<Rightarrow> int" where
  "drift m = int64_of_f64 (f64_mult (f64_of_int (m_expiry m)) (m_factor m))"

text \<open>One turn of the loop of \<open>Lock\<close>, up to the test: the end of the validity of the lock, if it was obtained.\<close>

definition Lock_attempt :: "('p, 'w) redis_env \<Rightarrow> 'p Mutex \<Rightarrow> string \<Rightarrow> 'w \<Rightarrow> int option \<times> 'w" where
  "Lock_attempt e m value w =
     (let (start, w1) = time_Now e w;
          (n, w2) = tally (acquire e m value) (m_pools m) 0 w1;
          (t1, w3) = time_Now e w2;
          (t2, w4) = time_Now e w3;
          until = t1 + int64 (m_expiry m - time_Sub t2 start - drift m + 2 * Millisecond)
      in if m_quorum m \<le> n then
           (let (t3, w5) = time_Now e w4 in (if t3 < until then Some until else None, w5))
         else (None, w4))"

datatype lock_error = ErrFailed | RandError string

fun Lock_loop :: "('p, 'w) redis_env \<Rightarrow> 'p Mutex \<Rightarrow> string \<Rightarrow> nat \<Rightarrow> nat \<Rightarrow> 'w \<Rightarrow> lock_error option \<times> 'p Mutex \<times> 'w" where
  "Lock_loop e m value i 0 w = (Some ErrFailed, m, w)"
| "Lock_loop e m value i (Suc left) w =
     (let w1 = (if i \<noteq> 0 then time_Sleep e (m_delay m) w else w);
          (got, w2) = Lock_attempt e m value w1
      in case got of
           Some until \<Rightarrow> (None, m\<lparr>m_value := value, m_until := until\<rparr>, w2)
         | None \<Rightarrow> Lock_loop e m value (Suc i) left (snd (tally (release e m value) (m_pools m) 0 w2)))"

definition Lock :: "('p, 'w) redis_env \<Rightarrow> 'p Mutex \<Rightarrow> 'w \<Rightarrow> lock_error option \<times> 'p Mutex \<times> 'w" where
  "Lock e m w =
     (let ((value, err), w1) = genValue e w in
      case err of
        Some x \<Rightarrow> (Some (RandError x), m, w1)
      | None \<Rightarrow> Lock_loop e m value 0 (nat (m_tries m)) w1)"

definition Unlock :: "('p, 'w) redis_env \<Rightarrow> 'p Mutex \<Rightarrow> 'w \<Rightarrow> bool \<times> 'w" where
  "Unlock e m w = (let (n, w1) = tally (release e m (m_value m)) (m_pools m) 0 w in (m_quorum m \<le> n, w1))"

definition Extend :: "('p, 'w) redis_env \<Rightarrow> 'p Mutex \<Rightarrow> 'w \<Rightarrow> bool \<times> 'w" where
  "Extend e m w =
     (let (n, w1) = tally (touch e m (m_value m) (m_expiry m sdiv Millisecond)) (m_pools m) 0 w in (m_quorum m \<le> n, w1))"

section \<open>The scripts\<close>

text \<open>
  The two Lua scripts, over the command interface \<open>redis.call\<close> of the server that runs them. A missing key reads as \<open>false\<close>.
\<close>

datatype redis_cmd = GET string | DEL string | SET_XX_PX string string int

datatype lua = LFalse | LBulk string | LInt int | LStatus string

definition deleteScript :: "(redis_cmd \<Rightarrow> 'db \<Rightarrow> lua \<times> 'db) \<Rightarrow> string \<Rightarrow> string \<Rightarrow> 'db \<Rightarrow> lua \<times> 'db" where
  "deleteScript call key arg db =
     (let (r, db1) = call (GET key) db in if r = LBulk arg then call (DEL key) db1 else (LInt 0, db1))"

definition touchScript :: "(redis_cmd \<Rightarrow> 'db \<Rightarrow> lua \<times> 'db) \<Rightarrow> string \<Rightarrow> string \<Rightarrow> int \<Rightarrow> 'db \<Rightarrow> lua \<times> 'db" where
  "touchScript call key arg ms db =
     (let (r, db1) = call (GET key) db in if r = LBulk arg then call (SET_XX_PX key arg ms) db1 else (LBulk ''ERR'', db1))"

section \<open>Random values are told apart\<close>

lemma b64_inj: "i < 64 \<Longrightarrow> j < 64 \<Longrightarrow> b64 i = b64 j \<longleftrightarrow> i = j"
proof -
  have d: "distinct b64_alphabet" "length b64_alphabet = 64" by code_simp+
  then show "i < 64 \<Longrightarrow> j < 64 \<Longrightarrow> ?thesis" by (simp add: b64_def nth_eq_iff_index_eq)
qed

lemma sextets:
  fixes x y z :: nat
  shows "x < 256 \<Longrightarrow> x div 4 < 64" "y < 256 \<Longrightarrow> x mod 4 * 16 + y div 16 < 64" "z < 256 \<Longrightarrow> y mod 16 * 4 + z div 64 < 64"
    "z mod 64 < 64" "x mod 4 * 16 < 64" "y mod 16 * 4 < 64"
proof -
  have m: "x mod 4 < 4" "y mod 16 < 16" by simp_all
  have "y < 256 \<Longrightarrow> y div 16 < 16" "z < 256 \<Longrightarrow> z div 64 < 4" by (simp_all add: less_mult_imp_div_less)
  then show "y < 256 \<Longrightarrow> x mod 4 * 16 + y div 16 < 64" "z < 256 \<Longrightarrow> y mod 16 * 4 + z div 64 < 64" using m by linarith+
qed (simp_all add: less_mult_imp_div_less)

lemma two_digits: "v < n \<Longrightarrow> v' < n \<Longrightarrow> u * n + v = u' * n + v' \<Longrightarrow> u = u' \<and> v = (v' :: nat)"
  by (metis add.commute div_mult_self3 div_less gr_implies_not0 mod_less mod_mult_self1 add_0)

lemma same_quotient: "x div n = x' div n \<Longrightarrow> x mod n = x' mod n \<Longrightarrow> x = (x' :: nat)"
  by (metis div_mult_mod_eq)

lemma b64_encode_inj:
  "length xs = length ys \<Longrightarrow> \<forall>x \<in> set xs. x < 256 \<Longrightarrow> \<forall>y \<in> set ys. y < 256 \<Longrightarrow> b64_encode xs = b64_encode ys \<Longrightarrow> xs = ys"
proof (induction xs arbitrary: ys rule: b64_encode.induct)
  case 1
  then show ?case by simp
next
  case (2 x)
  then obtain y where "ys = [y]" by (cases ys) auto
  with 2 show ?case by (auto simp: b64_inj sextets intro: same_quotient)
next
  case (3 x y)
  then obtain x' y' where ys: "ys = [x', y']" by (cases ys rule: b64_encode.cases) auto
  from 3 have e: "x div 4 = x' div 4" "x mod 4 * 16 + y div 16 = x' mod 4 * 16 + y' div 16" "y mod 16 = y' mod 16"
    by (simp_all add: ys b64_inj sextets)
  have "y div 16 < 16" "y' div 16 < 16" using 3(2,3) by (simp_all add: ys less_mult_imp_div_less)
  from two_digits [OF this e(2)] e(1,3) show ?case by (auto simp: ys intro: same_quotient)
next
  case (4 x y z bs)
  then obtain x' y' z' bs' where ys: "ys = x' # y' # z' # bs'" by (cases ys rule: b64_encode.cases) auto
  from 4 have e: "x div 4 = x' div 4" "x mod 4 * 16 + y div 16 = x' mod 4 * 16 + y' div 16"
    "y mod 16 * 4 + z div 64 = y' mod 16 * 4 + z' div 64" "z mod 64 = z' mod 64"
    by (simp_all add: ys b64_inj sextets)
  have l: "y div 16 < 16" "y' div 16 < 16" "z div 64 < 4" "z' div 64 < 4"
    using 4(3,4) by (simp_all add: ys less_mult_imp_div_less)
  have "bs = bs'" using 4 unfolding ys by (intro "4.IH") simp_all
  with two_digits [OF l(1,2) e(2)] two_digits [OF l(3,4) e(3)] e(1,4) show ?case
    by (auto simp: ys intro: same_quotient)
qed

lemma EncodeToString_inj: "length a = length b \<Longrightarrow> EncodeToString a = EncodeToString b \<longleftrightarrow> a = b"
proof
  assume len: "length a = length b" and eq: "EncodeToString a = EncodeToString b"
  have "map of_char a = (map of_char b :: nat list)"
    by (rule b64_encode_inj) (use len eq in \<open>simp_all add: EncodeToString_def\<close>)
  then show "a = b" by (rule map_injective) (simp add: inj_def)
qed simp

section \<open>Majorities\<close>

text \<open>A family of quorums: any two have a member in common, so members that agree make quorums agree.\<close>

locale quorums =
  fixes quorum :: "'p set \<Rightarrow> bool"
  assumes qintersect: "quorum Q \<Longrightarrow> quorum R \<Longrightarrow> Q \<inter> R \<noteq> {}"
begin

lemma qagree:
  assumes "quorum Q" and "quorum R" and "\<And>p. p \<in> Q \<Longrightarrow> vote p = Some a" and "\<And>p. p \<in> R \<Longrightarrow> vote p = Some b"
  shows "a = b"
  using qintersect [OF assms(1,2)] assms(3,4) by force

end

text \<open>The sets of pools that reach the quorum of a mutex over these pools.\<close>

definition majority :: "'p list \<Rightarrow> 'p set \<Rightarrow> bool" where
  "majority ps Q \<longleftrightarrow> Q \<subseteq> set ps \<and> int (length ps) div 2 + 1 \<le> int (card Q)"

interpretation pools: quorums "majority ps" for ps :: "'p list"
proof
  fix Q R
  assume a: "majority ps Q" "majority ps R"
  show "Q \<inter> R \<noteq> {}"
  proof
    assume "Q \<inter> R = {}"
    moreover have "finite Q" "finite R" using a by (auto simp: majority_def intro: finite_subset)
    ultimately have "card Q + card R = card (Q \<union> R)" by (simp add: card_Un_disjoint)
    also have "\<dots> \<le> card (set ps)" using a by (intro card_mono) (auto simp: majority_def)
    also have "\<dots> \<le> length ps" by (rule card_length)
    finally show False using a by (simp add: majority_def) linarith
  qed
qed

section \<open>Mutual exclusion\<close>

text \<open>A mutex whose validity ends before its keys do: the allowance for drift outweighs the two milliseconds that are added.\<close>

definition mutex_ok :: "'p Mutex \<Rightarrow> bool" where
  "mutex_ok m \<longleftrightarrow> distinct (m_pools m) \<and> m_quorum m = int (length (m_pools m)) div 2 + 1
     \<and> 0 \<le> m_expiry m \<and> m_expiry m \<le> 2 ^ 61 \<and> 0 \<le> drift m \<and> drift m \<le> 2 ^ 61
     \<and> m_expiry m - drift m + 2 * Millisecond \<le> m_expiry m sdiv Millisecond * Millisecond"

text \<open>
  What the mutex relies on, for one client and the value \<open>own\<close> that only this client uses: a clock that does not run backwards; a
  server that answered \<open>OK\<close> to a conditional set holds the value until the given time has passed; and while the client
  does not release its value, no other party removes it before that time. \<open>keeps v w w'\<close> says that the world went from
  \<open>w\<close> to \<open>w'\<close> without the owner of \<open>v\<close> releasing it.
\<close>

locale redis_cluster =
  fixes e :: "('p, 'w) redis_env"
    and clock :: "'w \<Rightarrow> int"
    and holder :: "'w \<Rightarrow> 'p \<Rightarrow> string \<Rightarrow> (string \<times> int) option"
    and keeps :: "string \<Rightarrow> 'w \<Rightarrow> 'w \<Rightarrow> bool"
    and own :: string
  assumes clock_range: "0 \<le> clock w" "clock w < 2 ^ 62"
    and keeps_refl: "keeps own w w"
    and keeps_trans: "keeps own w w1 \<Longrightarrow> keeps own w1 w2 \<Longrightarrow> keeps own w w2"
    and keeps_clock: "keeps own w w1 \<Longrightarrow> clock w \<le> clock w1"
    and keeps_holder: "keeps own w w1 \<Longrightarrow> holder w p n = Some (own, x) \<Longrightarrow> clock w1 < x \<Longrightarrow> \<exists>y \<ge> x. holder w1 p n = Some (own, y)"
    and now: "time_Now e w = (t, w1) \<Longrightarrow> keeps own w w1 \<and> clock w \<le> t \<and> t \<le> clock w1"
    and set_keeps: "do_SET e p n own ms w = (r, w1) \<Longrightarrow> keeps own w w1"
    and set_ok: "do_SET e p n own ms w = ((''OK'', None), w1) \<Longrightarrow>
      \<exists>x. clock w + ms * Millisecond \<le> x \<and> (clock w1 < x \<longrightarrow> holder w1 p n = Some (own, x))"
begin

text \<open>After a granted set the server keeps the value, as long as it is not released and the time has not passed.\<close>

definition secured :: "'w \<Rightarrow> 'p \<Rightarrow> string \<Rightarrow> int \<Rightarrow> bool" where
  "secured w p n x \<longleftrightarrow> (\<forall>w1. keeps own w w1 \<longrightarrow> clock w1 < x \<longrightarrow> map_option fst (holder w1 p n) = Some own)"

lemma secured_later: "secured w p n x \<Longrightarrow> keeps own w w1 \<Longrightarrow> secured w1 p n x"
  unfolding secured_def using keeps_trans by blast

lemma secured_mono: "secured w p n x \<Longrightarrow> y \<le> x \<Longrightarrow> secured w p n y"
  by (auto simp: secured_def)

lemma set_secures:
  assumes "do_SET e p n own ms w = ((''OK'', None), w1)"
  shows "secured w1 p n (clock w + ms * Millisecond)"
proof -
  obtain x where x: "clock w + ms * Millisecond \<le> x" "clock w1 < x \<Longrightarrow> holder w1 p n = Some (own, x)"
    using set_ok [OF assms] by blast
  have "secured w1 p n x"
    unfolding secured_def
  proof (intro allI impI)
    fix w2 assume w2: "keeps own w1 w2" "clock w2 < x"
    with keeps_clock have "clock w1 < x" by fastforce
    then show "map_option fst (holder w2 p n) = Some own" using keeps_holder [OF w2(1) x(2) w2(2)] by auto
  qed
  then show ?thesis using secured_mono x(1) by blast
qed

lemma tally_secures:
  assumes "tally (acquire e m own) ps n w = (k, w1)" and "distinct ps"
  shows "keeps own w w1 \<and> (\<exists>Q \<subseteq> set ps. k = n + int (card Q)
    \<and> (\<forall>p \<in> Q. secured w1 p (m_name m) (clock w + m_expiry m sdiv Millisecond * Millisecond)))"
  using assms
proof (induction ps arbitrary: n w)
  case Nil
  then show ?case using keeps_refl by auto
next
  case (Cons p ps)
  obtain r err w2 where set: "do_SET e p (m_name m) own (m_expiry m sdiv Millisecond) w = ((r, err), w2)"
    by (metis surj_pair)
  let ?yes = "err = None \<and> r = ''OK''" and ?x = "\<lambda>w. clock w + m_expiry m sdiv Millisecond * Millisecond"
  have k: "keeps own w w2" by (rule set_keeps [OF set])
  have acq: "acquire e m own p w = (?yes, w2)" by (simp add: acquire_def set)
  have "tally (acquire e m own) ps (if ?yes then n + 1 else n) w2 = (k, w1)"
    using Cons.prems(1) acq by simp
  from Cons.IH [OF this] Cons.prems(2) obtain Q where
    Q: "keeps own w2 w1" "Q \<subseteq> set ps" "k = (if ?yes then n + 1 else n) + int (card Q)"
      "\<forall>q \<in> Q. secured w1 q (m_name m) (?x w2)" by auto
  have mono: "secured w1 q (m_name m) (?x w)" if "q \<in> Q" for q
    using secured_mono Q(4) that keeps_clock [OF k] by fastforce
  show ?case
  proof (cases ?yes)
    case True
    then have "secured w1 p (m_name m) (?x w)" using set_secures [of p "m_name m" _ w w2] set secured_later [OF _ Q(1)] by simp
    moreover have "p \<notin> Q" "finite Q" using Q(2) Cons.prems(2) by (auto intro: finite_subset)
    ultimately show ?thesis
      using True Q mono keeps_trans [OF k Q(1)] by (intro conjI exI [of _ "insert p Q"]) auto
  next
    case False
    then show ?thesis using Q mono keeps_trans [OF k Q(1)] by (intro conjI exI [of _ Q]) auto
  qed
qed

lemma attempt_secures:
  assumes "Lock_attempt e m own w = (Some until, w1)" and "mutex_ok m"
  shows "\<exists>Q. majority (m_pools m) Q \<and> (\<forall>p \<in> Q. secured w1 p (m_name m) until)"
proof -
  obtain start wa n wb t1 wc t2 wd t3 we where
    steps: "time_Now e w = (start, wa)" "tally (acquire e m own) (m_pools m) 0 wa = (n, wb)"
      "time_Now e wb = (t1, wc)" "time_Now e wc = (t2, wd)" "time_Now e wd = (t3, we)"
    by (metis surj_pair)
  let ?u = "t1 + int64 (m_expiry m - time_Sub t2 start - drift m + 2 * Millisecond)"
  have n: "m_quorum m \<le> n" and res: "until = ?u" "w1 = we"
    using assms(1) by (auto simp: Lock_attempt_def steps Let_def split: if_splits)
  note k = now [OF steps(1)] now [OF steps(3)] now [OF steps(4)] now [OF steps(5)]
  have ok: "distinct (m_pools m)" "0 \<le> m_expiry m" "m_expiry m \<le> 2 ^ 61" "0 \<le> drift m" "drift m \<le> 2 ^ 61"
    "m_expiry m - drift m + 2 * Millisecond \<le> m_expiry m sdiv Millisecond * Millisecond"
    "m_quorum m = int (length (m_pools m)) div 2 + 1"
    using assms(2) by (simp_all add: mutex_ok_def)
  from tally_secures [OF steps(2) ok(1)] obtain Q where
    Q: "keeps own wa wb" "Q \<subseteq> set (m_pools m)" "n = int (card Q)"
      "\<forall>p \<in> Q. secured wb p (m_name m) (clock wa + m_expiry m sdiv Millisecond * Millisecond)" by auto
  have order: "start \<le> clock wa" "clock wa \<le> t1" "t1 \<le> t2" "0 \<le> start" "t2 < 2 ^ 62"
    using k keeps_clock [OF Q(1)] clock_range [of w] clock_range [of wd] by auto
  then have sub: "time_Sub t2 start = t2 - start" by (simp add: time_Sub_def)
  have "in_int64 (m_expiry m - time_Sub t2 start - drift m + 2 * Millisecond)"
    unfolding sub using order ok by (simp add: in_int64_def Millisecond_def)
  then have "?u \<le> clock wa + m_expiry m sdiv Millisecond * Millisecond"
    using order ok(6) by (simp add: int64_id sub)
  moreover have "keeps own wb we" using k keeps_trans by blast
  ultimately have "\<forall>p \<in> Q. secured we p (m_name m) ?u"
    using Q(4) secured_later secured_mono by blast
  moreover have "majority (m_pools m) Q" using Q(2,3) n ok(7) by (simp add: majority_def)
  ultimately show ?thesis using res by blast
qed

end

lemma Lock_loop_success:
  "Lock_loop e m v i k w = (None, m', w') \<Longrightarrow>
     m_value m' = v \<and> (\<exists>u. Lock_attempt e m v u = (Some (m_until m'), w'))"
  by (induction e m v i k w rule: Lock_loop.induct) (auto simp: Let_def split: prod.splits option.splits if_splits)

lemma Lock_success:
  "Lock e m w = (None, m', w') \<Longrightarrow> \<exists>u. Lock_attempt e m (m_value m') u = (Some (m_until m'), w')"
  using Lock_loop_success by (fastforce simp: Lock_def split: prod.splits option.splits)

lemma redsync_exclusive:
  assumes "redis_cluster e1 clock holder keeps (m_value m1')" and "redis_cluster e2 clock holder keeps (m_value m2')"
    and "mutex_ok m1" and "mutex_ok m2" and "m_name m1 = m_name m2" and "m_pools m1 = m_pools m2"
    and "Lock e1 m1 w1 = (None, m1', w1')" and "Lock e2 m2 w2 = (None, m2', w2')"
    and "keeps (m_value m1') w1' w" and "keeps (m_value m2') w2' w" and "m_value m1' \<noteq> m_value m2'"
  shows "m_until m1' \<le> clock w \<or> m_until m2' \<le> clock w"
proof (rule ccontr)
  assume "\<not> ?thesis"
  then have live: "clock w < m_until m1'" "clock w < m_until m2'" by simp_all
  let ?v = "\<lambda>p. map_option fst (holder w p (m_name m2))"
  obtain Q where Q: "majority (m_pools m1) Q" "\<And>p. p \<in> Q \<Longrightarrow> ?v p = Some (m_value m1')"
    using Lock_success [OF assms(7)] redis_cluster.attempt_secures [OF assms(1) _ assms(3)] assms(5,9) live(1)
    unfolding redis_cluster.secured_def [OF assms(1)] by (metis (no_types, lifting))
  obtain R where R: "majority (m_pools m1) R" "\<And>p. p \<in> R \<Longrightarrow> ?v p = Some (m_value m2')"
    using Lock_success [OF assms(8)] redis_cluster.attempt_secures [OF assms(2) _ assms(4)] assms(6,10) live(2)
    unfolding redis_cluster.secured_def [OF assms(2)] by (metis (no_types, lifting))
  from pools.qagree [OF Q(1) R(1), of ?v] Q(2) R(2) assms(11) show False by blast
qed

section \<open>A minority never locks\<close>

lemma tally_bound:
  assumes "tally ask ps n w = (k, w1)" and "\<And>p w. p \<in> set ps \<Longrightarrow> p \<notin> G \<Longrightarrow> \<not> fst (ask p w)" and "distinct ps" and "finite G"
  shows "k \<le> n + int (card (set ps \<inter> G))"
  using assms
proof (induction ps arbitrary: n w)
  case (Cons p ps)
  obtain yes w2 where a: "ask p w = (yes, w2)" by fastforce
  have "tally ask ps (if yes then n + 1 else n) w2 = (k, w1)" using Cons.prems(1) a by simp
  from Cons.IH [OF this] Cons.prems(2-4) have k: "k \<le> (if yes then n + 1 else n) + int (card (set ps \<inter> G))" by simp
  have "p \<in> G" if yes using Cons.prems(2) [of p w] a that by auto
  moreover have "card (insert p (set ps) \<inter> G) = Suc (card (set ps \<inter> G))" if "p \<in> G"
    using that Cons.prems(3,4) by (simp add: Int_insert_left)
  moreover have "card (set ps \<inter> G) \<le> card (insert p (set ps) \<inter> G)" using Cons.prems(4) by (intro card_mono) auto
  ultimately show ?case using k by (cases yes) auto
qed simp

lemma tally_all:
  "(\<And>p w. p \<in> set ps \<Longrightarrow> fst (ask p w)) \<Longrightarrow> fst (tally ask ps n w) = n + int (length ps)"
  by (induction ps arbitrary: n w) (auto split: prod.splits, metis fst_conv)

text \<open>The pools that may grant the lock at all.\<close>

definition granting :: "('p, 'w) redis_env \<Rightarrow> 'p Mutex \<Rightarrow> 'p set" where
  "granting e m = {p \<in> set (m_pools m). \<exists>v ms w. fst (do_SET e p (m_name m) v ms w) = (''OK'', None)}"

lemma tally_minority:
  assumes "tally ask ps 0 w = (k, w1)" and "distinct ps" and "\<And>p w. p \<in> set ps \<Longrightarrow> p \<notin> G \<Longrightarrow> \<not> fst (ask p w)"
    and "G \<subseteq> set ps" and "int (card G) < q"
  shows "k < q"
proof -
  have "set ps \<inter> G = G" "finite G" using assms(4) by (auto intro: finite_subset)
  with tally_bound [OF assms(1), of G] assms(2,3,5) show ?thesis by fastforce
qed

lemma attempt_minority:
  assumes "distinct (m_pools m)" and "int (card (granting e m)) < m_quorum m"
  shows "fst (Lock_attempt e m v w) = None"
proof -
  have "\<not> fst (acquire e m v p w)" if "p \<in> set (m_pools m)" "p \<notin> granting e m" for p w
    using that by (auto simp: granting_def acquire_def split: prod.splits) (metis fst_conv)
  moreover have "granting e m \<subseteq> set (m_pools m)" by (auto simp: granting_def)
  ultimately have "k < m_quorum m" if "tally (acquire e m v) (m_pools m) 0 u = (k, u1)" for k u u1
    using tally_minority [OF that assms(1) _ _ assms(2)] by blast
  then show ?thesis by (fastforce simp: Lock_attempt_def Let_def split: prod.splits)
qed

text \<open>Extending a lock likewise fails unless a quorum of the servers answers the script without an error and with a status other than \<open>ERR\<close>,
  and succeeds when all of them do.\<close>

definition extending :: "('p, 'w) redis_env \<Rightarrow> 'p Mutex \<Rightarrow> 'p set" where
  "extending e m = {p \<in> set (m_pools m). \<exists>w. fst (touch e m (m_value m) (m_expiry m sdiv Millisecond) p w)}"

lemma Extend_minority:
  assumes "distinct (m_pools m)" and "int (card (extending e m)) < m_quorum m"
  shows "\<not> fst (Extend e m w)"
proof -
  have "k < m_quorum m" if "tally (touch e m (m_value m) (m_expiry m sdiv Millisecond)) (m_pools m) 0 w = (k, w1)" for k w1
    by (rule tally_minority [OF that assms(1) _ _ assms(2)]) (auto simp: extending_def)
  then show ?thesis by (fastforce simp: Extend_def split: prod.splits)
qed

lemma Extend_all:
  assumes "\<And>p w. p \<in> set (m_pools m) \<Longrightarrow> fst (touch e m (m_value m) (m_expiry m sdiv Millisecond) p w)"
    and "m_quorum m \<le> int (length (m_pools m))"
  shows "fst (Extend e m w)"
  using tally_all [of "m_pools m" "touch e m (m_value m) (m_expiry m sdiv Millisecond)" 0 w] assms
  by (auto simp: Extend_def split: prod.splits)

lemma Lock_loop_minority:
  assumes "distinct (m_pools m)" and "int (card (granting e m)) < m_quorum m"
  shows "\<exists>w'. Lock_loop e m v i k w = (Some ErrFailed, m, w')"
proof (induction k arbitrary: i w)
  case (Suc k)
  define w1 where "w1 = (if i \<noteq> 0 then time_Sleep e (m_delay m) w else w)"
  obtain u where "Lock_attempt e m v w1 = (None, u)" using attempt_minority [OF assms, of v w1] by (metis prod.collapse)
  then show ?case using Suc.IH unfolding Lock_loop.simps Let_def w1_def [symmetric] by simp
qed simp

section \<open>The scripts act on the own value only\<close>

text \<open>What the scripts rely on of the commands of one server; \<open>val db k\<close> is the value stored under a key that has not expired.\<close>

locale redis_server =
  fixes call :: "redis_cmd \<Rightarrow> 'db \<Rightarrow> lua \<times> 'db"
    and val :: "'db \<Rightarrow> string \<Rightarrow> string option"
  assumes GET: "call (GET k) db = (case val db k of None \<Rightarrow> LFalse | Some v \<Rightarrow> LBulk v, db)"
    and DEL: "val db k = Some v \<Longrightarrow> \<exists>db'. call (DEL k) db = (LInt 1, db') \<and> val db' = (val db)(k := None)"
    and SET_XX: "val db k = Some v \<Longrightarrow> 0 < ms \<Longrightarrow>
      \<exists>db'. call (SET_XX_PX k u ms) db = (LStatus ''OK'', db') \<and> val db' = (val db)(k \<mapsto> u)"
begin

lemma delete_own:
  "val db k = Some v \<Longrightarrow> \<exists>db'. deleteScript call k v db = (LInt 1, db') \<and> val db' = (val db)(k := None)"
  "val db k \<noteq> Some v \<Longrightarrow> deleteScript call k v db = (LInt 0, db)"
  using DEL [of db k v] by (auto simp: deleteScript_def GET split: option.splits)

lemma touch_own:
  "val db k = Some v \<Longrightarrow> 0 < ms \<Longrightarrow> \<exists>db'. touchScript call k v ms db = (LStatus ''OK'', db') \<and> val db' = val db"
  "val db k \<noteq> Some v \<Longrightarrow> touchScript call k v ms db = (LBulk ''ERR'', db)"
  using SET_XX [of db k v ms v] by (auto simp: touchScript_def GET fun_upd_idem split: option.splits)

end

section \<open>A cluster in memory\<close>

text \<open>
  An instance of the two interfaces: servers that keep a value with its time of expiry, reached by a single
  client at a time. Random bytes repeat a counter.
\<close>

record cluster =
  c_time :: nat
  c_keys :: "((nat \<times> string) \<times> (string \<times> int)) list"
  c_seed :: nat

definition c_clock :: "cluster \<Rightarrow> int" where
  "c_clock w = min (2 ^ 62 - 1) (int (c_time w))"

definition c_holder :: "cluster \<Rightarrow> nat \<Rightarrow> string \<Rightarrow> (string \<times> int) option" where
  "c_holder w p n =
     (case map_of (c_keys w) (p, n) of None \<Rightarrow> None | Some (v, x) \<Rightarrow> if c_clock w < x then Some (v, x) else None)"

definition c_put :: "nat \<Rightarrow> string \<Rightarrow> string \<Rightarrow> int \<Rightarrow> cluster \<Rightarrow> cluster" where
  "c_put p n v ms w = w\<lparr>c_keys := AList.update (p, n) (v, c_clock w + ms * Millisecond) (c_keys w)\<rparr>"

definition c_call :: "nat \<Rightarrow> redis_cmd \<Rightarrow> cluster \<Rightarrow> lua \<times> cluster" where
  "c_call p cmd w =
     (case cmd of
        GET n \<Rightarrow> (case c_holder w p n of None \<Rightarrow> LFalse | Some (v, x) \<Rightarrow> LBulk v, w)
      | DEL n \<Rightarrow> (if c_holder w p n = None then (LInt 0, w) else (LInt 1, w\<lparr>c_keys := AList.delete (p, n) (c_keys w)\<rparr>))
      | SET_XX_PX n v ms \<Rightarrow> (if c_holder w p n = None then (LFalse, w) else (LStatus ''OK'', c_put p n v ms w)))"

definition cluster_env :: "(nat, cluster) redis_env" where
  "cluster_env =
     \<lparr>do_SET = (\<lambda>p n v ms w. if c_holder w p n = None then ((''OK'', None), c_put p n v ms w)
                 else (([], Some ''redigo: nil returned''), w)),
      do_delete = (\<lambda>p n v w. case deleteScript (c_call p) n v w of
                    (LInt k, w1) \<Rightarrow> ((DynInt64 k, None), w1) | (_, w1) \<Rightarrow> ((DynOther [], None), w1)),
      do_touch = (\<lambda>p n v ms w. case touchScript (c_call p) n v ms w of
                   (LStatus s, w1) \<Rightarrow> ((s, None), w1) | (LBulk s, w1) \<Rightarrow> ((s, None), w1)
                 | (_, w1) \<Rightarrow> (([], Some ''redigo: nil returned''), w1)),
      time_Now = (\<lambda>w. (c_clock w, w)),
      time_Sleep = (\<lambda>d w. w\<lparr>c_time := c_time w + nat d\<rparr>),
      rand_Read = (\<lambda>k w. ((replicate k (char_of (c_seed w)), None), w\<lparr>c_seed := Suc (c_seed w)\<rparr>))\<rparr>"

definition c_keeps :: "string \<Rightarrow> cluster \<Rightarrow> cluster \<Rightarrow> bool" where
  "c_keeps v w w1 \<longleftrightarrow> c_clock w \<le> c_clock w1
     \<and> (\<forall>p n x. c_holder w p n = Some (v, x) \<longrightarrow> c_clock w1 < x \<longrightarrow> (\<exists>y \<ge> x. c_holder w1 p n = Some (v, y)))"

lemma c_clock_put [simp]: "c_clock (c_put p n v ms w) = c_clock w" "c_clock (w\<lparr>c_keys := ks\<rparr>) = c_clock w"
  by (simp_all add: c_clock_def c_put_def)

lemma c_holder_put:
  "c_holder (c_put p n v ms w) q k = (if q = p \<and> k = n then if 0 < ms then Some (v, c_clock w + ms * Millisecond) else None
     else c_holder w q k)"
  by (simp add: c_holder_def c_put_def update_conv' Millisecond_def split: option.split)

interpretation cluster_server: redis_server "c_call p" "\<lambda>w n. map_option fst (c_holder w p n)" for p
proof
  fix db k v
  assume "map_option fst (c_holder db p k) = Some v"
  moreover have "map_option fst (c_holder (db\<lparr>c_keys := AList.delete (p, k) (c_keys db)\<rparr>) p n)
      = ((\<lambda>n. map_option fst (c_holder db p n))(k := None)) n" for n
    by (simp add: c_holder_def delete_conv' split: option.split)
  ultimately show "\<exists>db'. c_call p (DEL k) db = (LInt 1, db')
      \<and> (\<lambda>n. map_option fst (c_holder db' p n)) = (\<lambda>n. map_option fst (c_holder db p n))(k := None)"
    by (auto simp: c_call_def)
next
  fix db k v u and ms :: int
  assume "map_option fst (c_holder db p k) = Some v" and "0 < ms"
  then show "\<exists>db'. c_call p (SET_XX_PX k u ms) db = (LStatus ''OK'', db')
      \<and> (\<lambda>n. map_option fst (c_holder db' p n)) = (\<lambda>n. map_option fst (c_holder db p n))(k \<mapsto> u)"
    by (auto simp: c_call_def c_holder_put)
qed (simp add: c_call_def split: option.split)

interpretation in_memory: redis_cluster cluster_env c_clock c_holder c_keeps own for own
proof
  fix w show "0 \<le> c_clock w" "c_clock w < 2 ^ 62" by (simp_all add: c_clock_def)
next
  fix w show "c_keeps own w w" by (auto simp: c_keeps_def)
next
  fix w w1 w2
  assume a: "c_keeps own w w1" "c_keeps own w1 w2"
  show "c_keeps own w w2"
    unfolding c_keeps_def
  proof (intro conjI allI impI)
    show "c_clock w \<le> c_clock w2" using a by (simp add: c_keeps_def)
    fix p n x assume x: "c_holder w p n = Some (own, x)" "c_clock w2 < x"
    then obtain y where y: "x \<le> y" "c_holder w1 p n = Some (own, y)" using a by (fastforce simp: c_keeps_def)
    then obtain z where "y \<le> z" "c_holder w2 p n = Some (own, z)" using a(2) x(2) by (fastforce simp: c_keeps_def)
    then show "\<exists>y \<ge> x. c_holder w2 p n = Some (own, y)" using y(1) by (intro exI [of _ z]) simp
  qed
next
  fix w w1 assume "c_keeps own w w1" then show "c_clock w \<le> c_clock w1" by (simp add: c_keeps_def)
next
  fix w w1 p n x
  assume "c_keeps own w w1" "c_holder w p n = Some (own, x)" "c_clock w1 < x"
  then show "\<exists>y \<ge> x. c_holder w1 p n = Some (own, y)" by (simp add: c_keeps_def)
next
  fix w t w1
  assume "time_Now cluster_env w = (t, w1)"
  then show "c_keeps own w w1 \<and> c_clock w \<le> t \<and> t \<le> c_clock w1" by (auto simp: cluster_env_def c_keeps_def)
next
  fix p n ms w r w1
  assume "do_SET cluster_env p n own ms w = (r, w1)"
  then show "c_keeps own w w1" by (auto simp: cluster_env_def c_keeps_def c_holder_put split: if_splits)
next
  fix p n ms w w1
  assume "do_SET cluster_env p n own ms w = ((''OK'', None), w1)"
  then show "\<exists>x. c_clock w + ms * Millisecond \<le> x \<and> (c_clock w1 < x \<longrightarrow> c_holder w1 p n = Some (own, x))"
    by (auto simp: cluster_env_def c_holder_put Millisecond_def split: if_splits)
qed

section \<open>Properties of the mutex\<close>

text \<open>C30: a client that reaches fewer servers than the quorum never gets the lock: after its tries it returns the error, and the
  mutex is as before.\<close>

theorem Lock_minority_fails:
  assumes "distinct (m_pools m)" and "int (card (granting e m)) < m_quorum m" and "fst (rand_Read e 32 w) = (b, None)"
  shows "\<exists>w'. Lock e m w = (Some ErrFailed, m, w')"
  using Lock_loop_minority [OF assms(1,2)] assms(3) by (auto simp: Lock_def genValue_def split: prod.splits)

definition idle_cluster :: cluster where
  "idle_cluster = \<lparr>c_time = 5, c_keys = [], c_seed = 65\<rparr>"

theorem Lock_minority_fails_witness:
  "\<exists>w'. Lock (cluster_env\<lparr>do_SET := (\<lambda>p n v ms w. if p = 0 then ((''OK'', None), c_put p n v ms w) else (([], Some ''timeout''), w))\<rparr>)
     (NewMutex [0, 1, 2] ''order-7'' []) idle_cluster = (Some ErrFailed, NewMutex [0, 1, 2] ''order-7'' [], w')"
proof (rule Lock_minority_fails)
  let ?e = "cluster_env\<lparr>do_SET := (\<lambda>p n v ms w. if p = (0 :: nat) then ((''OK'', None), c_put p n v ms w) else (([], Some ''timeout''), w))\<rparr>"
  have "granting ?e (NewMutex [0, 1, 2] ''order-7'' []) \<subseteq> {0}" by (auto simp: granting_def)
  then have "card (granting ?e (NewMutex [0, 1, 2] ''order-7'' [])) \<le> card {0 :: nat}" by (intro card_mono) auto
  then show "int (card (granting ?e (NewMutex [0, 1, 2] ''order-7'' []))) < m_quorum (NewMutex [0, 1, 2 :: nat] ''order-7'' [])"
    by (simp add: NewMutex_def)
qed (simp_all add: NewMutex_def cluster_env_def idle_cluster_def)

lemma release_true: "do_delete e p (m_name m) v w = ((DynInt64 k, None), w') \<Longrightarrow> fst (release e m v p w)"
  by (simp add: release_def)

text \<open>C31: the result of \<open>Unlock\<close> says nothing about the lock: as soon as the servers answer the script with an integer, whichever it is, it
  reports success, since an integer reply is never equal to the constant it is compared with.\<close>

theorem Unlock_always_true:
  assumes "\<And>p w. p \<in> set (m_pools m) \<Longrightarrow> \<exists>k w'. do_delete e p (m_name m) (m_value m) w = ((DynInt64 k, None), w')"
    and "m_quorum m \<le> int (length (m_pools m))"
  shows "fst (Unlock e m w)"
proof -
  have "fst (tally (release e m (m_value m)) (m_pools m) 0 w) = int (length (m_pools m))"
    using tally_all [of "m_pools m" "release e m (m_value m)"] assms(1) release_true by fastforce
  then show ?thesis using assms(2) by (auto simp: Unlock_def split: prod.splits)
qed

lemma cluster_delete: "\<exists>k w'. do_delete cluster_env p n v w = ((DynInt64 k, None), w')"
  using cluster_server.delete_own [of w p n v] by (cases "map_option fst (c_holder w p n) = Some v") (auto simp: cluster_env_def)

theorem Unlock_always_true_witness:
  "c_keys idle_cluster = [] \<and> fst (Unlock cluster_env (NewMutex [0, 1, 2] ''order-7'' []) idle_cluster)"
proof
  show "fst (Unlock cluster_env (NewMutex [0, 1, 2] ''order-7'' []) idle_cluster)"
    by (rule Unlock_always_true) (simp_all add: cluster_delete, simp add: NewMutex_def)
qed (simp add: idle_cluster_def)

text \<open>On every server that executes its commands as documented, the delete script removes a key exactly if the key holds the given value,
  and the touch script renews it exactly then; otherwise both leave the data as they were and say so.\<close>

lemma scripts_touch_own_key:
  assumes "redis_server call val" and "0 < ms"
  shows "if val db k = Some v
    then (\<exists>db'. deleteScript call k v db = (LInt 1, db') \<and> val db' = (val db)(k := None))
       \<and> (\<exists>db'. touchScript call k v ms db = (LStatus ''OK'', db') \<and> val db' = val db)
    else deleteScript call k v db = (LInt 0, db) \<and> touchScript call k v ms db = (LBulk ''ERR'', db)"
  using redis_server.delete_own [OF assms(1)] redis_server.touch_own [OF assms(1)] assms(2) by simp

end
