(* ===== verification/Redis_Lock.thy ===== *)
theory Redis_Lock
  imports Redsync
begin

text \<open>
  The lock of the library (\<open>components/lock/redis.go\<close>): the limits it puts on its configuration, and the
  protocol between the goroutines of one process, which combines a local mutex \<open>sl\<close>, the flag \<open>isLock\<close> and
  the distributed mutex of \<open>Redsync\<close>. The protocol is modelled statement by statement, since the
  goroutines interleave between statements.
\<close>

section \<open>Configuration\<close>

definition MAX_REDIS_LOCK_EXPIRY :: int where "MAX_REDIS_LOCK_EXPIRY = 1"
definition MAX_TRIES :: int where "MAX_TRIES = 3"
definition MAX_RETRY_DELAY :: int where "MAX_RETRY_DELAY = 50"
definition MAX_TRY_GET_LOCK :: int where "MAX_TRY_GET_LOCK = 200"
definition LOCK_STAT :: int where "LOCK_STAT = 1"
definition UNLOCK_STAT :: int where "UNLOCK_STAT = 0"

lemmas lock_constants = MAX_REDIS_LOCK_EXPIRY_def MAX_TRIES_def MAX_RETRY_DELAY_def MAX_TRY_GET_LOCK_def
  LOCK_STAT_def UNLOCK_STAT_def

record 'p RedisLockConfig =
  lc_Pools :: "'p list"
  lc_Name :: string
  lc_Expiry :: int
  lc_Tries :: int
  lc_RetryDelay :: int
  lc_DriftFactor :: float64
  lc_MaxTryLock :: int

record 'p RedisLock =
  isLock :: int
  ttl :: int
  rl :: "'p Mutex"
  sl :: bool

text \<open>The configuration is passed by pointer: its fields are overwritten, so it is returned as well.\<close>

definition NewRedsync :: "'p RedisLockConfig \<Rightarrow> 'p RedisLock \<times> 'p RedisLockConfig" where
  "NewRedsync c =
     (let c1 = (if MAX_REDIS_LOCK_EXPIRY < lc_Expiry c \<or> lc_Expiry c = 0 then c\<lparr>lc_Expiry := MAX_REDIS_LOCK_EXPIRY\<rparr> else c);
          opts1 = [SetExpiry (int64 (lc_Expiry c1 * (1000 * Millisecond)))];
          c2 = (if MAX_TRIES < lc_Tries c1 \<or> lc_Tries c1 = 0 then c1\<lparr>lc_Tries := MAX_TRIES\<rparr> else c1);
          opts2 = opts1 @ [SetTries (lc_Tries c2)];
          c3 = (if MAX_RETRY_DELAY < lc_RetryDelay c2 \<or> lc_RetryDelay c2 = 0 then c2\<lparr>lc_RetryDelay := MAX_RETRY_DELAY\<rparr> else c2);
          opts3 = opts2 @ [SetRetryDelay (int64 (lc_RetryDelay c3 * Millisecond))];
          opts4 = (if mant (lc_DriftFactor c3) \<noteq> 0 then opts3 @ [SetDriftFactor (lc_DriftFactor c3)] else opts3);
          c4 = (if MAX_TRY_GET_LOCK < lc_MaxTryLock c3 \<or> lc_MaxTryLock c3 = 0 then c3\<lparr>lc_MaxTryLock := MAX_RETRY_DELAY\<rparr> else c3)
      in (\<lparr>isLock = 0, ttl = lc_MaxTryLock c4, rl = NewMutex (lc_Pools c) (lc_Name c4) opts4, sl = False\<rparr>, c4))"

lemmas option_defs = SetExpiry_def SetTries_def SetRetryDelay_def SetDriftFactor_def

lemma NewRedsync_mutex:
  "rl (fst (NewRedsync c)) =
     \<lparr>m_name = lc_Name c,
      m_expiry = (if 1 < lc_Expiry c \<or> lc_Expiry c = 0 then 1000 * Millisecond else int64 (lc_Expiry c * (1000 * Millisecond))),
      m_tries = (if 3 < lc_Tries c \<or> lc_Tries c = 0 then 3 else lc_Tries c),
      m_delay = (if 50 < lc_RetryDelay c \<or> lc_RetryDelay c = 0 then 50 * Millisecond else int64 (lc_RetryDelay c * Millisecond)),
      m_factor = (if mant (lc_DriftFactor c) = 0 then f64_hundredth else lc_DriftFactor c),
      m_quorum = int (length (lc_Pools c)) div 2 + 1, m_value = [], m_until = 0, m_pools = lc_Pools c\<rparr>"
  by (cases "1 < lc_Expiry c \<or> lc_Expiry c = 0"; cases "3 < lc_Tries c \<or> lc_Tries c = 0";
      cases "50 < lc_RetryDelay c \<or> lc_RetryDelay c = 0"; cases "mant (lc_DriftFactor c) = 0";
      cases "200 < lc_MaxTryLock c \<or> lc_MaxTryLock c = 0")
    (simp_all only: NewRedsync_def Let_def lock_constants if_True if_False not_False_eq_True not_True_eq_False fst_conv RedisLock.simps
       RedisLockConfig.simps NewMutex_def, simp_all add: option_defs int64_def Millisecond_def)

text \<open>A configuration without negative entries gives a lock that expires after one second, tries one to three times, waits
  at most fifty milliseconds between two tries, gives up on the local mutex after at most two hundred milliseconds, and
  needs more than half of the pools; an absent limit for the local mutex becomes fifty milliseconds.\<close>

lemma NewRedsync_limits:
  assumes "0 \<le> lc_Expiry c" and "0 \<le> lc_Tries c" and "0 \<le> lc_RetryDelay c" and "0 \<le> lc_MaxTryLock c"
  shows "m_expiry (rl (fst (NewRedsync c))) = 1000 * Millisecond
    \<and> 1 \<le> m_tries (rl (fst (NewRedsync c))) \<and> m_tries (rl (fst (NewRedsync c))) \<le> 3
    \<and> Millisecond \<le> m_delay (rl (fst (NewRedsync c))) \<and> m_delay (rl (fst (NewRedsync c))) \<le> 50 * Millisecond
    \<and> 1 \<le> ttl (fst (NewRedsync c)) \<and> ttl (fst (NewRedsync c)) \<le> 200 \<and> (lc_MaxTryLock c = 0 \<longrightarrow> ttl (fst (NewRedsync c)) = 50)
    \<and> int (length (lc_Pools c)) < 2 * m_quorum (rl (fst (NewRedsync c)))"
proof -
  have "lc_RetryDelay c \<le> 50 \<Longrightarrow> int64 (lc_RetryDelay c * Millisecond) = lc_RetryDelay c * Millisecond"
    using assms(3) by (intro int64_id) (simp add: in_int64_def Millisecond_def)
  moreover have "lc_Expiry c = 0 \<or> lc_Expiry c = 1 \<or> 1 < lc_Expiry c" using assms(1) by linarith
  moreover have "ttl (fst (NewRedsync c)) = (if 200 < lc_MaxTryLock c \<or> lc_MaxTryLock c = 0 then 50 else lc_MaxTryLock c)"
    by (simp add: NewRedsync_def Let_def lock_constants)
  ultimately show ?thesis
    using assms unfolding NewRedsync_mutex by (auto simp: int64_def Millisecond_def)
qed

definition sample_lock :: "nat RedisLockConfig" where
  "sample_lock = \<lparr>lc_Pools = [0, 1, 2], lc_Name = ''order-7'', lc_Expiry = 0, lc_Tries = 2, lc_RetryDelay = 80,
     lc_DriftFactor = F64 0 0, lc_MaxTryLock = 0\<rparr>"

section \<open>Mutual exclusion between processes\<close>

lemma hundredth_of_a_second: "int64_of_f64 (f64_mult (f64_of_int 1000000000) f64_hundredth) = 10000000"
  by (simp add: f64_of_int_def f64_mult_def f64_round_def f64_hundredth_def bit_len.simps int64_of_f64_def int64_def)

lemma NewRedsync_mutex_ok:
  assumes "0 \<le> lc_Expiry c" and "mant (lc_DriftFactor c) = 0" and "distinct (lc_Pools c)"
  shows "mutex_ok (rl (fst (NewRedsync c)))"
proof -
  have "lc_Expiry c = 0 \<or> lc_Expiry c = 1 \<or> 1 < lc_Expiry c" using assms(1) by linarith
  then have "m_expiry (rl (fst (NewRedsync c))) = 1000000000" by (auto simp: NewRedsync_mutex int64_def Millisecond_def)
  moreover have "m_factor (rl (fst (NewRedsync c))) = f64_hundredth" using assms(2) by (simp add: NewRedsync_mutex)
  ultimately show ?thesis
    using assms(3) hundredth_of_a_second by (simp add: mutex_ok_def drift_def) (simp add: NewRedsync_mutex Millisecond_def sdiv_nonneg)
qed

text \<open>C2: mutual exclusion of the distributed lock. Two processes make a lock of one name over the same pools, with the default
  drift factor, and both lock it with different random values. At every later moment at which neither has released its lock,
  the validity of at least one of the two has ended. The servers are assumed to keep a granted key for its time; each of the two processes
  may see any interleaving of the requests of others.\<close>

theorem redis_lock_mutual_exclusion:
  assumes "redis_cluster e1 clock holder keeps (m_value m1)" and "redis_cluster e2 clock holder keeps (m_value m2)"
    and "0 \<le> lc_Expiry c1" and "mant (lc_DriftFactor c1) = 0" and "0 \<le> lc_Expiry c2" and "mant (lc_DriftFactor c2) = 0"
    and "distinct (lc_Pools c1)" and "lc_Pools c2 = lc_Pools c1" and "lc_Name c2 = lc_Name c1"
    and "Lock e1 (rl (fst (NewRedsync c1))) w1 = (None, m1, w1')" and "Lock e2 (rl (fst (NewRedsync c2))) w2 = (None, m2, w2')"
    and "m_value m1 \<noteq> m_value m2" and "keeps (m_value m1) w1' w" and "keeps (m_value m2) w2' w"
  shows "m_until m1 \<le> clock w \<or> m_until m2 \<le> clock w"
proof (rule redsync_exclusive [OF assms(1,2) NewRedsync_mutex_ok NewRedsync_mutex_ok])
  show "m_name (rl (fst (NewRedsync c1))) = m_name (rl (fst (NewRedsync c2)))"
    and "m_pools (rl (fst (NewRedsync c1))) = m_pools (rl (fst (NewRedsync c2)))"
    using assms(8,9) by (simp_all add: NewRedsync_mutex)
qed (use assms in simp_all)

abbreviation sample_mutex :: "nat Mutex" where
  "sample_mutex \<equiv> rl (fst (NewRedsync sample_lock))"

definition c_put_all :: "string \<Rightarrow> cluster \<Rightarrow> cluster" where
  "c_put_all v w = fold (\<lambda>p. c_put p ''order-7'' v 1000) [0, 1, 2] w"

lemma cluster_env_simps [simp]:
  "do_SET cluster_env p n v ms w = (if c_holder w p n = None then ((''OK'', None), c_put p n v ms w)
     else (([], Some ''redigo: nil returned''), w))"
  "time_Now cluster_env w = (c_clock w, w)" "time_Sleep cluster_env d w = w\<lparr>c_time := c_time w + nat d\<rparr>"
  "rand_Read cluster_env k w = ((replicate k (char_of (c_seed w)), None), w\<lparr>c_seed := Suc (c_seed w)\<rparr>)"
  by (simp_all add: cluster_env_def)

lemma sample_mutex_fields:
  "m_pools sample_mutex = [0, 1, 2]" "m_name sample_mutex = ''order-7''" "m_expiry sample_mutex = 1000000000" "m_tries sample_mutex = 2"
  "m_quorum sample_mutex = 2" "drift sample_mutex = 10000000"
  using hundredth_of_a_second by (simp_all add: NewRedsync_mutex sample_lock_def Millisecond_def drift_def)

lemma sample_locks:
  assumes "\<And>p. p \<in> {0, 1, 2} \<Longrightarrow> c_holder w p ''order-7'' = None" and "v = EncodeToString (replicate 32 (char_of (c_seed w)))"
  shows "Lock cluster_env sample_mutex w =
    (None, sample_mutex\<lparr>m_value := v, m_until := c_clock w + 992000000\<rparr>, c_put_all v (w\<lparr>c_seed := Suc (c_seed w)\<rparr>))"
proof -
  let ?w = "w\<lparr>c_seed := Suc (c_seed w)\<rparr>"
  have clock: "c_clock ?w = c_clock w" by (simp add: c_clock_def)
  have free: "c_holder ?w p ''order-7'' = None" if "p \<in> {0, 1, 2}" for p
    using assms(1) [OF that] by (auto simp: c_holder_def clock split: option.splits)
  have "(1000000000 :: int) sdiv Millisecond = 1000" by (simp add: sdiv_nonneg Millisecond_def)
  then have "Lock_attempt cluster_env sample_mutex v ?w = (Some (c_clock w + 992000000), c_put_all v ?w)"
    by (simp add: Lock_attempt_def sample_mutex_fields acquire_def c_holder_put free c_put_all_def clock time_Sub_def int64_def Millisecond_def)
  then show ?thesis
    using assms(2) by (simp add: Lock_def genValue_def sample_mutex_fields numeral_2_eq_2)
qed

theorem redis_lock_mutual_exclusion_witness:
  "\<exists>m1 m2 w1 w2. Lock cluster_env sample_mutex idle_cluster = (None, m1, w1)
    \<and> Lock cluster_env sample_mutex (time_Sleep cluster_env 2000000000 w1) = (None, m2, w2)
    \<and> (m_until m1 \<le> c_clock w2 \<or> m_until m2 \<le> c_clock w2)"
proof -
  define v1 v2 where "v1 = EncodeToString (replicate 32 (char_of (65 :: nat)))" and "v2 = EncodeToString (replicate 32 (char_of (66 :: nat)))"
  define w1 where "w1 = c_put_all v1 (idle_cluster\<lparr>c_seed := 66\<rparr>)"
  define u where "u = time_Sleep cluster_env 2000000000 w1"
  define w2 where "w2 = c_put_all v2 (u\<lparr>c_seed := 67\<rparr>)"
  have t: "c_clock w1 = 5" "c_seed u = 66" "c_clock u = 2000000005" "c_clock w2 = 2000000005"
    by (simp_all add: w1_def w2_def u_def c_put_all_def idle_cluster_def c_put_def c_clock_def)
  have e: "c_holder (idle_cluster\<lparr>c_seed := 66\<rparr>) p n = None" "c_clock (idle_cluster\<lparr>c_seed := 66\<rparr>) = 5" for p n
    by (simp_all add: idle_cluster_def c_holder_def c_clock_def)
  have h: "x \<le> 1000000005" if "c_holder w1 p n = Some (v, x)" for p n v x
    using that by (auto simp: w1_def c_put_all_def c_holder_put e Millisecond_def split: if_splits)
  have free: "c_holder u p ''order-7'' = None" for p
    using h [of p "''order-7''"] t by (force simp: u_def c_holder_def w1_def [symmetric] split: option.splits)
  have l1: "Lock cluster_env sample_mutex idle_cluster = (None, sample_mutex\<lparr>m_value := v1, m_until := 992000005\<rparr>, w1)"
    by (subst sample_locks [of _ v1]) (simp_all add: v1_def w1_def idle_cluster_def c_holder_def c_clock_def)
  have l2: "Lock cluster_env sample_mutex u = (None, sample_mutex\<lparr>m_value := v2, m_until := 2992000005\<rparr>, w2)"
    by (subst sample_locks [of _ v2]) (simp_all add: free v2_def w2_def t)
  have "of_char (char_of (65 :: nat)) \<noteq> (of_char (char_of (66 :: nat)) :: nat)" by (simp only: of_char_of) simp
  then have "char_of (65 :: nat) \<noteq> (char_of (66 :: nat) :: char)" by metis
  then have v: "v1 \<noteq> v2" by (simp add: v1_def v2_def EncodeToString_inj )
  have k: "c_keeps v1 w1 w2" using t h by (fastforce simp: c_keeps_def)
  have c: "redis_cluster cluster_env c_clock c_holder c_keeps x" for x by (rule in_memory.redis_cluster_axioms)
  have "992000005 \<le> c_clock w2 \<or> 2992000005 \<le> c_clock w2"
    using redis_lock_mutual_exclusion [OF c c _ _ _ _ _ _ _ l1 l2, of w2] v k in_memory.keeps_refl
    by (simp add: sample_lock_def)
  with l1 l2 show ?thesis by (auto simp: u_def)
qed

section \<open>The protocol of the goroutines\<close>

text \<open>
  Where a goroutine stands: outside; in \<open>Lock\<close> before \<open>sl.Lock\<close>, before the stores, before the \<open>select\<close>, before the result of
  \<open>rl.Lock\<close>, in the two statements of the error branch and of the timeout branch; holding the lock; in
  \<open>Unlock\<close> before the test, and before each of its three statements.
\<close>

datatype pc =
    Outside | AtLock | AtStore | AtSelect | AtRemote
  | ErrUnlock | ErrStore | DoneUnlock | DoneStore
  | Holding | AtTest | UnlockSl | ClearFlag | UnlockRemote

record lock_state =
  f_isLock :: int
  f_sl :: bool
  f_pc :: "nat \<Rightarrow> pc"

definition lock_init :: lock_state where
  "lock_init = \<lparr>f_isLock = UNLOCK_STAT, f_sl = False, f_pc = (\<lambda>_. Outside)\<rparr>"

text \<open>
  The next statement of goroutine \<open>g\<close>. The choice \<open>b\<close> is the branch the \<open>select\<close> takes (the channel of \<open>f\<close> is always ready, the
  context may be done as well) and whether \<open>rl.Lock\<close> returns nil. Unlocking an unlocked mutex ends the process.
\<close>

datatype move = Blocked | Fatal | Next lock_state

abbreviation goto :: "lock_state \<Rightarrow> nat \<Rightarrow> pc \<Rightarrow> lock_state" where
  "goto s g p \<equiv> s\<lparr>f_pc := (f_pc s)(g := p)\<rparr>"

definition unlock_sl :: "lock_state \<Rightarrow> nat \<Rightarrow> pc \<Rightarrow> move" where
  "unlock_sl s g p = (if f_sl s then Next (goto (s\<lparr>f_sl := False\<rparr>) g p) else Fatal)"

definition advance :: "bool \<Rightarrow> nat \<Rightarrow> lock_state \<Rightarrow> move" where
  "advance b g s =
     (case f_pc s g of
        Outside \<Rightarrow> Next (goto s g AtLock)
      | AtLock \<Rightarrow> if f_sl s then Blocked else Next (goto (s\<lparr>f_sl := True\<rparr>) g AtStore)
      | AtStore \<Rightarrow> Next (goto (s\<lparr>f_isLock := LOCK_STAT\<rparr>) g AtSelect)
      | AtSelect \<Rightarrow> Next (goto s g (if b then AtRemote else DoneUnlock))
      | AtRemote \<Rightarrow> Next (goto s g (if b then Holding else ErrUnlock))
      | ErrUnlock \<Rightarrow> unlock_sl s g ErrStore
      | ErrStore \<Rightarrow> Next (goto (s\<lparr>f_isLock := UNLOCK_STAT\<rparr>) g Outside)
      | DoneUnlock \<Rightarrow> unlock_sl s g DoneStore
      | DoneStore \<Rightarrow> Next (goto (s\<lparr>f_isLock := UNLOCK_STAT\<rparr>) g Outside)
      | Holding \<Rightarrow> Next (goto s g AtTest)
      | AtTest \<Rightarrow> Next (goto s g (if f_isLock s = LOCK_STAT then UnlockSl else Outside))
      | UnlockSl \<Rightarrow> unlock_sl s g ClearFlag
      | ClearFlag \<Rightarrow> Next (goto (s\<lparr>f_isLock := UNLOCK_STAT\<rparr>) g UnlockRemote)
      | UnlockRemote \<Rightarrow> Next (goto s g Outside))"

inductive lock_step :: "lock_state \<Rightarrow> lock_state \<Rightarrow> bool" where
  step: "advance b g s = Next s' \<Longrightarrow> lock_step s s'"

inductive_cases lock_stepE: "lock_step s s'"

section \<open>At most one goroutine holds the lock\<close>

definition owner :: "pc \<Rightarrow> bool" where
  "owner p \<longleftrightarrow> p \<in> {AtStore, AtSelect, AtRemote, ErrUnlock, DoneUnlock, Holding, AtTest, UnlockSl}"

definition lock_inv :: "lock_state \<Rightarrow> bool" where
  "lock_inv s \<longleftrightarrow> (\<forall>g. owner (f_pc s g) \<longrightarrow> f_sl s) \<and> (\<forall>g h. owner (f_pc s g) \<longrightarrow> owner (f_pc s h) \<longrightarrow> g = h)"

text \<open>A statement moves one goroutine; it takes the mutex only when it is free, and only an owner gives it up.\<close>

lemma advance_effect:
  assumes "advance b g s = Next s'" and "owner (f_pc s g) \<Longrightarrow> f_sl s"
  shows "f_pc s' = (f_pc s)(g := f_pc s' g)
    \<and> (owner (f_pc s' g) \<longrightarrow> f_sl s' \<and> (owner (f_pc s g) \<or> \<not> f_sl s))
    \<and> (f_sl s' = f_sl s \<or> owner (f_pc s' g) \<or> owner (f_pc s g))"
  using assms by (cases "f_pc s g") (auto simp: advance_def unlock_sl_def owner_def split: if_splits)

lemma lock_step_inv: "lock_step s s' \<Longrightarrow> lock_inv s \<Longrightarrow> lock_inv s'"
proof (elim lock_stepE)
  fix b g
  assume inv: "lock_inv s" and adv: "advance b g s = Next s'"
  have "owner (f_pc s g) \<Longrightarrow> f_sl s" using inv by (auto simp: lock_inv_def)
  from advance_effect [OF adv this] inv show "lock_inv s'" unfolding lock_inv_def by (metis fun_upd_apply)
qed

lemma advance_not_fatal: "lock_inv s \<Longrightarrow> advance b g s \<noteq> Fatal"
  by (cases "f_pc s g") (auto simp: advance_def unlock_sl_def lock_inv_def owner_def)

interpretation goroutines: safe_system "\<lambda>s. s = lock_init" lock_step lock_inv "\<lambda>s. \<exists>b g. advance b g s = Fatal"
proof
  show "lock_inv s" if "s = lock_init" for s using that by (simp add: lock_init_def lock_inv_def owner_def)
qed (auto simp: lock_step_inv advance_not_fatal)

text \<open>C10: whatever the interleaving of their statements, at most one goroutine of a process holds the lock, and, as long as a goroutine calls \<open>Unlock\<close> only
  while it holds the lock, none of them ever
  unlocks the local mutex while it is unlocked.\<close>

theorem lock_exclusive:
  assumes "reachable (\<lambda>s. s = lock_init) lock_step s"
  shows "(f_pc s g = Holding \<longrightarrow> f_pc s h = Holding \<longrightarrow> g = h) \<and> advance b g s \<noteq> Fatal"
  using goroutines.reachable_inv [OF assms] goroutines.never_bad [OF assms] by (auto simp: lock_inv_def owner_def)

text \<open>A run of the protocol, as the list of the goroutines that move, with their choices.\<close>

fun run :: "(nat \<times> bool) list \<Rightarrow> lock_state \<Rightarrow> lock_state option" where
  "run [] s = Some s"
| "run ((g, b) # ms) s = (case advance b g s of Next s' \<Rightarrow> run ms s' | _ \<Rightarrow> None)"

lemma run_steps: "run ms s = Some s' \<Longrightarrow> lock_step\<^sup>*\<^sup>* s s'"
proof (induction ms arbitrary: s)
  case (Cons m ms)
  then obtain s1 where "lock_step s s1" "run ms s1 = Some s'" by (cases m) (auto split: move.splits intro: lock_step.intros)
  with Cons.IH show ?case by (meson converse_rtranclp_into_rtranclp)
qed simp

theorem lock_exclusive_witness:
  "\<exists>s. run [(0, True), (1, True), (0, True), (0, True), (0, True), (0, True)] lock_init = Some s \<and> f_pc s 0 = Holding \<and> f_pc s 1 \<noteq> Holding"
proof -
  define s where "s = the (run [(0, True), (1, True), (0, True), (0, True), (0, True), (0, True)] lock_init)"
  have r: "run [(0, True), (1, True), (0, True), (0, True), (0, True), (0, True)] lock_init = Some s" and h: "f_pc s 0 = Holding"
    by (simp_all add: s_def advance_def lock_init_def)
  from lock_exclusive [OF reachable_steps [OF reach_init run_steps [OF r]], of 0 1] r h show ?thesis by auto
qed

section \<open>The order of the statements of \<open>Unlock\<close>\<close>

text \<open>A local mutex that is locked without an owner stays so for ever.\<close>

definition orphaned :: "lock_state \<Rightarrow> bool" where
  "orphaned s \<longleftrightarrow> f_sl s \<and> (\<forall>g. \<not> owner (f_pc s g))"

lemma orphaned_step: "lock_step s s' \<Longrightarrow> orphaned s \<Longrightarrow> orphaned s'"
proof (elim lock_stepE)
  fix b g
  assume o: "orphaned s" and adv: "advance b g s = Next s'"
  then have "\<not> owner (f_pc s g)" by (simp add: orphaned_def)
  from advance_effect [OF adv] this o show "orphaned s'" unfolding orphaned_def by (metis fun_upd_apply)
qed

interpretation orphan: safe_system orphaned lock_step orphaned "\<lambda>s. \<exists>g. f_pc s g = Holding"
  by unfold_locales (auto simp: orphaned_step, auto simp: orphaned_def owner_def)

text \<open>
  One goroutine is between giving up the local mutex and clearing the flag when the next one locks; the flag of the
  second is cleared by the first, and its own \<open>Unlock\<close> does nothing.
\<close>

definition race :: "(nat \<times> bool) list" where
  "race = map (\<lambda>g. (g, True)) ([0, 0, 0, 0, 0, 0, 0, 0] @ [1, 1, 1] @ [0, 0] @ [1, 1, 1, 1])"

text \<open>C11: \<open>Unlock\<close> gives up the local mutex before it clears the flag. Two goroutines that use the lock in turn can therefore end outside
  with the local mutex still locked, and from then on no goroutine of the process ever holds the lock again.\<close>

theorem unlock_order_loses_lock:
  "\<exists>s. lock_step\<^sup>*\<^sup>* lock_init s \<and> f_pc s = (\<lambda>_. Outside) \<and> f_sl s
     \<and> {s'. lock_step\<^sup>*\<^sup>* s s' \<and> (\<exists>g. f_pc s' g = Holding)} = {}"
proof -
  define s where "s = the (run race lock_init)"
  have r: "run race lock_init = Some s" and s: "f_pc s = (\<lambda>_. Outside)" "f_sl s"
    by (simp_all add: s_def race_def advance_def unlock_sl_def lock_init_def lock_constants fun_upd_idem_iff fun_eq_iff)
  then have "orphaned s" by (simp add: orphaned_def owner_def)
  have "\<not> (\<exists>g. f_pc s' g = Holding)" if "lock_step\<^sup>*\<^sup>* s s'" for s'
    by (rule orphan.inv_not_bad [OF orphan.steps_inv [OF that \<open>orphaned s\<close>]])
  then show ?thesis using run_steps [OF r] s by blast
qed

end
