(* ===== verification/Service_Register.thy ===== *)
theory Service_Register
  imports J7f_Prelude
begin

text \<open>
  Registration of a service in etcd (\<open>components/service_register\<close>). The client of etcd is outside the program: the
  record \<open>etcd_client\<close> holds the outcome of each of its calls, and the state keeps the calls that were made, in order. A context
  is a number, and the context of a client that was never registered is nil.
\<close>

section \<open>Time to live\<close>

definition minHeartBeatTime :: int where
  "minHeartBeatTime = 500 * 1000000"

record TTLOption =
  heartbeat :: int
  ttl_time :: int

definition NewTTLOption :: "int \<Rightarrow> int \<Rightarrow> TTLOption" where
  "NewTTLOption hb t =
     (let hb1 = (if hb \<le> minHeartBeatTime then minHeartBeatTime else hb);
          t1 = (if t \<le> hb1 then int64 (3 * hb1) else t)
      in \<lparr>heartbeat = hb1, ttl_time = t1\<rparr>)"

section \<open>Services and nodes\<close>

record Service =
  s_Key :: string
  s_Value :: string
  s_TTL :: "TTLOption option"

record ServiceInfo =
  si_Methods :: "string list"
  si_Version :: string
  si_Metadata :: "(string \<times> string) list"

record service_node =
  sn_NodeId :: string
  sn_Services :: "string \<rightharpoonup> ServiceInfo option"
  sn_Address :: string
  sn_Port :: int
  sn_Metadata :: "(string \<times> string) list"
  sn_Ip :: string
  sn_Version :: string

definition NewServiceNode :: "string \<Rightarrow> string \<Rightarrow> string \<Rightarrow> string \<Rightarrow> int \<Rightarrow> (string \<times> string) list \<Rightarrow> service_node" where
  "NewServiceNode nodeId address ip version port metadata =
     \<lparr>sn_NodeId = nodeId, sn_Services = Map.empty, sn_Address = address, sn_Port = port, sn_Metadata = metadata,
      sn_Ip = ip, sn_Version = version\<rparr>"

definition SetServices :: "string \<Rightarrow> ServiceInfo option list \<Rightarrow> service_node \<Rightarrow> service_node" where
  "SetServices key ss n = fold (\<lambda>s n. n\<lparr>sn_Services := (sn_Services n)(key \<mapsto> s)\<rparr>) ss n"

section \<open>The etcd client\<close>

datatype etcd_call =
    CloseLease nat | OpenLease nat | CloseWatcher nat | OpenWatcher nat
  | GrantLease int | PutKey string string int | KeepAlive int | DeleteKey string

record etcd_client =
  lease_Close :: "nat \<Rightarrow> string option"
  watcher_Close :: "nat \<Rightarrow> string option"
  lease_Grant :: "int \<Rightarrow> string + int"
  client_Put :: "string \<Rightarrow> string \<Rightarrow> int \<Rightarrow> string option"
  lease_KeepAlive :: "int \<Rightarrow> string option"
  client_Delete :: "string \<Rightarrow> string option"

text \<open>\<open>opened\<close> numbers the leasers and watchers that were made.\<close>

record EtcdCli =
  ec_ctx :: "nat option"
  leaseID :: int
  leaser :: "nat option"
  watcher :: "nat option"
  opened :: nat
  calls :: "etcd_call list"

text \<open>The configuration, in milliseconds, and the configuration of the client, in nanoseconds; \<open>New\<close> is the outcome of making a client.\<close>

record EtcdConfig =
  Endpoints :: "string list"
  AutoSyncInterval :: int
  DialTimeout :: int
  DialKeepAliveTime :: int
  DialKeepAliveTimeout :: int
  etcd_TLS :: "nat option"
  Username :: string
  Password :: string

definition millis :: "int \<Rightarrow> int" where
  "millis n = int64 (n * 1000000)"

definition NewEtcd :: "(EtcdConfig \<Rightarrow> string option) \<Rightarrow> EtcdConfig \<Rightarrow> EtcdCli option \<times> string option" where
  "NewEtcd New c =
     (let cfg = \<lparr>Endpoints = Endpoints c, AutoSyncInterval = millis (AutoSyncInterval c), DialTimeout = millis (DialTimeout c),
                 DialKeepAliveTime = millis (DialKeepAliveTime c), DialKeepAliveTimeout = millis (DialKeepAliveTimeout c), etcd_TLS = etcd_TLS c,
                 Username = Username c, Password = Password c\<rparr>
      in case New cfg of
           Some e \<Rightarrow> (None, Some e)
         | None \<Rightarrow> (Some \<lparr>ec_ctx = None, leaseID = 0, leaser = None, watcher = None, opened = 0, calls = []\<rparr>, None))"

abbreviation called :: "etcd_call \<Rightarrow> EtcdCli \<Rightarrow> EtcdCli" where
  "called c e \<equiv> e\<lparr>calls := calls e @ [c]\<rparr>"

definition renew_leaser :: "etcd_client \<Rightarrow> EtcdCli \<Rightarrow> string option \<times> EtcdCli" where
  "renew_leaser cli e =
     (let fresh = (\<lambda>e. (None, called (OpenLease (opened e)) (e\<lparr>leaser := Some (opened e), opened := Suc (opened e)\<rparr>))) in
      case leaser e of
        None \<Rightarrow> fresh e
      | Some l \<Rightarrow>
          let e1 = called (CloseLease l) e in (case lease_Close cli l of Some err \<Rightarrow> (Some err, e1) | None \<Rightarrow> fresh e1))"

definition renew_watcher :: "etcd_client \<Rightarrow> EtcdCli \<Rightarrow> string option \<times> EtcdCli" where
  "renew_watcher cli e =
     (let fresh = (\<lambda>e. (None, called (OpenWatcher (opened e)) (e\<lparr>watcher := Some (opened e), opened := Suc (opened e)\<rparr>))) in
      case watcher e of
        None \<Rightarrow> fresh e
      | Some l \<Rightarrow>
          let e1 = called (CloseWatcher l) e in (case watcher_Close cli l of Some err \<Rightarrow> (Some err, e1) | None \<Rightarrow> fresh e1))"

text \<open>The service is passed by pointer: a missing time to live is filled in. \<open>ttl.Seconds()\<close> is truncated to whole seconds.\<close>

definition with_TTL :: "Service \<Rightarrow> Service" where
  "with_TTL s =
     (if s_TTL s = None then s\<lparr>s_TTL := Some (NewTTLOption (3 * 1000000000) (10 * 1000000000))\<rparr> else s)"

definition lease_seconds :: "Service \<Rightarrow> int" where
  "lease_seconds s = ttl_time (the (s_TTL s)) sdiv 1000000000"

definition Register :: "etcd_client \<Rightarrow> nat \<Rightarrow> Service \<Rightarrow> EtcdCli \<Rightarrow> string option \<times> Service \<times> EtcdCli" where
  "Register cli ctx s e =
     (let (err, e1) = renew_leaser cli e in
      if err \<noteq> None then (err, s, e1)
      else
        let (err, e2) = renew_watcher cli e1 in
        if err \<noteq> None then (err, s, e2)
        else
          let s1 = with_TTL s;
              e3 = called (GrantLease (lease_seconds s1)) (e2\<lparr>ec_ctx := Some ctx\<rparr>)
          in case lease_Grant cli (lease_seconds s1) of
               Inl err \<Rightarrow> (Some err, s1, e3)
             | Inr i \<Rightarrow>
                 let e4 = called (PutKey (s_Key s1) (s_Value s1) i) (e3\<lparr>leaseID := i\<rparr>) in
                 (case client_Put cli (s_Key s1) (s_Value s1) i of
                    Some err \<Rightarrow> (Some err, s1, e4)
                  | None \<Rightarrow> (lease_KeepAlive cli i, s1, called (KeepAlive i) e4)))"

definition close_client :: "EtcdCli \<Rightarrow> EtcdCli" where
  "close_client e =
     (let e1 = (case leaser e of None \<Rightarrow> e | Some l \<Rightarrow> called (CloseLease l) e)
      in case watcher e1 of None \<Rightarrow> e1 | Some l \<Rightarrow> called (CloseWatcher l) e1)"

text \<open>
  \<open>DeRegister\<close> passes the context of the last registration to etcd, which is nil before the first one; \<open>client_Delete\<close> is the answer of etcd to the call, whatever the context is.
\<close>

definition DeRegister :: "etcd_client \<Rightarrow> Service \<Rightarrow> EtcdCli \<Rightarrow> string option \<times> EtcdCli" where
  "DeRegister cli s e =
     (if s_Key s = [] then (Some ''no key provided'', close_client e)
      else (client_Delete cli (s_Key s), close_client (called (DeleteKey (s_Key s)) e)))"

section \<open>Options\<close>

text \<open>
  The interface \<open>RegisterFunc\<close>, over the state of its implementation, and the options that forward to it with the background context.
\<close>

record 'st RegisterFunc =
  rf_Register :: "nat \<Rightarrow> Service \<Rightarrow> 'st \<Rightarrow> string option \<times> Service \<times> 'st"
  rf_DeRegister :: "nat \<Rightarrow> Service \<Rightarrow> 'st \<Rightarrow> string option \<times> 'st"

record 'st RegisterOpts =
  RegisterData :: Service
  RegisterFn :: "'st RegisterFunc"

definition NewRegisterOpts :: "Service \<Rightarrow> 'st RegisterFunc \<Rightarrow> 'st RegisterOpts" where
  "NewRegisterOpts s f = \<lparr>RegisterData = s, RegisterFn = f\<rparr>"

definition background :: nat where
  "background = 0"

definition Opts_Register :: "'st RegisterOpts \<Rightarrow> 'st \<Rightarrow> string option \<times> 'st RegisterOpts \<times> 'st" where
  "Opts_Register r st =
     (let (err, s, st1) = rf_Register (RegisterFn r) background (RegisterData r) st in (err, r\<lparr>RegisterData := s\<rparr>, st1))"

definition Opts_DeRegister :: "'st RegisterOpts \<Rightarrow> 'st \<Rightarrow> string option \<times> 'st" where
  "Opts_DeRegister r st = rf_DeRegister (RegisterFn r) background (RegisterData r) st"

definition etcd_registry :: "etcd_client \<Rightarrow> EtcdCli RegisterFunc" where
  "etcd_registry cli = \<lparr>rf_Register = Register cli, rf_DeRegister = (\<lambda>ctx. DeRegister cli)\<rparr>"

section \<open>Properties\<close>

text \<open>The options for the time to live are consistent: the heartbeat is at least half a second, and, for a heartbeat whose
  triple fits in a duration, the time to live is longer than it; values that already are consistent are kept.\<close>

lemma NewTTLOption_consistent:
  assumes "3 * hb < 2 ^ 63" and "in_int64 hb"
  shows "minHeartBeatTime \<le> heartbeat (NewTTLOption hb t) \<and> heartbeat (NewTTLOption hb t) < ttl_time (NewTTLOption hb t)
    \<and> (minHeartBeatTime \<le> hb \<and> hb < t \<longrightarrow> NewTTLOption hb t = \<lparr>heartbeat = hb, ttl_time = t\<rparr>)"
proof -
  have "int64 (3 * max hb minHeartBeatTime) = 3 * max hb minHeartBeatTime"
    using assms by (intro int64_id) (auto simp: in_int64_def minHeartBeatTime_def)
  moreover have "(if hb \<le> minHeartBeatTime then minHeartBeatTime else hb) = max hb minHeartBeatTime" by simp
  ultimately show ?thesis by (auto simp: NewTTLOption_def Let_def minHeartBeatTime_def)
qed

text \<open>The leases and watchers that were opened and not closed.\<close>

definition open_leases :: "etcd_call list \<Rightarrow> nat set" where
  "open_leases cs = {l. OpenLease l \<in> set cs \<and> CloseLease l \<notin> set cs}"

definition open_watchers :: "etcd_call list \<Rightarrow> nat set" where
  "open_watchers cs = {l. OpenWatcher l \<in> set cs \<and> CloseWatcher l \<notin> set cs}"

definition cli_ok :: "EtcdCli \<Rightarrow> bool" where
  "cli_ok e \<longleftrightarrow> open_leases (calls e) \<subseteq> set_option (leaser e) \<and> open_watchers (calls e) \<subseteq> set_option (watcher e)
     \<and> (\<forall>l \<in> set_option (leaser e) \<union> set_option (watcher e). l < opened e)
     \<and> (\<forall>l. CloseLease l \<in> set (calls e) \<longrightarrow> l < opened e) \<and> (\<forall>l. CloseWatcher l \<in> set (calls e) \<longrightarrow> l < opened e)"

lemma renew_leaser_ok: "cli_ok e \<Longrightarrow> renew_leaser cli e = (err, e1) \<Longrightarrow> cli_ok e1"
  by (auto simp: renew_leaser_def cli_ok_def open_leases_def open_watchers_def Let_def less_Suc_eq split: option.splits)

lemma renew_watcher_ok: "cli_ok e \<Longrightarrow> renew_watcher cli e = (err, e1) \<Longrightarrow> cli_ok e1"
  by (auto simp: renew_watcher_def cli_ok_def open_leases_def open_watchers_def Let_def less_Suc_eq split: option.splits)

lemma cli_ok_frame:
  "calls e' = calls e @ cs \<Longrightarrow> leaser e' = leaser e \<Longrightarrow> watcher e' = watcher e \<Longrightarrow> opened e' = opened e
   \<Longrightarrow> \<forall>l. OpenLease l \<notin> set cs \<and> OpenWatcher l \<notin> set cs \<and> CloseLease l \<notin> set cs \<and> CloseWatcher l \<notin> set cs
   \<Longrightarrow> cli_ok e \<Longrightarrow> cli_ok e'"
  by (auto simp: cli_ok_def open_leases_def open_watchers_def)

lemma Register_ok:
  assumes "cli_ok e" and "Register cli ctx s e = (err, s', e')"
  shows "cli_ok e'"
proof -
  obtain err1 e1 where 1: "renew_leaser cli e = (err1, e1)" by fastforce
  obtain err2 e2 where 2: "renew_watcher cli e1 = (err2, e2)" by fastforce
  have ok: "cli_ok e1" "cli_ok e2" using renew_leaser_ok [OF assms(1) 1] renew_watcher_ok [OF _ 2] by auto
  show ?thesis
    using assms(2) ok cli_ok_frame [OF _ _ _ _ _ ok(2), of e']
    by (auto simp: Register_def 1 2 Let_def split: if_splits sum.splits option.splits)
qed

lemma close_client_ok:
  assumes "cli_ok e"
  shows "cli_ok (close_client e) \<and> open_leases (calls (close_client e)) = {} \<and> open_watchers (calls (close_client e)) = {}"
  using assms by (auto simp: close_client_def cli_ok_def open_leases_def open_watchers_def Let_def split: option.split)

lemma DeRegister_closes:
  assumes "cli_ok e" and "DeRegister cli s e = (err, e')"
  shows "cli_ok e' \<and> open_leases (calls e') = {} \<and> open_watchers (calls e') = {}"
proof -
  have "cli_ok (called (DeleteKey k) e)" for k using assms(1) by (auto simp: cli_ok_def open_leases_def open_watchers_def)
  then show ?thesis using assms close_client_ok by (auto simp: DeRegister_def split: if_splits)
qed

text \<open>The states a client can reach by registering and deregistering, whatever the etcd servers answer.\<close>

inductive cli_step :: "EtcdCli \<Rightarrow> EtcdCli \<Rightarrow> bool" where
  register: "Register cli ctx s e = (err, s', e') \<Longrightarrow> cli_step e e'"
| deregister: "DeRegister cli s e = (err, e') \<Longrightarrow> cli_step e e'"

inductive_cases cli_stepE: "cli_step e e'"

definition cli_initial :: "EtcdCli \<Rightarrow> bool" where
  "cli_initial e \<longleftrightarrow> (\<exists>New c. NewEtcd New c = (Some e, None))"

interpretation client: invariant_system cli_initial cli_step cli_ok
proof
  fix e e' :: EtcdCli
  show "cli_initial e \<Longrightarrow> cli_ok e"
    by (auto simp: cli_initial_def NewEtcd_def Let_def cli_ok_def open_leases_def open_watchers_def split: option.splits)
  show "cli_ok e \<Longrightarrow> cli_step e e' \<Longrightarrow> cli_ok e'"
    by (auto elim!: cli_stepE dest: Register_ok DeRegister_closes)
qed

text \<open>C33: registering never leaks: in every state a client can reach, registering again, with whatever outcome, leaves open at most the
  current leaser and watcher, and deregistering leaves none open, also when it returns an error.\<close>

theorem registration_never_leaks:
  assumes "reachable cli_initial cli_step e"
  shows "open_leases (calls (snd (snd (Register cli ctx s e)))) \<subseteq> set_option (leaser (snd (snd (Register cli ctx s e))))
    \<and> open_watchers (calls (snd (snd (Register cli ctx s e)))) \<subseteq> set_option (watcher (snd (snd (Register cli ctx s e))))
    \<and> open_leases (calls (snd (DeRegister cli s e))) = {} \<and> open_watchers (calls (snd (DeRegister cli s e))) = {}"
proof -
  note ok = client.reachable_inv [OF assms]
  have "cli_ok (snd (snd (Register cli ctx s e)))" by (metis Register_ok ok prod.collapse)
  moreover note DeRegister_closes [OF ok, of cli s "fst (DeRegister cli s e)" "snd (DeRegister cli s e)"]
  ultimately show ?thesis by (simp add: cli_ok_def)
qed

definition answering :: etcd_client where
  "answering = \<lparr>lease_Close = (\<lambda>_. None), watcher_Close = (\<lambda>_. None), lease_Grant = (\<lambda>_. Inr 7), client_Put = (\<lambda>_ _ _. None),
     lease_KeepAlive = (\<lambda>_. None), client_Delete = (\<lambda>_. Some ''unavailable'')\<rparr>"

definition sample_service :: Service where
  "sample_service = \<lparr>s_Key = ''/shop/1'', s_Value = ''10.0.0.1:80'', s_TTL = None\<rparr>"

definition fresh_cli :: EtcdCli where
  "fresh_cli = \<lparr>ec_ctx = None, leaseID = 0, leaser = None, watcher = None, opened = 0, calls = []\<rparr>"

lemma fresh_cli_reachable: "reachable cli_initial cli_step fresh_cli"
proof (rule reach_init)
  have "NewEtcd (\<lambda>_. None) c = (Some fresh_cli, None)" for c by (simp add: NewEtcd_def fresh_cli_def)
  then show "cli_initial fresh_cli" unfolding cli_initial_def by blast
qed

theorem registration_never_leaks_witness:
  "open_leases (calls (snd (DeRegister answering sample_service (snd (snd (Register answering 1 sample_service fresh_cli)))))) = {}"
proof -
  have "reachable cli_initial cli_step (snd (snd (Register answering 1 sample_service fresh_cli)))"
    using reach_step [OF fresh_cli_reachable] register by (metis prod.collapse)
  from registration_never_leaks [OF this] show ?thesis by simp
qed

text \<open>A successful registration ends with a lease for the time to live in seconds, the key written under that lease, and
  the lease kept alive; a service without a time to live gets ten seconds.\<close>

lemma Register_writes_leased_key:
  assumes "Register cli ctx s e = (None, s', e')"
  shows "\<exists>i cs. lease_Grant cli (lease_seconds s') = Inr i \<and> leaseID e' = i \<and> ec_ctx e' = Some ctx
    \<and> calls e' = calls e @ cs @ [GrantLease (lease_seconds s'), PutKey (s_Key s) (s_Value s) i, KeepAlive i]
    \<and> (s_TTL s = None \<longrightarrow> lease_seconds s' = 10)"
proof -
  obtain err1 e1 where 1: "renew_leaser cli e = (err1, e1)" by fastforce
  obtain err2 e2 where 2: "renew_watcher cli e1 = (err2, e2)" by fastforce
  have "\<exists>cs. calls e1 = calls e @ cs" using 1 by (auto simp: renew_leaser_def Let_def split: option.splits)
  moreover have "\<exists>cs. calls e2 = calls e1 @ cs" using 2 by (auto simp: renew_watcher_def Let_def split: option.splits)
  ultimately obtain cs where cs: "calls e2 = calls e @ cs" by auto
  have "s_TTL s = None \<Longrightarrow> lease_seconds (with_TTL s) = 10"
    by (simp add: with_TTL_def lease_seconds_def NewTTLOption_def minHeartBeatTime_def sdiv_nonneg)
  then show ?thesis
    using assms cs by (auto simp: Register_def 1 2 Let_def with_TTL_def split: if_splits sum.splits option.splits)
qed

text \<open>The keys that were deleted; registering deletes none and keeps the key of the service.\<close>

definition deleted_keys :: "etcd_call list \<Rightarrow> string list" where
  "deleted_keys cs = List.map_filter (\<lambda>c. case c of DeleteKey k \<Rightarrow> Some k | _ \<Rightarrow> None) cs"

lemma deleted_keys_simps [simp]:
  "deleted_keys [] = []" "deleted_keys (cs @ ds) = deleted_keys cs @ deleted_keys ds"
  "deleted_keys (c # cs) = (case c of DeleteKey k \<Rightarrow> k # deleted_keys cs | _ \<Rightarrow> deleted_keys cs)"
  by (auto simp: deleted_keys_def map_filter_def split: etcd_call.split)

lemma Register_keeps_keys:
  assumes "Register cli ctx s e = (err, s', e')"
  shows "s_Key s' = s_Key s \<and> deleted_keys (calls e') = deleted_keys (calls e)"
proof -
  obtain err1 e1 where 1: "renew_leaser cli e = (err1, e1)" by fastforce
  obtain err2 e2 where 2: "renew_watcher cli e1 = (err2, e2)" by fastforce
  have "deleted_keys (calls e1) = deleted_keys (calls e)" using 1 by (auto simp: renew_leaser_def Let_def split: option.splits)
  moreover have "deleted_keys (calls e2) = deleted_keys (calls e1)" using 2 by (auto simp: renew_watcher_def Let_def split: option.splits)
  ultimately show ?thesis
    using assms by (auto simp: Register_def 1 2 Let_def with_TTL_def split: if_splits sum.splits option.splits)
qed

lemma DeRegister_deletes:
  "s_Key s \<noteq> [] \<Longrightarrow> deleted_keys (calls (snd (DeRegister cli s e))) = deleted_keys (calls e) @ [s_Key s]"
  by (simp add: DeRegister_def close_client_def Let_def split: option.split)

section \<open>The contract of a registry\<close>

text \<open>
  What a server relies on: registering and deregistering keep the registry sound, and after deregistering nothing is held any more.
\<close>

locale registry =
  fixes funcs :: "'st RegisterFunc"
    and sound :: "'st \<Rightarrow> bool"
    and holds :: "'st \<Rightarrow> bool"
  assumes register_sound: "sound st \<Longrightarrow> sound (snd (snd (rf_Register funcs ctx s st)))"
    and deregister_sound: "sound st \<Longrightarrow> sound (snd (rf_DeRegister funcs ctx s st))"
    and deregister_frees: "sound st \<Longrightarrow> \<not> holds (snd (rf_DeRegister funcs ctx s st))"
begin

lemma registered_then_freed:
  assumes "sound st"
  shows "\<not> holds (snd (Opts_DeRegister (fst (snd (Opts_Register (NewRegisterOpts s funcs) st))) (snd (snd (Opts_Register (NewRegisterOpts s funcs) st)))))"
proof -
  obtain err s1 st1 where r: "rf_Register funcs background s st = (err, s1, st1)" by (cases "rf_Register funcs background s st")
  with register_sound [OF assms, of background s] have "sound st1" by simp
  from deregister_frees [OF this] r show ?thesis by (simp add: Opts_Register_def Opts_DeRegister_def NewRegisterOpts_def)
qed

end

definition cli_holds :: "EtcdCli \<Rightarrow> bool" where
  "cli_holds e \<longleftrightarrow> open_leases (calls e) \<noteq> {} \<or> open_watchers (calls e) \<noteq> {}"

interpretation etcd: registry "etcd_registry cli" cli_ok cli_holds for cli
proof
  fix st ctx s
  assume ok: "cli_ok st"
  show "cli_ok (snd (snd (rf_Register (etcd_registry cli) ctx s st)))"
    using Register_ok [OF ok, of cli ctx s "fst (Register cli ctx s st)" "fst (snd (Register cli ctx s st))" "snd (snd (Register cli ctx s st))"]
    by (simp add: etcd_registry_def)
  show "cli_ok (snd (rf_DeRegister (etcd_registry cli) ctx s st))" "\<not> cli_holds (snd (rf_DeRegister (etcd_registry cli) ctx s st))"
    using DeRegister_closes [OF ok, of cli s "fst (DeRegister cli s st)" "snd (DeRegister cli s st)"]
    by (simp_all add: etcd_registry_def cli_holds_def)
qed

lemma SetServices_last: "sn_Services (SetServices k (ss @ [s]) n) = (sn_Services n)(k \<mapsto> s)"
proof -
  have "(sn_Services (fold (\<lambda>s n. n\<lparr>sn_Services := (sn_Services n)(k \<mapsto> s)\<rparr>) ss n))(k \<mapsto> t) = (sn_Services n)(k \<mapsto> t)" for t
    by (induction ss arbitrary: n) simp_all
  then show ?thesis by (simp add: SetServices_def)
qed

end
