(* ===== verification/Grace.thy ===== *)
theory Grace
  imports J7f_Prelude "HOL-Library.AList"
begin

text \<open>
  Graceful restart and shutdown (\<open>components/grace\<close>). The operating system, the listener behind a server and the registry are outside the
  package: their outcomes are the record \<open>grace_env\<close>, and the state keeps what was done to them, in order. The package
  variables are part of the state. The goroutine of the signal handler is a function of what it receives.
\<close>

section \<open>State\<close>

datatype signal = SIGHUP | SIGINT | SIGTERM | SIGKILL | OtherSignal nat

definition PreSignal :: int where "PreSignal = 0"
definition SufSignal :: int where "SufSignal = 1"

definition hookableSignals :: "signal list" where
  "hookableSignals = [SIGHUP, SIGINT, SIGTERM, SIGKILL]"

datatype act =
    SignalParent signal
  | StartServ
  | RunHook nat
  | Deregister
  | AfterFunc int
  | GracefulStop
  | ForkProcess string "string list" "nat option list"

text \<open>
  \<open>SignalHooks\<close> is a map of maps; a nil inner map is \<open>None\<close>. \<open>Registered\<close> says that the registration of the server is not nil. A listener in
  \<open>runningServers\<close> is its number.
\<close>

record grace =
  runing :: bool
  srv_isChild :: bool
  SignalHooks :: "(int \<times> (signal \<times> nat list) list option) list"
  Registered :: bool
  DefaultTimeout :: int
  runningServersForked :: bool
  runningServers :: "nat list"
  acts :: "act list"

record grace_env =
  FindParent :: "string option"
  SignalErr :: "string option"
  ServErr :: "string option"
  StopPanic :: "go_panic option"
  ListenerFile :: "nat \<Rightarrow> nat option"
  Args :: "string list"
  StartErr :: "string option"

abbreviation did :: "act \<Rightarrow> grace \<Rightarrow> grace" where
  "did a g \<equiv> g\<lparr>acts := acts g @ [a]\<rparr>"

text \<open>
  \<open>NewServer\<close> stores the server in a local map that shadows the package variable, which therefore stays the nil map it was; the hooks of the
  new server are nil as well.
\<close>

definition NewServer :: "bool \<Rightarrow> grace \<Rightarrow> grace" where
  "NewServer isChild g = g\<lparr>runing := False, srv_isChild := isChild, SignalHooks := [], Registered := False\<rparr>"

definition package_init :: grace where
  "package_init = \<lparr>runing = False, srv_isChild = False, SignalHooks = [], Registered = False, DefaultTimeout = 60 * 1000000000,
     runningServersForked = False, runningServers = [], acts = []\<rparr>"

section \<open>Shutting down\<close>

text \<open>A panic of the listener is turned into an error and raised again.\<close>

definition Close_server :: "grace_env \<Rightarrow> grace \<Rightarrow> grace go" where
  "Close_server env g = (case StopPanic env of Some p \<Rightarrow> Panic p | None \<Rightarrow> Ret (did GracefulStop g))"

definition shutClose :: "grace_env \<Rightarrow> grace \<Rightarrow> grace go" where
  "shutClose env g = Close_server env g"

definition shutdown :: "grace_env \<Rightarrow> grace \<Rightarrow> grace go" where
  "shutdown env g =
     (if \<not> runing g then Ret g
      else
        let g1 = g\<lparr>runing := False\<rparr>;
            g2 = (if Registered g1 then did Deregister g1 else g1)
        in if 0 < DefaultTimeout g2 then Ret (did (AfterFunc (DefaultTimeout g2)) g2) else shutClose env g2)"

section \<open>Forking\<close>

definition fork_args :: "string list \<Rightarrow> string list" where
  "fork_args rest = List.filter (\<lambda>arg. arg \<noteq> ''--graceful'') rest @ [''--graceful'']"

definition fork :: "grace_env \<Rightarrow> grace \<Rightarrow> (string option \<times> grace) go" where
  "fork env g =
     (if runningServersForked g then Ret (None, g)
      else
        let g1 = g\<lparr>runningServersForked := True\<rparr>;
            files = replicate (length (runningServers g1)) None @ map Some (List.map_filter (ListenerFile env) (runningServers g1))
        in go_bind (go_index (Args env) 0) (\<lambda>path.
             Ret (StartErr env, did (ForkProcess path (fork_args (tl (Args env))) files) g1)))"

section \<open>Signals\<close>

definition hooks_for :: "int \<Rightarrow> signal \<Rightarrow> grace \<Rightarrow> nat list option" where
  "hooks_for ppFlag sig g =
     (case map_of (SignalHooks g) ppFlag of Some (Some m) \<Rightarrow> map_of m sig | _ \<Rightarrow> None)"

definition signalHooks :: "int \<Rightarrow> signal \<Rightarrow> grace \<Rightarrow> grace" where
  "signalHooks ppFlag sig g = (case hooks_for ppFlag sig g of None \<Rightarrow> g | Some fs \<Rightarrow> fold (\<lambda>f. did (RunHook f)) fs g)"

text \<open>\<open>String\<close> is the text of a signal.\<close>

definition RegisterSignalHook :: "(signal \<Rightarrow> string) \<Rightarrow> int \<Rightarrow> signal \<Rightarrow> nat \<Rightarrow> grace \<Rightarrow> (string option \<times> grace) go" where
  "RegisterSignalHook String ppFlag sig f g =
     (if ppFlag \<noteq> PreSignal \<and> ppFlag \<noteq> SufSignal
      then Ret (Some ''invalid ppFlag argument. Must be either grace.PreSignal or grace.PostSignal'', g)
      else if sig \<in> set hookableSignals then
        (case map_of (SignalHooks g) ppFlag of
           Some (Some m) \<Rightarrow>
             let fs = (case map_of m sig of None \<Rightarrow> [] | Some fs \<Rightarrow> fs)
             in Ret (None, g\<lparr>SignalHooks := AList.update ppFlag (Some (AList.update sig (fs @ [f]) m)) (SignalHooks g)\<rparr>)
         | _ \<Rightarrow> Panic NilMapWrite)
      else Ret (Some (''signal '' @ [CHR 0x27] @ String sig @ [CHR 0x27] @ '' is not supported''), g))"

text \<open>One turn of the loop of \<open>handleSignals\<close> for a received signal. The error of \<open>fork\<close> is logged only.\<close>

definition handle_signal :: "grace_env \<Rightarrow> signal \<Rightarrow> grace \<Rightarrow> grace go" where
  "handle_signal env sig g =
     (let g1 = signalHooks PreSignal sig g in
      go_bind
        (case sig of
           SIGHUP \<Rightarrow> go_bind (fork env g1) (\<lambda>(err, g2). Ret g2)
         | SIGINT \<Rightarrow> shutdown env (g1\<lparr>DefaultTimeout := 0\<rparr>)
         | SIGTERM \<Rightarrow> shutdown env g1
         | SIGKILL \<Rightarrow> shutdown env (g1\<lparr>DefaultTimeout := 0\<rparr>)
         | OtherSignal _ \<Rightarrow> Ret g1)
        (\<lambda>g2. Ret (signalHooks SufSignal sig g2)))"

text \<open>
  What happens while the handler waits: a signal arrives, or the serving goroutine returns and clears \<open>runing\<close>. A handler that is waiting sees the latter
  only after its next signal.
\<close>

datatype grace_input = Received signal | ServeReturned

fun wait_signal :: "grace_env \<Rightarrow> grace_input list \<Rightarrow> grace \<Rightarrow> grace go" where
  "wait_signal env [] g = Ret g"
| "wait_signal env (ServeReturned # ins) g = wait_signal env ins (g\<lparr>runing := False\<rparr>)"
| "wait_signal env (Received sig # ins) g =
     go_bind (handle_signal env sig g) (\<lambda>g1. if runing g1 then wait_signal env ins g1 else Ret g1)"

definition handleSignals :: "grace_env \<Rightarrow> grace_input list \<Rightarrow> grace \<Rightarrow> grace go" where
  "handleSignals env ins g = (if runing g then wait_signal env ins g else Ret g)"

definition Serve :: "grace_env \<Rightarrow> grace \<Rightarrow> string option \<times> grace" where
  "Serve env g = (ServErr env, (did StartServ g)\<lparr>runing := False\<rparr>)"

text \<open>The part of \<open>ListenAndServe\<close> before it serves: the error it returns, if any, and whether it goes on to serve.\<close>

definition ListenAndServe :: "grace_env \<Rightarrow> grace \<Rightarrow> string option \<times> grace" where
  "ListenAndServe env g =
     (let g1 = g\<lparr>runing := True\<rparr> in
      if srv_isChild g1 then
        (case FindParent env of
           Some err \<Rightarrow> (Some err, g1)
         | None \<Rightarrow>
             let g2 = did (SignalParent SIGTERM) g1 in
             (case SignalErr env of Some err \<Rightarrow> (Some err, g2) | None \<Rightarrow> Serve env g2))
      else Serve env g1)"

section \<open>Stopping\<close>

definition terminating :: "signal \<Rightarrow> bool" where
  "terminating sig \<longleftrightarrow> sig \<in> {SIGINT, SIGTERM, SIGKILL}"

fun is_stop :: "act \<Rightarrow> bool" where
  "is_stop Deregister = True"
| "is_stop (AfterFunc d) = True"
| "is_stop GracefulStop = True"
| "is_stop _ = False"

fun is_fork :: "act \<Rightarrow> bool" where
  "is_fork (ForkProcess path args files) = True"
| "is_fork _ = False"

abbreviation stops :: "grace \<Rightarrow> act list" where
  "stops g \<equiv> List.filter is_stop (acts g)"

abbreviation forks :: "grace \<Rightarrow> act list" where
  "forks g \<equiv> List.filter is_fork (acts g)"

text \<open>Running hooks changes neither of them, and no other part of the state.\<close>

lemma signalHooks_frame [simp]:
  "runing (signalHooks p sig g) = runing g" "Registered (signalHooks p sig g) = Registered g"
  "DefaultTimeout (signalHooks p sig g) = DefaultTimeout g" "runningServers (signalHooks p sig g) = runningServers g"
  "runningServersForked (signalHooks p sig g) = runningServersForked g"
  "stops (signalHooks p sig g) = stops g" "forks (signalHooks p sig g) = forks g"
proof -
  have "runing (fold (\<lambda>f. did (RunHook f)) fs g) = runing g \<and> Registered (fold (\<lambda>f. did (RunHook f)) fs g) = Registered g
    \<and> DefaultTimeout (fold (\<lambda>f. did (RunHook f)) fs g) = DefaultTimeout g
    \<and> runningServers (fold (\<lambda>f. did (RunHook f)) fs g) = runningServers g
    \<and> runningServersForked (fold (\<lambda>f. did (RunHook f)) fs g) = runningServersForked g
    \<and> stops (fold (\<lambda>f. did (RunHook f)) fs g) = stops g \<and> forks (fold (\<lambda>f. did (RunHook f)) fs g) = forks g" for fs g
    by (induction fs arbitrary: g) simp_all
  then show "runing (signalHooks p sig g) = runing g" "Registered (signalHooks p sig g) = Registered g"
    "DefaultTimeout (signalHooks p sig g) = DefaultTimeout g" "runningServers (signalHooks p sig g) = runningServers g"
    "runningServersForked (signalHooks p sig g) = runningServersForked g"
    "stops (signalHooks p sig g) = stops g" "forks (signalHooks p sig g) = forks g"
    by (simp_all add: signalHooks_def split: option.split)
qed

lemma handle_other:
  assumes "\<not> terminating sig" and "Args env \<noteq> []"
  shows "\<exists>g'. handle_signal env sig g = Ret g' \<and> runing g' = runing g \<and> Registered g' = Registered g
    \<and> DefaultTimeout g' = DefaultTimeout g \<and> stops g' = stops g"
  using assms by (cases sig) (auto simp: terminating_def handle_signal_def fork_def go_index_def Let_def)

lemma handle_terminating:
  assumes "terminating sig" and "runing g" and "StopPanic env = None"
  shows "\<exists>g'. handle_signal env sig g = Ret g' \<and> \<not> runing g'
    \<and> stops g' = stops g @ (if Registered g then [Deregister] else [])
        @ [if sig = SIGTERM \<and> 0 < DefaultTimeout g then AfterFunc (DefaultTimeout g) else GracefulStop]"
  using assms by (cases sig) (simp_all add: terminating_def handle_signal_def shutdown_def shutClose_def Close_server_def Let_def)

lemma stops_on_first_signal:
  assumes "runing g" and "StopPanic env = None" and "Args env \<noteq> []"
    and "\<forall>s \<in> set pre. \<not> terminating s" and "terminating sig"
  shows "\<exists>g'. handleSignals env (map Received (pre @ sig # post)) g = Ret g' \<and> \<not> runing g'
    \<and> stops g' = stops g @ (if Registered g then [Deregister] else [])
        @ [if sig = SIGTERM \<and> 0 < DefaultTimeout g then AfterFunc (DefaultTimeout g) else GracefulStop]"
  using assms(1,4)
proof (induction pre arbitrary: g)
  case Nil
  with handle_terminating [OF assms(5) _ assms(2)] show ?case by (force simp: handleSignals_def)
next
  case (Cons s pre)
  then obtain h where "handle_signal env s g = Ret h" "runing h = runing g" "Registered h = Registered g"
    "DefaultTimeout h = DefaultTimeout g" "stops h = stops g" using handle_other [OF _ assms(3), of s g] by auto
  with Cons.IH [of h] Cons.prems show ?case by (simp add: handleSignals_def cong: if_cong split del: if_split)
qed

section \<open>Forking\<close>

lemma handle_forks:
  assumes "handle_signal env sig g = Ret g'"
  shows "runningServers g' = runningServers g \<and> (runningServersForked g \<longrightarrow> runningServersForked g' \<and> forks g' = forks g)
    \<and> (\<not> runningServersForked g' \<longrightarrow> forks g' = forks g)
    \<and> (forks g' = forks g \<or> forks g' = forks g @ [ForkProcess (hd (Args env)) (fork_args (tl (Args env)))
         (replicate (length (runningServers g)) None @ map Some (List.map_filter (ListenerFile env) (runningServers g)))])"
  using assms
  by (cases sig)
    (auto simp: handle_signal_def shutdown_def shutClose_def Close_server_def fork_def Let_def go_index_Ret_iff hd_conv_nth
      split: if_splits option.splits)

lemma wait_forks:
  "wait_signal env ins g = Ret g' \<Longrightarrow>
     (runningServersForked g \<longrightarrow> forks g' = forks g)
     \<and> (forks g' = forks g \<or> forks g' = forks g @ [ForkProcess (hd (Args env)) (fork_args (tl (Args env)))
         (replicate (length (runningServers g)) None @ map Some (List.map_filter (ListenerFile env) (runningServers g)))])"
proof (induction env ins g rule: wait_signal.induct)
  case (2 env ins g)
  then show ?case by simp
next
  case (3 env sig ins g)
  then obtain h where h: "handle_signal env sig g = Ret h" "(if runing h then wait_signal env ins h else Ret h) = Ret g'" by auto
  note hf = handle_forks [OF h(1)]
  show ?case
  proof (cases "runing h")
    case True
    with "3.IH" [OF h(1)] h(2) hf show ?thesis by auto
  next
    case False
    with h(2) hf show ?thesis by auto
  qed
qed simp

text \<open>C32: among the signals a running server receives, the first one that ends it stops it exactly once: a registered server is deregistered
  first, and then stopped, at once for an interrupt or a kill and after the timeout for a termination. Signals before it change nothing of
  this, and signals after it are not handled any more. The process forks at most once.\<close>

theorem signals_stop_once:
  assumes "runing g" and "StopPanic env = None" and "Args env \<noteq> []"
    and "\<forall>s \<in> set pre. \<not> terminating s" and "terminating sig"
  shows "\<exists>g'. handleSignals env (map Received (pre @ sig # post)) g = Ret g' \<and> \<not> runing g'
    \<and> stops g' = stops g @ (if Registered g then [Deregister] else [])
        @ [if sig = SIGTERM \<and> 0 < DefaultTimeout g then AfterFunc (DefaultTimeout g) else GracefulStop]
    \<and> (forks g' = forks g \<or> (\<exists>files. forks g' = forks g @ [ForkProcess (hd (Args env)) (fork_args (tl (Args env))) files]))"
proof -
  obtain g' where g': "handleSignals env (map Received (pre @ sig # post)) g = Ret g'" "\<not> runing g'"
    and st: "stops g' = stops g @ (if Registered g then [Deregister] else [])
        @ [if sig = SIGTERM \<and> 0 < DefaultTimeout g then AfterFunc (DefaultTimeout g) else GracefulStop]"
    using stops_on_first_signal [OF assms] by blast
  from g'(1) have "wait_signal env (map Received (pre @ sig # post)) g = Ret g'" using assms(1) by (simp add: handleSignals_def)
  with wait_forks [OF this] g' st show ?thesis by blast
qed

definition quiet_env :: grace_env where
  "quiet_env = \<lparr>FindParent = None, SignalErr = None, ServErr = None, StopPanic = None, ListenerFile = Some, Args = [''app'', ''--graceful'', ''-v''],
     StartErr = None\<rparr>"

definition serving :: grace where
  "serving = (NewServer False package_init)\<lparr>runing := True, Registered := True\<rparr>"

theorem signals_stop_once_witness:
  "\<exists>g'. handleSignals quiet_env (map Received ([SIGHUP, OtherSignal 12] @ SIGTERM # [SIGINT])) serving = Ret g'
    \<and> stops g' = [Deregister, AfterFunc 60000000000]"
  using signals_stop_once [of serving quiet_env "[SIGHUP, OtherSignal 12]" SIGTERM "[SIGINT]"]
  by (simp add: serving_def quiet_env_def NewServer_def package_init_def terminating_def) blast

text \<open>A server forks at most once, whatever it receives. The new process gets the arguments of the old one without the flag for a child, and
  that flag at the end. Its list of files is empty: the servers of the package are never recorded, so no listening socket is
  handed over.\<close>

lemma forks_once_without_sockets:
  assumes "runing g" and "runningServers g = runningServers (NewServer c package_init)" and "forks g = []"
    and "handleSignals env ins g = Ret g'"
  shows "forks g' = [] \<or> forks g' = [ForkProcess (hd (Args env)) (List.filter (\<lambda>a. a \<noteq> ''--graceful'') (tl (Args env)) @ [''--graceful'']) []]"
  using wait_forks [of env ins g g'] assms
  by (auto simp: handleSignals_def NewServer_def package_init_def fork_args_def map_filter_simps)

text \<open>A hook for a signal cannot be registered on a new server: for a supported signal the call writes to a nil map and panics, and for any other
  signal it returns an error.\<close>

lemma RegisterSignalHook_panics:
  "RegisterSignalHook String (if pre then PreSignal else SufSignal) sig f (NewServer c g) =
     (if sig \<in> set hookableSignals then Panic NilMapWrite else Ret (Some (''signal '' @ [CHR 0x27] @ String sig @ [CHR 0x27] @ '' is not supported''), NewServer c g))"
  by (simp add: RegisterSignalHook_def NewServer_def)

end
