(* ===== verification/Grpc_Stream.thy ===== *)
theory Grpc_Stream
  imports J7f_Errors
begin

text \<open>
  The wrapped streams of gRPC: the server side (\<open>components/grpc/server/grpc.go\<close>), which limits the time of a request and carries
  its trace id into the reply, the client side (\<open>components/grpc/client/grpc.go\<close>), and the interceptors of the server (\<open>components/grpc/interceptor\<close>). The streams of the library that they wrap are outside the
  program: a call is given the outcome of the wrapped call.
\<close>

section \<open>Messages and metadata\<close>

text \<open>
  A request has the trace id of its header if it implements \<open>RequestTrace\<close>; a reply has a status if it implements \<open>ResponseStatus\<close>, which may be nil and
  otherwise holds a trace id. Metadata is a map that the contexts of a stream share or not (\<open>shared\<close>), depending on whether the
  library returns its own map or a copy.
\<close>

type_synonym metadata = "string \<rightharpoonup> string list"

datatype request = Request (req_trace: "string option") (req_body: string)

datatype reply = Reply (rep_status: "string option option") (rep_body: string)

record GrpcStream =
  gs_ctx :: "metadata option"
  gs_parent :: "metadata option"
  gs_done :: "nat option"
  gs_chans :: "nat list"
  gs_spawned :: nat
  gs_waiting :: "nat list"
  gs_sent :: "reply list"

text \<open>
  The channel \<open>processingDone\<close> is nil until the first request; every request makes a new one with room for one entry, and spawns a goroutine that
  waits for one entry. The goroutine reads the field when it gets to its \<open>select\<close>, so it waits on the channel that is the current one then: \<open>gs_spawned\<close> counts
  the goroutines that are not there yet, and \<open>gs_waiting\<close> lists the channels of those that are. \<open>gs_chans\<close> counts the entries of the channels made so far.
\<close>

definition DEFAULT_RATE_LIMIT :: int where
  "DEFAULT_RATE_LIMIT = 1000"

definition per_request :: "int \<Rightarrow> int" where
  "per_request n = (if n = 0 then DEFAULT_RATE_LIMIT else n)"

definition NewStream_server :: "metadata option \<Rightarrow> GrpcStream" where
  "NewStream_server ctx =
     \<lparr>gs_ctx = ctx, gs_parent = ctx, gs_done = None, gs_chans = [], gs_spawned = 0, gs_waiting = [], gs_sent = []\<rparr>"

section \<open>The server side\<close>

definition trace_reply :: "metadata option \<Rightarrow> reply \<Rightarrow> reply go" where
  "trace_reply ctx m =
     (case (rep_status m, ctx) of
        (Some st, Some md) \<Rightarrow>
          (case md ''trace_id'' of
             None \<Rightarrow> Ret m
           | Some ids \<Rightarrow>
               (case st of
                  None \<Rightarrow> Panic NilDereference
                | Some _ \<Rightarrow> go_bind (go_index ids 0) (\<lambda>t. Ret (Reply (Some (Some t)) (rep_body m)))))
      | _ \<Rightarrow> Ret m)"

text \<open>Sending blocks on a nil channel and on a channel that is full; then the result is \<open>None\<close>.\<close>

definition SendMsg :: "string option \<Rightarrow> reply \<Rightarrow> GrpcStream \<Rightarrow> (string option \<times> GrpcStream) option go" where
  "SendMsg err m s =
     (case gs_done s of
        None \<Rightarrow> Ret None
      | Some c \<Rightarrow>
          if gs_chans s ! c = 0 then
            go_bind (trace_reply (gs_ctx s) m) (\<lambda>m'.
              Ret (Some (err, s\<lparr>gs_chans := (gs_chans s)[c := 1], gs_ctx := gs_parent s, gs_sent := gs_sent s @ [m']\<rparr>)))
          else Ret None)"

definition RecvMsg :: "bool \<Rightarrow> string + request \<Rightarrow> GrpcStream \<Rightarrow> string option \<times> GrpcStream" where
  "RecvMsg shared msg s =
     (case msg of
        Inl err \<Rightarrow> (Some err, s)
      | Inr m \<Rightarrow>
          let s1 = s\<lparr>gs_ctx := gs_parent s\<rparr>;
              s2 = (case (req_trace m, gs_ctx s1) of
                      (Some t, Some md) \<Rightarrow>
                        let md' = md(''trace_id'' \<mapsto> [t])
                        in s1\<lparr>gs_ctx := Some md', gs_parent := (if shared then Some md' else gs_parent s1)\<rparr>
                    | _ \<Rightarrow> s1);
              c = length (gs_chans s2)
          in (None, s2\<lparr>gs_done := Some c, gs_chans := gs_chans s2 @ [0], gs_spawned := Suc (gs_spawned s2)\<rparr>))"

text \<open>The goroutine of a request: it gets to its \<open>select\<close>; then an entry of its channel arrives, or the time is up.\<close>

definition start_select :: "GrpcStream \<Rightarrow> GrpcStream option" where
  "start_select s =
     (case (gs_spawned s, gs_done s) of
        (Suc n, Some c) \<Rightarrow> Some (s\<lparr>gs_spawned := n, gs_waiting := gs_waiting s @ [c]\<rparr>)
      | _ \<Rightarrow> None)"

definition take_done :: "nat \<Rightarrow> GrpcStream \<Rightarrow> GrpcStream option" where
  "take_done c s =
     (if c \<in> set (gs_waiting s) \<and> gs_chans s ! c = 1
      then Some (s\<lparr>gs_chans := (gs_chans s)[c := 0], gs_waiting := remove1 c (gs_waiting s)\<rparr>) else None)"

definition CommonError_PROCESSING_TIMEOUT :: code_arg where
  "CommonError_PROCESSING_TIMEOUT = CommonError 10001"

definition timeout_branch :: "int list \<Rightarrow> string option \<Rightarrow> GrpcStream \<Rightarrow> (string option \<times> GrpcStream) option go" where
  "timeout_branch trace err s =
     go_bind (NewFromCode trace CommonError_PROCESSING_TIMEOUT) (\<lambda>e.
       let t = Reply (Some (Some [])) (bs_Msg (GetResHeader (Some e))) in SendMsg err t s)"

section \<open>The client side\<close>

text \<open>
  \<open>pending\<close> are the outcomes of the wrapped \<open>RecvMsg\<close>, in order. The method receives into the same message twice and returns the
  second outcome; it waits when there is none (\<open>None\<close>).
\<close>

record clientStream =
  cs_ctx :: "metadata option"
  pending :: "(string + request) list"

definition client_trace :: "request \<Rightarrow> metadata option \<Rightarrow> metadata option" where
  "client_trace m ctx =
     (case (req_trace m, ctx) of (Some t, Some md) \<Rightarrow> Some (md(''trace_id'' \<mapsto> [t])) | _ \<Rightarrow> ctx)"

definition client_RecvMsg :: "clientStream \<Rightarrow> ((string + request) \<times> clientStream) option" where
  "client_RecvMsg cs =
     (case pending cs of
        [] \<Rightarrow> None
      | Inl err # rest \<Rightarrow> Some (Inl err, cs\<lparr>pending := rest\<rparr>)
      | Inr m # [] \<Rightarrow> None
      | Inr m # r # rest \<Rightarrow> Some (r, cs\<lparr>cs_ctx := client_trace m (cs_ctx cs), pending := rest\<rparr>))"

definition client_SendMsg :: "string option \<Rightarrow> reply \<Rightarrow> clientStream \<Rightarrow> (string option \<times> reply) go" where
  "client_SendMsg err m cs = go_bind (trace_reply (cs_ctx cs) m) (\<lambda>m'. Ret (err, m'))"

section \<open>Interceptors\<close>

text \<open>
  \<open>FromError\<close> is what the status package makes of an error, and the error it makes of that status again, which is nil for the code of success.
\<close>

definition UnaryServerErrorInterceptor :: "(err \<Rightarrow> string option) \<Rightarrow> ('q \<Rightarrow> 'r option \<times> err option) \<Rightarrow> 'q \<Rightarrow> 'r option \<times> string option" where
  "UnaryServerErrorInterceptor FromError handler req =
     (case handler req of (res, Some e) \<Rightarrow> (None, FromError e) | (res, None) \<Rightarrow> (res, None))"

definition StreamServerErrorInterceptor :: "(err \<Rightarrow> string option) \<Rightarrow> ('s \<Rightarrow> err option) \<Rightarrow> 's \<Rightarrow> string option" where
  "StreamServerErrorInterceptor FromError handler stream = (case handler stream of Some e \<Rightarrow> FromError e | None \<Rightarrow> None)"

definition StreamServerTraceInterceptor :: "(GrpcStream \<Rightarrow> err option) \<Rightarrow> metadata option \<Rightarrow> err option" where
  "StreamServerTraceInterceptor handler ctx = handler (NewStream_server ctx)"

text \<open>An error of a handler is never answered together with a result, and it is lost exactly when its status is that of success.\<close>

lemma interceptor_errors:
  "handler req = (res, Some e) \<Longrightarrow> UnaryServerErrorInterceptor FromError handler req = (None, FromError e)"
  "handler req = (res, None) \<Longrightarrow> UnaryServerErrorInterceptor FromError handler req = (res, None)"
  by (simp_all add: UnaryServerErrorInterceptor_def)

section \<open>How many replies a request may have\<close>

text \<open>A run of a stream: the requests, the replies and the moves of the goroutines, in order; \<open>None\<close> when an operation has to wait.\<close>

datatype stream_op = OpRecv request | OpSend reply | OpStart | OpTake nat

definition stream_op :: "bool \<Rightarrow> stream_op \<Rightarrow> GrpcStream \<Rightarrow> GrpcStream option go" where
  "stream_op shared opn s =
     (case opn of
        OpRecv m \<Rightarrow> Ret (Some (snd (RecvMsg shared (Inr m) s)))
      | OpSend m \<Rightarrow> go_bind (SendMsg None m s) (\<lambda>r. Ret (map_option snd r))
      | OpStart \<Rightarrow> Ret (start_select s)
      | OpTake c \<Rightarrow> Ret (take_done c s))"

fun stream_run :: "bool \<Rightarrow> stream_op list \<Rightarrow> GrpcStream \<Rightarrow> GrpcStream option go" where
  "stream_run shared [] s = Ret (Some s)"
| "stream_run shared (opn # ops) s =
     go_bind (stream_op shared opn s) (\<lambda>r. case r of None \<Rightarrow> Ret None | Some s' \<Rightarrow> stream_run shared ops s')"

definition is_send :: "stream_op \<Rightarrow> bool" where
  "is_send opn = (case opn of OpSend _ \<Rightarrow> True | _ \<Rightarrow> False)"

definition is_recv :: "stream_op \<Rightarrow> bool" where
  "is_recv opn = (case opn of OpRecv _ \<Rightarrow> True | _ \<Rightarrow> False)"

text \<open>How many more replies fit: the free place in the channel, the goroutines that wait for it, and those that will.\<close>

definition room :: "GrpcStream \<Rightarrow> nat" where
  "room s = (case gs_done s of None \<Rightarrow> 0 | Some c \<Rightarrow> (if gs_chans s ! c = 0 then 1 else 0) + count_list (gs_waiting s) c + gs_spawned s)"

definition stream_ok :: "GrpcStream \<Rightarrow> bool" where
  "stream_ok s \<longleftrightarrow> (\<forall>c \<in> set (gs_waiting s). c < length (gs_chans s)) \<and> (\<forall>c \<in> set_option (gs_done s). c < length (gs_chans s))"

lemma count_list_remove1: "count_list (remove1 x xs) y = count_list xs y - (if x = y \<and> x \<in> set xs then 1 else 0)"
  by (induction xs) (auto simp: count_list_0_iff)

lemma stream_op_room:
  assumes "stream_ok s" and "stream_op shared opn s = Ret (Some s')" and "\<not> is_recv opn"
  shows "stream_ok s' \<and> room s = room s' + (if is_send opn then 1 else 0)"
proof (cases opn)
  case (OpTake c)
  with assms have c: "c \<in> set (gs_waiting s)" "gs_chans s ! c = 1" "c < length (gs_chans s)"
    and s': "s' = s\<lparr>gs_chans := (gs_chans s)[c := 0], gs_waiting := remove1 c (gs_waiting s)\<rparr>"
    by (auto simp: stream_op_def take_done_def stream_ok_def split: if_splits)
  have "0 < count_list (gs_waiting s) c" using c(1) by (metis count_list_0_iff gr0I)
  with c assms(1) show ?thesis
    by (auto simp: s' OpTake is_send_def room_def stream_ok_def count_list_remove1 nth_list_update dest: notin_set_remove1 split: option.splits)
next
  case OpStart
  with assms show ?thesis
    by (auto simp: stream_op_def start_select_def is_send_def room_def stream_ok_def split: nat.splits option.splits)
next
  case (OpSend m)
  with assms show ?thesis
    by (auto simp: stream_op_def SendMsg_def is_send_def room_def stream_ok_def split: option.splits if_splits)
qed (use assms in \<open>simp add: is_recv_def\<close>)

lemma stream_run_room:
  "stream_run shared ops s = Ret (Some s') \<Longrightarrow> stream_ok s \<Longrightarrow> \<forall>opn \<in> set ops. \<not> is_recv opn
   \<Longrightarrow> length (List.filter is_send ops) \<le> room s"
proof (induction ops arbitrary: s)
  case (Cons opn ops)
  then obtain t where t: "stream_op shared opn s = Ret (Some t)" "stream_run shared ops t = Ret (Some s')"
    by (auto split: option.splits)
  with stream_op_room [OF Cons.prems(2) t(1)] Cons show ?case by fastforce
qed simp

lemma RecvMsg_room:
  assumes "stream_ok s"
  shows "stream_ok (snd (RecvMsg shared (Inr m) s)) \<and> room (snd (RecvMsg shared (Inr m) s)) = 2 + gs_spawned s"
proof -
  have "count_list (gs_waiting s) (length (gs_chans s)) = 0"
    using assms by (auto simp: stream_ok_def count_list_0_iff)
  then show ?thesis
    using assms by (auto simp: RecvMsg_def Let_def stream_ok_def room_def nth_append intro: less_SucI split: option.split)
qed

lemma stream_op_ok: "stream_ok s \<Longrightarrow> stream_op shared opn s = Ret (Some s') \<Longrightarrow> stream_ok s'"
  using stream_op_room [of s shared opn s'] RecvMsg_room [of s shared]
  by (cases opn) (auto simp: is_recv_def stream_op_def)

lemma stream_run_ok: "stream_run shared ops s = Ret (Some s') \<Longrightarrow> stream_ok s \<Longrightarrow> stream_ok s'"
proof (induction ops arbitrary: s)
  case (Cons opn ops)
  then show ?case using stream_op_ok by (fastforce split: option.splits)
qed simp

lemma NewStream_ok: "stream_ok (NewStream_server ctx)"
  by (simp add: stream_ok_def NewStream_server_def)

text \<open>C34: at most two replies can be sent for a request, however the handler and the goroutines interleave, if the goroutines of the earlier requests have got to their
  \<open>select\<close>: a third one blocks for ever, since the goroutine takes one entry of the channel and the channel has room for one. Each goroutine that is late takes
  an entry that was not meant for it and makes room for one more. Before the first request no reply can be sent at all.\<close>

theorem two_replies_per_request:
  assumes "stream_run shared before (NewStream_server ctx) = Ret (Some s)"
    and "stream_run shared (OpRecv m # ops) s = Ret (Some s')" and "\<forall>opn \<in> set ops. \<not> is_recv opn"
  shows "length (List.filter is_send ops) \<le> 2 + gs_spawned s \<and> SendMsg err r (NewStream_server ctx) = Ret None"
proof -
  note ok = RecvMsg_room [OF stream_run_ok [OF assms(1) NewStream_ok], of shared m]
  have "stream_run shared ops (snd (RecvMsg shared (Inr m) s)) = Ret (Some s')" using assms(2) by (simp add: stream_op_def)
  from stream_run_room [OF this _ assms(3)] ok show ?thesis by (simp add: SendMsg_def NewStream_server_def)
qed

theorem two_replies_per_request_witness:
  "\<exists>s'. stream_run True [OpRecv (Request None ''q''), OpStart, OpSend (Reply None ''a''), OpTake 0, OpSend (Reply None ''b'')]
      (NewStream_server None) = Ret (Some s')
    \<and> length (List.filter is_send [OpStart, OpSend (Reply None ''a''), OpTake 0, OpSend (Reply None ''b'')]) \<le> 2"
proof -
  obtain s' where s': "stream_run True [OpRecv (Request None ''q''), OpStart, OpSend (Reply None ''a''), OpTake 0, OpSend (Reply None ''b'')]
      (NewStream_server None) = Ret (Some s')"
    by (simp add: stream_op_def RecvMsg_def SendMsg_def start_select_def take_done_def trace_reply_def NewStream_server_def)
  have "length (List.filter is_send [OpStart, OpSend (Reply None ''a''), OpTake 0, OpSend (Reply None ''b'')]) \<le> 2"
    using two_replies_per_request [of True "[]" None "NewStream_server None", OF _ s'] by (simp add: is_recv_def NewStream_server_def)
  with s' show ?thesis by blast
qed

text \<open>When the handler has the metadata of a call, the reply to a request carries the trace id of that request.\<close>

lemma reply_carries_trace:
  assumes "gs_parent s = Some md"
  shows "\<exists>s'. SendMsg err (Reply (Some (Some old)) body) (snd (RecvMsg shared (Inr (Request (Some t) q)) s)) = Ret (Some (err, s'))
    \<and> gs_sent s' = gs_sent s @ [Reply (Some (Some t)) body]"
  using assms by (simp add: RecvMsg_def SendMsg_def trace_reply_def go_index_def Let_def nth_append)

text \<open>A request that takes too long ends the process instead of sending the timeout reply: the code of the error has no text, and making an
  error from it panics in a goroutine of its own.\<close>

lemma timeout_panics: "timeout_branch trace err s = Panic TypeAssertion"
  by (simp add: timeout_branch_def CommonError_PROCESSING_TIMEOUT_def CommonError_def NewFromCode_def)

section \<open>Every second message\<close>

text \<open>All messages a client gets until an error or until it waits.\<close>

function client_receives :: "clientStream \<Rightarrow> request list" where
  "client_receives cs =
     (case client_RecvMsg cs of Some (Inr m, cs') \<Rightarrow> m # client_receives cs' | _ \<Rightarrow> [])"
  by pat_completeness auto
termination
  by (relation "measure (\<lambda>cs. length (pending cs))") (auto simp: client_RecvMsg_def split: list.splits sum.splits)

declare client_receives.simps [simp del]

text \<open>C35: the client sees every second message of a stream: of the messages that arrive before the end of the stream, it gets those at odd
  positions, and the others are overwritten.\<close>

theorem client_skips_messages:
  "client_receives \<lparr>cs_ctx = ctx, pending = map Inr ms @ [Inl e]\<rparr> = map (\<lambda>i. ms ! (2 * i + 1)) [0..<length ms div 2]"
proof (induction ms arbitrary: ctx rule: induct_list012)
  case 1
  show ?case by (subst client_receives.simps) (simp add: client_RecvMsg_def)
next
  case (2 m)
  show ?case by (subst client_receives.simps) (simp add: client_RecvMsg_def)
next
  case (3 m m' ms)
  show ?case
    by (subst client_receives.simps)
      (simp add: client_RecvMsg_def 3 upt_conv_Cons map_Suc_upt [symmetric] del: upt_Suc)
qed

end
