(* ===== verification/Grpc_Client.thy ===== *)
theory Grpc_Client
  imports J7f_Prelude "HOL-Library.AList"
begin

text \<open>
  The gRPC client (\<open>components/grpc/client/client.go\<close>): the cache of connections by address, dialling with the options collected so far, and the level at which
  the outcome of a call is logged (\<open>components/grpc/client/grpc.go\<close>). Files, certificates, dialling and the state of a connection
  are outside the program and parameters here; a connection is a number.
\<close>

section \<open>Connections\<close>

datatype conn_state = StateIdle | Connecting | Ready | TransientFailure | Shutdown

definition checkConnStatus :: "(nat \<Rightarrow> conn_state) \<Rightarrow> nat \<Rightarrow> bool" where
  "checkConnStatus GetState conn = (case GetState conn of TransientFailure \<Rightarrow> False | Shutdown \<Rightarrow> False | _ \<Rightarrow> True)"

record tls_config =
  RootCAs :: "string option"
  Certificates :: "string list"

datatype dial_option = Insecure | TransportCredentials tls_config | StreamClientOption nat | UnaryClientOption nat | DialOther nat

record GrpcClient =
  gc_serviceName :: string
  gc_addr :: string
  gc_timeout :: int
  gc_opts :: "dial_option list"
  gc_Conn :: "nat option"
  gc_Ctx :: "int option"

record dial_env =
  GetState :: "nat \<Rightarrow> conn_state"
  ReadFile :: "string \<Rightarrow> string + string"
  AppendCertsFromPEM :: "string \<Rightarrow> bool"
  LoadX509KeyPair :: "string \<Rightarrow> string \<Rightarrow> string + string"
  DialContext :: "string \<Rightarrow> dial_option list \<Rightarrow> string + nat"

definition NewGrpcClient :: "string \<Rightarrow> int \<Rightarrow> dial_option list \<Rightarrow> GrpcClient" where
  "NewGrpcClient serviceName timeOut options =
     \<lparr>gc_serviceName = serviceName, gc_addr = [], gc_timeout = timeOut, gc_opts = fold (\<lambda>x opts. opts @ [x]) options [],
      gc_Conn = None, gc_Ctx = None\<rparr>"

definition RegisterStreamClient :: "nat \<Rightarrow> GrpcClient \<Rightarrow> GrpcClient" where
  "RegisterStreamClient f c = c\<lparr>gc_opts := gc_opts c @ [StreamClientOption f]\<rparr>"

definition RegisterUnaryClient :: "nat \<Rightarrow> GrpcClient \<Rightarrow> GrpcClient" where
  "RegisterUnaryClient f c = c\<lparr>gc_opts := gc_opts c @ [UnaryClientOption f]\<rparr>"

text \<open>
  The options that the choice of transport adds, or an early return with an error that may be nil: when a certificate file has no certificate, the error
  returned is the nil error of reading it.
\<close>

definition root_cas :: "dial_env \<Rightarrow> string \<Rightarrow> string option + tls_config" where
  "root_cas env cacert =
     (if cacert \<noteq> [] then
        (case ReadFile env cacert of
           Inl err \<Rightarrow> Inl (Some err)
         | Inr b \<Rightarrow> if \<not> AppendCertsFromPEM env b then Inl None else Inr \<lparr>RootCAs = Some b, Certificates = []\<rparr>)
      else Inr \<lparr>RootCAs = None, Certificates = []\<rparr>)"

definition transport :: "dial_env \<Rightarrow> bool \<Rightarrow> string \<Rightarrow> string \<Rightarrow> string \<Rightarrow> string option + dial_option list" where
  "transport env useTLS cacert cert certKey =
     (if \<not> useTLS then Inr [Insecure]
      else
        (case root_cas env cacert of
           Inl err \<Rightarrow> Inl err
         | Inr tlsCfg \<Rightarrow>
             if cert \<noteq> [] \<and> certKey \<noteq> [] then
               (case LoadX509KeyPair env cert certKey of
                  Inl err \<Rightarrow> Inl (Some err)
                | Inr certificate \<Rightarrow>
                    let cfg = tlsCfg\<lparr>Certificates := Certificates tlsCfg @ [certificate]\<rparr>
                    in Inr [TransportCredentials cfg, TransportCredentials cfg])
             else if cert \<noteq> [] \<or> certKey \<noteq> [] then Inl (Some ''cert and certkey are required to authenticate mutually'')
             else Inr [TransportCredentials tlsCfg]))"

text \<open>The result is a connection, or nil, with an error, or nil; the client and the cache are updated.\<close>

definition Endpoint :: "dial_env \<Rightarrow> string \<Rightarrow> bool \<Rightarrow> string \<Rightarrow> string \<Rightarrow> string \<Rightarrow> GrpcClient \<Rightarrow> (string \<times> nat) list
    \<Rightarrow> (nat option \<times> string option) \<times> GrpcClient \<times> (string \<times> nat) list" where
  "Endpoint env addr useTLS cacert cert certKey c connMap =
     (let dial =
        (case transport env useTLS cacert cert certKey of
           Inl err \<Rightarrow> ((None, err), c, connMap)
         | Inr opts \<Rightarrow>
             let c1 = c\<lparr>gc_opts := gc_opts c @ opts, gc_Ctx := Some (gc_timeout c)\<rparr> in
             (case DialContext env addr (gc_opts c1) of
                Inl err \<Rightarrow> ((None, Some err), c1, connMap)
              | Inr conn \<Rightarrow>
                  if \<not> checkConnStatus (GetState env) conn then ((None, None), c1, connMap)
                  else ((Some conn, None), c1\<lparr>gc_addr := addr, gc_Conn := Some conn\<rparr>, AList.update addr conn connMap)))
      in case map_of connMap addr of
           Some conn \<Rightarrow> if checkConnStatus (GetState env) conn then ((Some conn, None), c, connMap) else dial
         | None \<Rightarrow> dial)"

text \<open>\<open>Invoke\<close> panics on a client without a connection; \<open>call\<close> is the outcome of the call on a connection.\<close>

definition Invoke :: "(nat \<Rightarrow> string \<Rightarrow> string option) \<Rightarrow> string \<Rightarrow> GrpcClient \<Rightarrow> string option go" where
  "Invoke call mname c = (case gc_Conn c of None \<Rightarrow> Panic NilDereference | Some conn \<Rightarrow> Ret (call conn mname))"

section \<open>Levels\<close>

datatype code =
    OK | Canceled | UnknownCode | InvalidArgument | DeadlineExceeded | NotFound | AlreadyExists | PermissionDenied
  | ResourceExhausted | FailedPrecondition | Aborted | OutOfRange | Unimplemented | Internal | Unavailable | DataLoss
  | Unauthenticated | CodeOther nat

datatype level = DebugLevel | InfoLevel | WarnLevel

fun ClientCodeToLevel :: "code \<Rightarrow> level" where
  "ClientCodeToLevel OK = DebugLevel"
| "ClientCodeToLevel Canceled = DebugLevel"
| "ClientCodeToLevel UnknownCode = InfoLevel"
| "ClientCodeToLevel InvalidArgument = DebugLevel"
| "ClientCodeToLevel DeadlineExceeded = InfoLevel"
| "ClientCodeToLevel NotFound = DebugLevel"
| "ClientCodeToLevel AlreadyExists = DebugLevel"
| "ClientCodeToLevel PermissionDenied = InfoLevel"
| "ClientCodeToLevel Unauthenticated = InfoLevel"
| "ClientCodeToLevel ResourceExhausted = DebugLevel"
| "ClientCodeToLevel FailedPrecondition = DebugLevel"
| "ClientCodeToLevel Aborted = DebugLevel"
| "ClientCodeToLevel OutOfRange = DebugLevel"
| "ClientCodeToLevel Unimplemented = WarnLevel"
| "ClientCodeToLevel Internal = WarnLevel"
| "ClientCodeToLevel Unavailable = WarnLevel"
| "ClientCodeToLevel DataLoss = WarnLevel"
| "ClientCodeToLevel (CodeOther n) = InfoLevel"

text \<open>The levels are ordered by severity.\<close>

primrec severity :: "level \<Rightarrow> nat" where
  "severity DebugLevel = 0"
| "severity InfoLevel = 1"
| "severity WarnLevel = 2"

lemma severity_inj: "severity l = severity m \<longleftrightarrow> l = m"
  by (cases l; cases m) simp_all

instantiation level :: linorder
begin

definition less_eq_level :: "level \<Rightarrow> level \<Rightarrow> bool" where
  "l \<le> m \<longleftrightarrow> severity l \<le> severity m"

definition less_level :: "level \<Rightarrow> level \<Rightarrow> bool" where
  "l < m \<longleftrightarrow> severity l < severity m"

instance
  by standard (auto simp: less_eq_level_def less_level_def severity_inj)

end

lemma warnings: "WarnLevel \<le> ClientCodeToLevel c \<longleftrightarrow> c \<in> {Unimplemented, Internal, Unavailable, DataLoss}"
  by (cases c) (simp_all add: less_eq_level_def)

section \<open>What \<open>Endpoint\<close> returns\<close>

text \<open>A connection that \<open>Endpoint\<close> returns is usable and is the one the cache holds for the address, entries for other addresses stay; a usable
  connection of the cache is returned without dialling, and the client stays as it was.\<close>

lemma Endpoint_returns_usable:
  assumes "Endpoint env addr useTLS cacert cert certKey c connMap = ((Some conn, err), c', connMap')"
  shows "err = None \<and> checkConnStatus (GetState env) conn \<and> map_of connMap' addr = Some conn
    \<and> (\<forall>a. a \<noteq> addr \<longrightarrow> map_of connMap' a = map_of connMap a)
    \<and> (\<forall>old. map_of connMap addr = Some old \<and> checkConnStatus (GetState env) old \<longrightarrow> conn = old \<and> c' = c \<and> connMap' = connMap)"
  using assms by (auto simp: Endpoint_def Let_def update_conv' split: option.splits sum.splits if_splits)

text \<open>\<open>Endpoint\<close> returns neither a connection nor an error in exactly two cases: a certificate file that could be read holds no certificate, or
  the connection that was dialled is not usable.\<close>

lemma Endpoint_nil_nil:
  assumes "\<And>conn. map_of connMap addr = Some conn \<Longrightarrow> \<not> checkConnStatus (GetState env) conn"
  shows "fst (Endpoint env addr useTLS cacert cert certKey c connMap) = (None, None) \<longleftrightarrow>
    (case transport env useTLS cacert cert certKey of
       Inl err \<Rightarrow> err = None \<and> useTLS \<and> cacert \<noteq> [] \<and> (\<exists>b. ReadFile env cacert = Inr b \<and> \<not> AppendCertsFromPEM env b)
     | Inr opts \<Rightarrow> \<exists>conn. DialContext env addr (gc_opts c @ opts) = Inr conn \<and> \<not> checkConnStatus (GetState env) conn)"
proof -
  have "transport env useTLS cacert cert certKey = Inl None \<Longrightarrow>
      useTLS \<and> cacert \<noteq> [] \<and> (\<exists>b. ReadFile env cacert = Inr b \<and> \<not> AppendCertsFromPEM env b)"
    by (auto simp: transport_def root_cas_def Let_def split: if_splits sum.splits)
  then show ?thesis
    using assms by (auto simp: Endpoint_def Let_def split: option.splits sum.splits if_splits)
qed

end
