(* ===== verification/Grpc_Logging.thy ===== *)
theory Grpc_Logging
  imports Grpc_Stream Grpc_Client Go_Float
begin

text \<open>
  The logging interceptors of the gRPC client (\<open>components/grpc/client/grpc.go\<close>), with \<open>path.Clean\<close> and \<open>path.Dir\<close> of the standard
  library. The wrapped calls, the clock, the identifiers of traces and the codes of errors are parameters; the interceptors return the line they log.
\<close>

section \<open>Paths\<close>

fun path_elems :: "string \<Rightarrow> string list" where
  "path_elems [] = [[]]"
| "path_elems (c # cs) =
     (if c = CHR ''/'' then [] # path_elems cs else (c # hd (path_elems cs)) # tl (path_elems cs))"

fun join_slash :: "string list \<Rightarrow> string" where
  "join_slash [] = []"
| "join_slash [e] = e"
| "join_slash (e # es) = e @ CHR ''/'' # join_slash es"

definition clean_elem :: "bool \<Rightarrow> string \<Rightarrow> string list \<Rightarrow> string list" where
  "clean_elem rooted e out =
     (if e = [] \<or> e = ''.'' then out
      else if e = ''..'' then
        (if out \<noteq> [] \<and> last out \<noteq> ''..'' then butlast out else if rooted then out else out @ [''..''])
      else out @ [e])"

definition path_Clean :: "string \<Rightarrow> string" where
  "path_Clean p =
     (if p = [] then ''.''
      else
        let rooted = hd p = CHR ''/'';
            out = fold (clean_elem rooted) (path_elems p) []
        in if rooted then CHR ''/'' # join_slash out else if out = [] then ''.'' else join_slash out)"

definition path_Dir :: "string \<Rightarrow> string" where
  "path_Dir p = path_Clean (take (length p - length (after_last (CHR ''/'') p)) p)"

section \<open>The fields of a log line\<close>

text \<open>\<open>guid\<close> is the identifier that \<open>GenerageTranceId\<close> makes.\<close>

definition newClientLoggerFields :: "string \<Rightarrow> metadata option \<Rightarrow> string \<Rightarrow> (string \<times> string) list go" where
  "newClientLoggerFields guid ctx fullMethodString =
     go_bind (go_slice (path_Dir fullMethodString) 1 (int (length (path_Dir fullMethodString)))) (\<lambda>service.
       let mname = path_Base fullMethodString in
       go_bind
         (case ctx of
            None \<Rightarrow> Ret guid
          | Some md \<Rightarrow> (case md ''trace_id'' of None \<Rightarrow> Ret guid | Some traceIds \<Rightarrow> go_index traceIds 0))
         (\<lambda>traceId. Ret [(''grpc.service'', service), (''grpc.method'', mname), (''grpc.trace_id'', traceId)]))"

definition durationToMilliseconds :: "int \<Rightarrow> float32" where
  "durationToMilliseconds duration = f32_div (f32_of_int (duration sdiv 1000)) (f32_of_int 1000)"

definition DurationToTimeMillisField :: "int \<Rightarrow> string \<times> float32" where
  "DurationToTimeMillisField duration = (''grpc.time_ms'', durationToMilliseconds duration)"

record log_line =
  ll_level :: level
  ll_msg :: string
  ll_fields :: "(string \<times> string) list"
  ll_error :: "string option"
  ll_code :: code
  ll_time :: "string \<times> float32"

text \<open>
  \<open>Code\<close> is the code that the status package finds in an error; \<open>elapsed\<close> is the difference of the two readings of the clock. A logger that is not
  enabled for a level drops the line.
\<close>

definition logFinalClientLine ::
  "(string option \<Rightarrow> code) \<Rightarrow> (level \<Rightarrow> bool) \<Rightarrow> (string \<times> string) list \<Rightarrow> int \<Rightarrow> string option \<Rightarrow> string \<Rightarrow> log_line option" where
  "logFinalClientLine Code enabled fs elapsed err msg =
     (let c = Code err; lvl = ClientCodeToLevel c
      in if enabled lvl
         then Some \<lparr>ll_level = lvl, ll_msg = msg, ll_fields = fs, ll_error = err, ll_code = c, ll_time = DurationToTimeMillisField elapsed\<rparr>
         else None)"

record call_env =
  e_Code :: "string option \<Rightarrow> code"
  e_enabled :: "level \<Rightarrow> bool"
  e_guid :: string
  e_elapsed :: int

text \<open>The result of a call with the line it logs. The stream that the library returns is wrapped even when it returns an error.\<close>

definition UnaryClientInterceptor ::
  "call_env \<Rightarrow> metadata option \<Rightarrow> string \<Rightarrow> (metadata option \<Rightarrow> string \<Rightarrow> 'q \<Rightarrow> string option) \<Rightarrow> 'q \<Rightarrow> (string option \<times> log_line option) go" where
  "UnaryClientInterceptor env ctx mname invoker req =
     go_bind (newClientLoggerFields (e_guid env) ctx mname) (\<lambda>fs.
       let err = invoker ctx mname req
       in Ret (err, logFinalClientLine (e_Code env) (e_enabled env) fs (e_elapsed env) err ''finished client streaming call''))"

record 'g wrapped_stream =
  ws_ctx :: "metadata option"
  ws_method :: string
  ws_g :: 'g

definition NewStream_client :: "metadata option \<Rightarrow> string \<Rightarrow> 'g \<Rightarrow> 'g wrapped_stream" where
  "NewStream_client ctx mname g = \<lparr>ws_ctx = ctx, ws_method = mname, ws_g = g\<rparr>"

definition StreamClientInterceptor ::
  "call_env \<Rightarrow> metadata option \<Rightarrow> string \<Rightarrow> (metadata option \<Rightarrow> string \<Rightarrow> 'g option \<times> string option)
    \<Rightarrow> (('g option wrapped_stream \<times> string option) \<times> log_line option) go" where
  "StreamClientInterceptor env ctx mname streamer =
     go_bind (newClientLoggerFields (e_guid env) ctx mname) (\<lambda>fs.
       let (g, err) = streamer ctx mname;
           line = logFinalClientLine (e_Code env) (e_enabled env) fs (e_elapsed env) err ''finished client streaming call''
       in Ret ((NewStream_client ctx mname g, err), line))"

section \<open>Properties\<close>

lemma path_elems_not_Nil [simp]: "path_elems p \<noteq> []"
  by (induction p) simp_all

lemma path_elems_append: "CHR ''/'' \<notin> set e \<Longrightarrow> path_elems (e @ CHR ''/'' # p) = e # path_elems p"
  by (induction e) auto

lemma fold_clean_elem_ok: "[] \<notin> set out \<Longrightarrow> [] \<notin> set (fold (clean_elem rooted) es out)"
proof (induction es arbitrary: out)
  case (Cons e es)
  have "[] \<notin> set (clean_elem rooted e out)" using Cons.prems by (auto simp: clean_elem_def dest: in_set_butlastD)
  from Cons.IH [OF this] show ?case by simp
qed simp

lemma join_slash_eq_Nil: "[] \<notin> set es \<Longrightarrow> join_slash es = [] \<longleftrightarrow> es = []"
  by (cases es rule: join_slash.cases) simp_all

lemma path_Clean_not_Nil [simp]: "path_Clean p \<noteq> []"
  using fold_clean_elem_ok [of "[]" False "path_elems p"]
  by (simp add: path_Clean_def Let_def join_slash_eq_Nil)

definition path_elem :: "string \<Rightarrow> bool" where
  "path_elem e \<longleftrightarrow> e \<noteq> [] \<and> e \<noteq> ''.'' \<and> e \<noteq> ''..'' \<and> CHR ''/'' \<notin> set e"

text \<open>The directory of a full method name is the service.\<close>

lemma path_of_full_method:
  assumes "path_elem svc" and "m \<noteq> []" and "CHR ''/'' \<notin> set m"
  shows "path_Dir (CHR ''/'' # svc @ CHR ''/'' # m) = CHR ''/'' # svc \<and> path_Base (CHR ''/'' # svc @ CHR ''/'' # m) = m"
proof -
  let ?p = "CHR ''/'' # svc @ CHR ''/'' # m"
  have last: "after_last (CHR ''/'') ?p = m" using after_last_append [OF assms(3), of "CHR ''/'' # svc"] by simp
  have "take (length ?p - length m) ?p = CHR ''/'' # svc @ [CHR ''/'']" by simp
  moreover have "path_elems (CHR ''/'' # svc @ [CHR ''/'']) = [[], svc, []]"
    using assms(1) path_elems_append [of svc "[]"] by (simp add: path_elem_def)
  ultimately have "path_Dir ?p = CHR ''/'' # svc"
    using assms(1) unfolding path_Dir_def last by (simp add: path_Clean_def clean_elem_def path_elem_def)
  moreover have "dropWhile (\<lambda>x. x = CHR ''/'') (rev ?p) = rev ?p"
    using assms(2,3) by (cases m rule: rev_cases) auto
  then have "path_Base ?p = m" using last assms(2) by (simp only: path_Base_def Let_def) simp
  ultimately show ?thesis ..
qed

text \<open>
  The line that is expected of a call: the level follows from the code of the error, and the line has the three fields of the call, the error, the code, and the time in
  milliseconds, rounded down to microseconds.
\<close>

definition call_level :: "code \<Rightarrow> level" where
  "call_level c =
     (if c \<in> {Unimplemented, Internal, Unavailable, DataLoss} then WarnLevel
      else if c \<in> {OK, Canceled, InvalidArgument, NotFound, AlreadyExists, ResourceExhausted, FailedPrecondition, Aborted, OutOfRange} then DebugLevel
      else InfoLevel)"

definition call_line :: "call_env \<Rightarrow> string \<Rightarrow> string \<Rightarrow> string \<Rightarrow> string option \<Rightarrow> log_line option" where
  "call_line env service mname trace err =
     (if e_enabled env (call_level (e_Code env err))
      then Some \<lparr>ll_level = call_level (e_Code env err), ll_msg = ''finished client streaming call'',
             ll_fields = [(''grpc.service'', service), (''grpc.method'', mname), (''grpc.trace_id'', trace)],
             ll_error = err, ll_code = e_Code env err,
             ll_time = (''grpc.time_ms'', f32_div (f32_of_int (e_elapsed env sdiv 1000)) (f32_of_int 1000))\<rparr>
      else None)"

lemma ClientCodeToLevel_eq: "ClientCodeToLevel c = call_level c"
  by (cases c) (simp_all add: call_level_def)

lemma logFinalClientLine_eq:
  "logFinalClientLine (e_Code env) (e_enabled env) [(''grpc.service'', service), (''grpc.method'', mname), (''grpc.trace_id'', trace)] (e_elapsed env) err
     ''finished client streaming call'' = call_line env service mname trace err"
  by (simp add: logFinalClientLine_def call_line_def ClientCodeToLevel_eq DurationToTimeMillisField_def durationToMilliseconds_def Let_def)

text \<open>C37: the interceptors of a client pass a call on and return its result and its error, without panicking, for every method name and every
  context whose trace has a value. They log one line, if the logger is enabled for the level: a warning for the codes \<open>Unimplemented\<close>, \<open>Internal\<close>, \<open>Unavailable\<close> and
  \<open>DataLoss\<close>, a debug line for success, cancellation and the errors of the caller, and an informational line for every other code. The line has the service, the method, the trace of
  the context or a new one, the error, its code and the time of the call; for a full method name \<open>/service/method\<close> the service and the method are those of the name.\<close>

theorem client_call_logged:
  assumes "\<forall>md. ctx = Some md \<longrightarrow> md ''trace_id'' \<noteq> Some []"
  shows "\<exists>service mname trace. UnaryClientInterceptor env ctx full invoker req =
        Ret (invoker ctx full req, call_line env service mname trace (invoker ctx full req))
    \<and> StreamClientInterceptor env ctx full streamer =
        Ret ((\<lparr>ws_ctx = ctx, ws_method = full, ws_g = fst (streamer ctx full)\<rparr>, snd (streamer ctx full)),
          call_line env service mname trace (snd (streamer ctx full)))
    \<and> trace = (case Option.bind ctx (\<lambda>md. md ''trace_id'') of None \<Rightarrow> e_guid env | Some ids \<Rightarrow> hd ids)
    \<and> (\<forall>svc m. path_elem svc \<and> m \<noteq> [] \<and> CHR ''/'' \<notin> set m \<and> full = CHR ''/'' # svc @ CHR ''/'' # m \<longrightarrow> service = svc \<and> mname = m)"
proof -
  define trace where "trace = (case Option.bind ctx (\<lambda>md. md ''trace_id'') of None \<Rightarrow> e_guid env | Some ids \<Rightarrow> hd ids)"
  have len: "1 \<le> length (path_Dir full)" by (simp add: path_Dir_def Suc_le_eq)
  have t: "(case ctx of None \<Rightarrow> Ret (e_guid env) | Some md \<Rightarrow> (case md ''trace_id'' of None \<Rightarrow> Ret (e_guid env) | Some ids \<Rightarrow> go_index ids 0)) = Ret trace"
    using assms by (auto simp: trace_def go_index_def hd_conv_nth split: option.split)
  have f: "newClientLoggerFields (e_guid env) ctx full = Ret [(''grpc.service'', drop 1 (path_Dir full)), (''grpc.method'', path_Base full),
      (''grpc.trace_id'', trace)]"
    using len go_slice_in [of 1 "length (path_Dir full)" "path_Dir full"] by (simp add: newClientLoggerFields_def t)
  have "UnaryClientInterceptor env ctx full invoker req =
      Ret (invoker ctx full req, call_line env (drop 1 (path_Dir full)) (path_Base full) trace (invoker ctx full req))"
    by (simp only: UnaryClientInterceptor_def f go_bind.simps Let_def logFinalClientLine_eq)
  moreover have "StreamClientInterceptor env ctx full streamer =
      Ret ((\<lparr>ws_ctx = ctx, ws_method = full, ws_g = fst (streamer ctx full)\<rparr>, snd (streamer ctx full)),
        call_line env (drop 1 (path_Dir full)) (path_Base full) trace (snd (streamer ctx full)))"
    by (simp only: StreamClientInterceptor_def NewStream_client_def f go_bind.simps Let_def logFinalClientLine_eq case_prod_beta)
  moreover have "drop 1 (path_Dir full) = svc \<and> path_Base full = m"
    if "path_elem svc \<and> m \<noteq> [] \<and> CHR ''/'' \<notin> set m \<and> full = CHR ''/'' # svc @ CHR ''/'' # m" for svc m
    using path_of_full_method [of svc m] that by simp
  ultimately show ?thesis using trace_def by blast
qed

theorem client_call_logged_witness:
  "\<exists>line. UnaryClientInterceptor \<lparr>e_Code = (\<lambda>_. Unavailable), e_enabled = (\<lambda>_. True), e_guid = ''x'', e_elapsed = 2500000\<rparr>
      (Some [''trace_id'' \<mapsto> [''t1'']]) ''/shop.Cart/Add'' (\<lambda>_ _ _. Some ''down'') () = Ret (Some ''down'', Some line)
    \<and> ll_fields line = [(''grpc.service'', ''shop.Cart''), (''grpc.method'', ''Add''), (''grpc.trace_id'', ''t1'')] \<and> ll_level line = WarnLevel"
proof -
  define env where "env = \<lparr>e_Code = (\<lambda>_. Unavailable), e_enabled = (\<lambda>_. True), e_guid = ''x'', e_elapsed = 2500000\<rparr>"
  have "\<forall>md. Some [''trace_id'' \<mapsto> [''t1'']] = Some md \<longrightarrow> md ''trace_id'' \<noteq> Some []" by auto
  from client_call_logged [OF this, of env "''/shop.Cart/Add''" "\<lambda>_ _ _. Some ''down''" "()" "\<lambda>_ _. (None :: unit option, None)"]
  obtain service mname trace where f: "UnaryClientInterceptor env (Some [''trace_id'' \<mapsto> [''t1'']]) ''/shop.Cart/Add'' (\<lambda>_ _ _. Some ''down'') ()
      = Ret (Some ''down'', call_line env service mname trace (Some ''down''))"
    and t: "trace = (case Option.bind (Some [''trace_id'' \<mapsto> [''t1'']]) (\<lambda>md. md ''trace_id'') of None \<Rightarrow> e_guid env | Some ids \<Rightarrow> hd ids)"
    and m: "\<forall>svc m. path_elem svc \<and> m \<noteq> [] \<and> CHR ''/'' \<notin> set m \<and> ''/shop.Cart/Add'' = CHR ''/'' # svc @ CHR ''/'' # m \<longrightarrow> service = svc \<and> mname = m"
    by (elim exE conjE)
  have "service = ''shop.Cart'' \<and> mname = ''Add''" using m [rule_format, of "''shop.Cart''" "''Add''"] by (simp add: path_elem_def)
  with f t show ?thesis by (simp add: call_line_def call_level_def env_def)
qed

text \<open>
  A logger with a threshold: raising it drops lines and changes none, and a logger of warnings has exactly the lines of the four codes that tell of a
  failure of the server.
\<close>

lemma threshold_drops:
  assumes "lo \<le> hi"
  shows "logFinalClientLine Code (\<lambda>l. hi \<le> l) fs elapsed err msg \<in> {None, logFinalClientLine Code (\<lambda>l. lo \<le> l) fs elapsed err msg}"
  using assms order_trans [of lo hi] by (auto simp: logFinalClientLine_def Let_def)

lemma warning_lines:
  "logFinalClientLine Code (\<lambda>l. WarnLevel \<le> l) fs elapsed err msg \<noteq> None \<longleftrightarrow> Code err \<in> {Unimplemented, Internal, Unavailable, DataLoss}"
  by (simp add: logFinalClientLine_def Let_def warnings)

end
