(* ===== verification/J7f_Servers.thy ===== *)
theory J7f_Servers
  imports J7f_Prelude "HOL-Library.AList"
begin

text \<open>
  The two servers of the library (\<open>components/grpc/server/server.go\<close> and \<open>components/http/server/server.go\<close>). Both have the same
  life: interceptors and callbacks are registered, \<open>NewServ\<close> runs the callbacks, and the services are listed for the
  registry. Interceptors and callbacks arrive as values of any type (\<open>interface{}\<close>) and are kept when they have the right one. A
  callback is a number; what it does to the server, where it may panic, is a parameter. The engines behind the servers are outside the program.
\<close>

section \<open>Values of any type\<close>

datatype any = Handler nat | StreamHandler nat | Callback nat | AnyOther string

fun as_handler :: "any \<Rightarrow> nat option" where
  "as_handler (Handler n) = Some n"
| "as_handler _ = None"

fun as_stream_handler :: "any \<Rightarrow> nat option" where
  "as_stream_handler (StreamHandler n) = Some n"
| "as_stream_handler _ = None"


record MethodInfo =
  mi_Name :: string
  mi_IsClientStream :: bool
  mi_IsServerStream :: bool

record ServerInfo =
  inf_Methods :: "MethodInfo list"
  inf_Metadata :: string

section \<open>The gRPC server\<close>

datatype server_option = StreamInterceptor "nat list" | UnaryInterceptor "nat list" | OtherOption nat

text \<open>
  \<open>gs_engine\<close> is the engine made by \<open>grpc.NewServer\<close>, with its options and the services that were registered with it. A listener of the
  operating system is a number; \<open>listen\<close> is what \<open>net.ListenTCP\<close> returns for the address.
\<close>

record grpc_engine =
  eng_opts :: "server_option list"
  eng_services :: "(string \<times> ServerInfo) list"
  eng_stopped :: bool

record GrpcServer =
  gs_addr :: string
  gs_lis :: nat
  gs_opts :: "server_option list"
  gs_cb :: "nat list"
  gs_engine :: "grpc_engine option"

definition NewGrpcServer :: "string + nat \<Rightarrow> string \<Rightarrow> server_option list \<Rightarrow> GrpcServer option \<times> string option" where
  "NewGrpcServer listen addr opts =
     (case listen of
        Inl e \<Rightarrow> (None, Some e)
      | Inr lis \<Rightarrow> (Some \<lparr>gs_addr = addr, gs_lis = lis, gs_opts = opts, gs_cb = [], gs_engine = None\<rparr>, None))"

definition RegisterStreamInterceptors :: "any list \<Rightarrow> GrpcServer \<Rightarrow> GrpcServer" where
  "RegisterStreamInterceptors fs g = g\<lparr>gs_opts := gs_opts g @ [StreamInterceptor (List.map_filter as_stream_handler fs)]\<rparr>"

definition RegisterUnaryInterceptors :: "any list \<Rightarrow> GrpcServer \<Rightarrow> GrpcServer" where
  "RegisterUnaryInterceptors fs g = g\<lparr>gs_opts := gs_opts g @ [UnaryInterceptor (List.map_filter as_handler fs)]\<rparr>"


text \<open>The loop over the callbacks that both servers have: it ends at the first error.\<close>

fun run_callbacks :: "(nat \<Rightarrow> 's \<Rightarrow> (string option \<times> 's) go) \<Rightarrow> nat list \<Rightarrow> 's \<Rightarrow> (string option \<times> 's) go" where
  "run_callbacks call [] g = Ret (None, g)"
| "run_callbacks call (c # cs) g =
     go_bind (call c g) (\<lambda>(err, g1). if err \<noteq> None then Ret (err, g1) else run_callbacks call cs g1)"

text \<open>\<open>NewServer\<close> stands for \<open>grpc.NewServer\<close>, which panics on options it does not accept.\<close>

definition NewServ :: "(server_option list \<Rightarrow> grpc_engine go) \<Rightarrow> (nat \<Rightarrow> GrpcServer \<Rightarrow> (string option \<times> GrpcServer) go) \<Rightarrow> GrpcServer
    \<Rightarrow> (string option \<times> GrpcServer) go" where
  "NewServ NewServer call g =
     go_bind (NewServer (gs_opts g)) (\<lambda>e. run_callbacks call (gs_cb g) (g\<lparr>gs_engine := Some e\<rparr>))"

definition GetEngine_grpc :: "GrpcServer \<Rightarrow> grpc_engine option" where
  "GetEngine_grpc g = gs_engine g"

definition GetAddress_grpc :: "GrpcServer \<Rightarrow> string" where
  "GetAddress_grpc g = gs_addr g"

definition GetListener_grpc :: "GrpcServer \<Rightarrow> nat" where
  "GetListener_grpc g = gs_lis g"

text \<open>Serving ends with the error of the engine (\<open>Serve\<close>), on the listener of the server.\<close>

definition StartServ_grpc :: "(grpc_engine \<Rightarrow> nat \<Rightarrow> string option) \<Rightarrow> GrpcServer \<Rightarrow> string option go" where
  "StartServ_grpc Serve g =
     (case gs_engine g of None \<Rightarrow> Panic NilDereference | Some e \<Rightarrow> Ret (Serve e (gs_lis g)))"

text \<open>Every method of the engine panics on the nil engine of a server before \<open>NewServ\<close>.\<close>

definition Stop_grpc :: "GrpcServer \<Rightarrow> GrpcServer go" where
  "Stop_grpc g =
     (case gs_engine g of
        None \<Rightarrow> Panic NilDereference
      | Some e \<Rightarrow> Ret (g\<lparr>gs_engine := Some (e\<lparr>eng_stopped := True\<rparr>)\<rparr>))"

definition GracefulStop_grpc :: "GrpcServer \<Rightarrow> GrpcServer go" where
  "GracefulStop_grpc g = Stop_grpc g"

definition GetServicesInfo_grpc :: "GrpcServer \<Rightarrow> (string \<times> ServerInfo) list go" where
  "GetServicesInfo_grpc g =
     (case gs_engine g of
        None \<Rightarrow> Panic NilDereference
      | Some e \<Rightarrow>
          Ret (fold (\<lambda>(k, v) infos.
                 AList.update k \<lparr>inf_Methods = map (\<lambda>m. \<lparr>mi_Name = mi_Name m, mi_IsClientStream = mi_IsClientStream m,
                                                          mi_IsServerStream = mi_IsServerStream m\<rparr>) (inf_Methods v),
                                 inf_Metadata = inf_Metadata v\<rparr> infos)
               (eng_services e) []))"

section \<open>The HTTP server\<close>

record route =
  rt_Method :: string
  rt_Path :: string

text \<open>\<open>hs_server\<close> is the server of the library, which is nil before \<open>NewServ\<close>, and whether it was shut down.\<close>

record HttpServer =
  hs_addr :: string
  hs_lis :: nat
  hs_handlers :: "nat list"
  hs_routes :: "route list"
  hs_release :: bool
  hs_cb :: "nat list"
  hs_server :: "bool option"

definition NewHttpServer :: "string + nat \<Rightarrow> string \<Rightarrow> string \<Rightarrow> HttpServer option \<times> string option" where
  "NewHttpServer listen addr env =
     (case listen of
        Inl e \<Rightarrow> (None, Some e)
      | Inr lis \<Rightarrow> (Some \<lparr>hs_addr = addr, hs_lis = lis, hs_handlers = [], hs_routes = [], hs_release = (env = ''prod''), hs_cb = [], hs_server = None\<rparr>, None))"

definition RegisterMiddleware :: "any list \<Rightarrow> HttpServer \<Rightarrow> HttpServer" where
  "RegisterMiddleware fs g = fold (\<lambda>f g. case as_handler f of Some n \<Rightarrow> g\<lparr>hs_handlers := hs_handlers g @ [n]\<rparr> | None \<Rightarrow> g) fs g"


text \<open>
  \<open>addRoute\<close> stands for the registration of a route with the engine of gin, given the routes it has; it panics on a route that conflicts with one of them.
\<close>

definition PingInit :: "(route \<Rightarrow> route list \<Rightarrow> route list go) \<Rightarrow> HttpServer \<Rightarrow> HttpServer go" where
  "PingInit addRoute g =
     go_bind (addRoute \<lparr>rt_Method = ''GET'', rt_Path = ''/j7ping''\<rparr> (hs_routes g)) (\<lambda>rs. Ret (g\<lparr>hs_routes := rs\<rparr>))"

definition NewServ_http :: "(route \<Rightarrow> route list \<Rightarrow> route list go) \<Rightarrow> (nat \<Rightarrow> HttpServer \<Rightarrow> (string option \<times> HttpServer) go) \<Rightarrow> HttpServer
    \<Rightarrow> (string option \<times> HttpServer) go" where
  "NewServ_http addRoute call g =
     go_bind (run_callbacks call (hs_cb g) g) (\<lambda>(err, g1).
       if err \<noteq> None then Ret (err, g1)
       else go_bind (PingInit addRoute g1) (\<lambda>g2. Ret (None, g2\<lparr>hs_server := Some False\<rparr>)))"

definition add_route :: "route \<Rightarrow> (string \<times> ServerInfo) list \<Rightarrow> (string \<times> ServerInfo) list" where
  "add_route r infos =
     (let infos1 = (if map_of infos (rt_Path r) = None
                    then AList.update (rt_Path r) \<lparr>inf_Methods = [], inf_Metadata = []\<rparr> infos else infos);
          methods = inf_Methods (the (map_of infos1 (rt_Path r)))
      in AList.update (rt_Path r)
           \<lparr>inf_Methods = methods @ [\<lparr>mi_Name = rt_Method r, mi_IsClientStream = False, mi_IsServerStream = False\<rparr>], inf_Metadata = []\<rparr> infos1)"

definition GetServicesInfo_http :: "HttpServer \<Rightarrow> (string \<times> ServerInfo) list" where
  "GetServicesInfo_http g = fold add_route (hs_routes g) []"

text \<open>Shutting down a server that was not made yet panics; an error of the shutdown is logged with a panic.\<close>

definition shutdown_http :: "string option \<Rightarrow> HttpServer \<Rightarrow> HttpServer go" where
  "shutdown_http err g =
     (case hs_server g of
        None \<Rightarrow> Panic NilDereference
      | Some _ \<Rightarrow> (case err of Some e \<Rightarrow> Panic (Explicit ''server'') | None \<Rightarrow> Ret (g\<lparr>hs_server := Some True\<rparr>)))"

definition Stop_http :: "string option \<Rightarrow> HttpServer \<Rightarrow> HttpServer go" where
  "Stop_http err g = shutdown_http err g"

definition GracefulStop_http :: "string option \<Rightarrow> HttpServer \<Rightarrow> HttpServer go" where
  "GracefulStop_http err g = shutdown_http err g"

definition GetEngine_http :: "HttpServer \<Rightarrow> nat list \<times> route list" where
  "GetEngine_http g = (hs_handlers g, hs_routes g)"

definition GetAddress_http :: "HttpServer \<Rightarrow> string" where
  "GetAddress_http g = hs_addr g"

definition GetListener_http :: "HttpServer \<Rightarrow> nat" where
  "GetListener_http g = hs_lis g"

definition StartServ_http :: "(HttpServer \<Rightarrow> nat \<Rightarrow> string option) \<Rightarrow> HttpServer \<Rightarrow> string option go" where
  "StartServ_http Serve g =
     (case hs_server g of None \<Rightarrow> Panic NilDereference | Some _ \<Rightarrow> Ret (Serve g (hs_lis g)))"

section \<open>The contract of the two servers\<close>









text \<open>An engine that refuses a route it has already.\<close>

definition unique_routes :: "route \<Rightarrow> route list \<Rightarrow> route list go" where
  "unique_routes r rs = (if r \<in> set rs then Panic (Explicit ''handlers are already registered for path'') else Ret (rs @ [r]))"


text \<open>With such an engine a server whose callbacks succeed starts once, and a second start panics.\<close>

lemma second_start_panics:
  assumes "NewServ_http unique_routes (\<lambda>c s. Ret (None, s)) h = Ret (err, h1)"
  shows "err = None \<and> (\<exists>p. NewServ_http unique_routes (\<lambda>c s. Ret (None, s)) h1 = Panic p)"
proof -
  have run: "run_callbacks (\<lambda>c s. Ret (None, s)) cs (s :: HttpServer) = Ret (None, s)" for cs s by (induction cs) simp_all
  from assms show ?thesis by (auto simp: NewServ_http_def run PingInit_def unique_routes_def split: if_splits)
qed

text \<open>
  The documentation of gRPC allows one interceptor of each kind; an engine that refuses a second one panics. The methods that register
  interceptors append an option at each call, so calling one of them twice makes the start panic.
\<close>

fun is_stream :: "server_option \<Rightarrow> bool" where
  "is_stream (StreamInterceptor _) = True"
| "is_stream _ = False"

lemma second_registration_panics:
  assumes "\<And>opts. 1 < length (List.filter is_stream opts) \<Longrightarrow> NewServer opts = Panic p"
  shows "NewServ NewServer call (RegisterStreamInterceptors fs (RegisterStreamInterceptors fs' g)) = Panic p"
  by (simp add: NewServ_def RegisterStreamInterceptors_def assms)

text \<open>
  A start that fails in a callback leaves different servers behind: the gRPC server has its engine and can be served, the HTTP server has
  none and serving it panics.
\<close>

lemma run_callbacks_keep:
  assumes "\<And>c s err s'. call c s = Ret (err, s') \<Longrightarrow> keep s' = keep s"
  shows "run_callbacks call cs s = Ret (err, s') \<Longrightarrow> keep s' = keep s"
  by (induction cs arbitrary: s) (auto split: if_splits dest: assms)

lemma failed_start_differs:
  assumes "NewServ NewServer call g = Ret (Some err, g')" and "\<And>c s err s'. call c s = Ret (err, s') \<Longrightarrow> gs_engine s' = gs_engine s"
    and "NewServ_http addRoute call' h = Ret (Some err', h')" and "\<And>c s err s'. call' c s = Ret (err, s') \<Longrightarrow> hs_server s' = hs_server s"
    and "hs_server h = None"
  shows "(\<exists>r. StartServ_grpc Serve g' = Ret r) \<and> StartServ_http Serve' h' = Panic NilDereference"
proof -
  from assms(1) obtain e where e: "run_callbacks call (gs_cb g) (g\<lparr>gs_engine := Some e\<rparr>) = Ret (Some err, g')" by (auto simp: NewServ_def)
  have "gs_engine g' = Some e" using run_callbacks_keep [where keep = gs_engine and call = call, OF assms(2) e] by simp
  moreover have h': "run_callbacks call' (hs_cb h) h = Ret (Some err', h')"
    using assms(3) by (auto simp: NewServ_http_def split: if_splits)
  have "hs_server h' = None" using run_callbacks_keep [where keep = hs_server and call = call', OF assms(4) h'] assms(5) by simp
  ultimately show ?thesis by (simp add: StartServ_grpc_def StartServ_http_def)
qed

section \<open>The listed services\<close>

lemma add_route_lookup:
  "map_of (add_route r infos) p =
     (if p = rt_Path r
      then Some \<lparr>inf_Methods = (case map_of infos p of None \<Rightarrow> [] | Some i \<Rightarrow> inf_Methods i)
             @ [\<lparr>mi_Name = rt_Method r, mi_IsClientStream = False, mi_IsServerStream = False\<rparr>], inf_Metadata = []\<rparr>
      else map_of infos p)"
  by (simp add: add_route_def Let_def update_conv' split: option.split)

text \<open>The services of an HTTP server are listed once for each path, with the methods of its routes in the order in which they were added, and
  no other path is listed.\<close>

lemma GetServicesInfo_http_groups:
  "map_of (GetServicesInfo_http g) p =
     (if p \<in> rt_Path ` set (hs_routes g)
      then Some \<lparr>inf_Methods = map (\<lambda>r. \<lparr>mi_Name = rt_Method r, mi_IsClientStream = False, mi_IsServerStream = False\<rparr>)
                  (List.filter (\<lambda>r. rt_Path r = p) (hs_routes g)), inf_Metadata = []\<rparr>
      else None)"
proof -
  let ?ms = "\<lambda>rs. map (\<lambda>r. \<lparr>mi_Name = rt_Method r, mi_IsClientStream = False, mi_IsServerStream = False\<rparr>) (List.filter (\<lambda>r. rt_Path r = p) rs)"
  have "map_of (fold add_route rs infos) p =
      (if p \<in> rt_Path ` set rs
       then Some \<lparr>inf_Methods = (case map_of infos p of None \<Rightarrow> [] | Some i \<Rightarrow> inf_Methods i) @ ?ms rs, inf_Metadata = []\<rparr>
       else map_of infos p)" for rs infos
    by (induction rs arbitrary: infos) (auto simp: add_route_lookup filter_empty_conv image_iff)
  from this [of "hs_routes g" "[]"] show ?thesis by (simp add: GetServicesInfo_http_def)
qed

text \<open>The services of a gRPC server are those of its engine; a server that was not started has none and panics.\<close>

lemma GetServicesInfo_grpc_lookup:
  assumes "gs_engine g = Some e" and "distinct (map fst (eng_services e))"
  shows "\<exists>infos. GetServicesInfo_grpc g = Ret infos \<and> map_of infos = map_of (eng_services e)"
proof -
  have "map_of (fold (\<lambda>(k, v). AList.update k v) kvs m) = map_of m ++ map_of kvs" if "distinct (map fst kvs)"
    for kvs :: "(string \<times> ServerInfo) list" and m
    using that
  proof (induction kvs arbitrary: m)
    case (Cons kv kvs)
    obtain k v where [simp]: "kv = (k, v)" by fastforce
    have "map_of kvs k = None" using Cons.prems by (simp add: map_of_eq_None_iff)
    then show ?case using Cons by (auto simp: update_conv' fun_eq_iff map_add_def split: option.split)
  qed simp
  note fold_update = this [OF assms(2), of "[]"]
  have copy: "\<lparr>mi_Name = mi_Name m, mi_IsClientStream = mi_IsClientStream m, mi_IsServerStream = mi_IsServerStream m\<rparr> = m"
    "\<lparr>inf_Methods = inf_Methods i, inf_Metadata = inf_Metadata i\<rparr> = i" for m :: MethodInfo and i :: ServerInfo by simp_all
  show ?thesis using fold_update assms(1) by (simp add: GetServicesInfo_grpc_def copy)
qed

lemma stop_before_start:
  "NewGrpcServer (Inr lis) addr opts = (Some g, None) \<Longrightarrow> GracefulStop_grpc g = Panic NilDereference"
  "NewHttpServer (Inr lis) addr env = (Some h, None) \<Longrightarrow> GracefulStop_http err h = Panic NilDereference"
  by (auto simp: NewGrpcServer_def GracefulStop_grpc_def Stop_grpc_def NewHttpServer_def GracefulStop_http_def shutdown_http_def)

end
