(* ===== verification/Go_Duration.thy ===== *)
theory Go_Duration
  imports Go_Strings
begin

text \<open>
  The text of a \<open>time.Duration\<close>, a number of nanoseconds: \<open>Duration.String\<close> of the package \<open>time\<close>.
\<close>

text \<open>The fraction \<open>v / 10 ^ prec\<close> as a full stop and digits without trailing zeros, or nothing.\<close>

definition fmtFrac :: "nat \<Rightarrow> nat \<Rightarrow> string" where
  "fmtFrac v prec =
     (let ds = replicate (prec - length (format_nat v)) (CHR ''0'') @ format_nat v;
          trimmed = rev (dropWhile (\<lambda>c. c = CHR ''0'') (rev ds))
      in if trimmed = [] then [] else CHR ''.'' # trimmed)"

definition micro :: string where
  "micro = [CHR 0xC2, CHR 0xB5]"

definition abs_duration_text :: "nat \<Rightarrow> string" where
  "abs_duration_text u =
     (if u = 0 then ''0s''
      else if u < 10 ^ 3 then format_nat u @ ''ns''
      else if u < 10 ^ 6 then format_nat (u div 10 ^ 3) @ fmtFrac (u mod 10 ^ 3) 3 @ micro @ ''s''
      else if u < 10 ^ 9 then format_nat (u div 10 ^ 6) @ fmtFrac (u mod 10 ^ 6) 6 @ ''ms''
      else
        let secs = u div 10 ^ 9; mins = secs div 60; hours = mins div 60;
            s = format_nat (secs mod 60) @ fmtFrac (u mod 10 ^ 9) 9 @ ''s'';
            m = (if 0 < mins then format_nat (mins mod 60) @ ''m'' else []);
            h = (if 0 < hours then format_nat hours @ ''h'' else [])
        in h @ m @ s)"

definition Duration_String :: "int \<Rightarrow> string" where
  "Duration_String d = (if d < 0 then ''-'' else []) @ abs_duration_text (nat \<bar>d\<bar>)"

text \<open>Every duration has its unit: the text ends with the letter s.\<close>

lemma Duration_String_unit: "\<exists>t. Duration_String d = t @ ''s'' \<and> t \<noteq> []"
proof -
  have "abs_duration_text u = butlast (abs_duration_text u) @ ''s'' \<and> butlast (abs_duration_text u) \<noteq> []" for u
    by (auto simp: abs_duration_text_def Let_def butlast_append)
  then show ?thesis unfolding Duration_String_def by (metis append.assoc append_is_Nil_conv)
qed

end
