(* ===== verification/Http_Middleware.thy ===== *)
theory Http_Middleware
  imports J7f_Errors Go_Duration "HOL-Library.AList"
begin

text \<open>
  The middleware and the controllers of the HTTP server (\<open>components/http\<close>). The engine gin is outside the program: a request is the record
  \<open>gin\<close> of what the middleware reads and writes, and the handlers that follow a middleware are a function on it that may
  panic. The frames of a goroutine, the files they name and the decoding of JSON are parameters.
\<close>

section \<open>Requests\<close>

datatype json = JNull | JInt int | JString string | JData string | JErrors "string list" | JObject "(string \<times> json) list"

datatype response = HTML int string | JSON int json | Redirected int string | StatusOnly int

record gin =
  RequestURI :: string
  Headers :: "(string \<times> string) list"
  g_body :: "string \<times> string option"
  g_keys :: "(string \<times> json) list"
  g_errors :: "string list"
  g_aborted :: bool
  g_responses :: "response list"

abbreviation respond :: "response \<Rightarrow> gin \<Rightarrow> gin" where
  "respond r c \<equiv> c\<lparr>g_responses := g_responses c @ [r]\<rparr>"

definition GetHeader :: "string \<Rightarrow> gin \<Rightarrow> string" where
  "GetHeader k c = (case map_of (Headers c) k of None \<Rightarrow> [] | Some v \<Rightarrow> v)"

section \<open>Results\<close>

definition Result :: "int \<Rightarrow> json \<Rightarrow> string \<Rightarrow> gin \<Rightarrow> gin" where
  "Result cd data msg = respond (JSON 200 (JObject [(''code'', JInt cd), (''data'', data), (''msg'', JString msg)]))"

definition ResultOk :: "json \<Rightarrow> gin \<Rightarrow> gin" where
  "ResultOk data = respond (JSON 200 (JObject [(''code'', JInt 200), (''data'', data), (''msg'', JString [])]))"

definition ResultList :: "json \<Rightarrow> int \<Rightarrow> gin \<Rightarrow> gin" where
  "ResultList data tot =
     respond (JSON 200 (JObject [(''code'', JInt 200), (''rows'', data), (''msg'', JString []), (''total'', JInt tot)]))"

definition ResultOkMsg :: "json \<Rightarrow> string \<Rightarrow> gin \<Rightarrow> gin" where
  "ResultOkMsg data msg = respond (JSON 200 (JObject [(''code'', JInt 200), (''data'', data), (''msg'', JString msg)]))"

definition ResultFail :: "json \<Rightarrow> gin \<Rightarrow> gin" where
  "ResultFail err = respond (JSON 200 (JObject [(''code'', JInt 400), (''data'', JNull), (''msg'', err)]))"

definition ResultFailData :: "json \<Rightarrow> json \<Rightarrow> gin \<Rightarrow> gin" where
  "ResultFailData data err = respond (JSON 200 (JObject [(''code'', JInt 400), (''data'', data), (''msg'', err)]))"

definition ResponseSuccess :: "json \<Rightarrow> gin \<Rightarrow> gin" where
  "ResponseSuccess Data = ResultOk Data"

definition ResponseError :: "json \<Rightarrow> gin \<Rightarrow> gin" where
  "ResponseError err = ResultFail err"

definition Redirect :: "string \<Rightarrow> gin \<Rightarrow> gin" where
  "Redirect uri = respond (Redirected 302 uri)"

definition pong :: "string \<Rightarrow> gin \<Rightarrow> gin" where
  "pong p = respond (JSON 200 (JObject [(''data'', JString p), (''msg'', JString ''pong''), (''result'', JInt 1)]))"

section \<open>Unknown routes\<close>

definition TrimSuffix :: "string \<Rightarrow> string \<Rightarrow> string" where
  "TrimSuffix s suf = (if suffix suf s then take (length s - length suf) s else s)"

fun contains_text :: "string \<Rightarrow> string \<Rightarrow> bool" where
  "contains_text [] t = (t = [])"
| "contains_text (c # s) t = (prefix t (c # s) \<or> contains_text s t)"

definition page_uri :: "string \<Rightarrow> string" where
  "page_uri uri = TrimSuffix (dropWhile (\<lambda>c. c = CHR ''/'') uri) ''.shtml''"

definition isAjax :: "gin \<Rightarrow> bool" where
  "isAjax c \<longleftrightarrow> GetHeader ''X-Requested-With'' c = ''XMLHttpRequest''"

definition isPage :: "gin \<Rightarrow> bool" where
  "isPage c \<longleftrightarrow> contains_text (RequestURI c) ''.shtml''"

definition NoMethod :: "gin \<Rightarrow> gin" where
  "NoMethod c =
     (let uri = page_uri (RequestURI c) in
      if isPage c then respond (HTML 200 (uri @ ''.html'')) c
      else if isAjax c then respond (JSON 200 JNull) c else c)"

definition NoRoute :: "(string \<Rightarrow> int) \<Rightarrow> gin \<Rightarrow> gin" where
  "NoRoute urimap c =
     (let uri = page_uri (RequestURI c) in
      if urimap uri < 0 then NoMethod c
      else if isPage c then respond (HTML 200 (uri @ ''.html'')) c
      else if isAjax c then respond (JSON 200 JNull) c else c)"

section \<open>Middleware\<close>

definition Error_middleware :: "(gin \<Rightarrow> gin go) \<Rightarrow> gin \<Rightarrow> gin go" where
  "Error_middleware nxt c =
     go_bind (nxt c) (\<lambda>c1. Ret (if g_errors c1 \<noteq> [] then respond (JSON 400 (JErrors (g_errors c1))) c1 else c1))"

text \<open>
  \<open>JsonParam\<close>: \<open>g_body\<close> is the text and the error of reading the body, \<open>Unmarshal\<close> the decoded parameter. After a read error the request is aborted, with the
  status and the error recorded twice, and the rest is done all the same. Aborting skips the handlers that follow.
\<close>

definition JsonParam :: "(string \<Rightarrow> json option) \<Rightarrow> (gin \<Rightarrow> gin go) \<Rightarrow> gin \<Rightarrow> gin go" where
  "JsonParam Unmarshal nxt c =
     (let (body, read_err) = g_body c;
          c1 = (case read_err of
                  Some err \<Rightarrow> (respond (StatusOnly 403) c)\<lparr>g_aborted := True, g_errors := g_errors c @ [err, err]\<rparr>
                | None \<Rightarrow> c);
          c2 = c1\<lparr>g_keys := AList.update ''raw-data'' (JString body) (g_keys c1), g_body := (body, None)\<rparr>;
          c3 = (if body \<noteq> [] then
                  (case Unmarshal body of None \<Rightarrow> c2 | Some p \<Rightarrow> c2\<lparr>g_keys := AList.update ''json-param'' p (g_keys c2)\<rparr>)
                else c2)
      in if g_aborted c3 then Ret c3 else nxt c3)"

text \<open>
  \<open>Recovery\<close>: what the handlers wrote before a panic stays written. \<open>unwound\<close> is the request as the panicking handlers left it.
\<close>

definition Recovery :: "(gin \<Rightarrow> gin) \<Rightarrow> (gin \<Rightarrow> gin go) \<Rightarrow> gin \<Rightarrow> gin" where
  "Recovery unwound nxt c =
     (case nxt c of
        Ret c1 \<Rightarrow> c1
      | Panic p \<Rightarrow> (respond (StatusOnly 500) (unwound c))\<lparr>g_aborted := True\<rparr>)"

text \<open>
  \<open>Logger\<close>: the line that is logged after a request. What gin knows of the request afterwards (its status, the address of the client, the texts of its
  errors) and the two readings of the clock are parameters. When the handlers panic, nothing is logged.
\<close>

record request_env =
  re_path :: string
  re_method :: string
  re_clientIP :: string
  re_status :: "gin \<Rightarrow> int"
  re_errors :: "string list \<Rightarrow> string"
  re_start :: int
  re_end :: int

definition pad3 :: "int \<Rightarrow> string" where
  "pad3 n = replicate (3 - length (Itoa n)) (CHR '' '') @ Itoa n"

definition request_line :: "request_env \<Rightarrow> gin \<Rightarrow> string" where
  "request_line env c =
     ''Common:'' @ pad3 (re_status env c) @ '' | '' @ Duration_String (re_end env - re_start env) @ '' | '' @ re_clientIP env
     @ '' |  '' @ re_method env @ ''  '' @ re_path env @ '' Headers:'' @ GetHeader ''Common-Params'' c @ '' Errors:'' @ re_errors env (g_errors c)
     @ [CHR 0x60]"

definition Logger_middleware :: "request_env \<Rightarrow> (gin \<Rightarrow> gin go) \<Rightarrow> gin \<Rightarrow> (gin \<times> string) go" where
  "Logger_middleware env nxt c = go_bind (nxt c) (\<lambda>c1. Ret (c1, request_line env c1))"

text \<open>The handler \<open>XSS\<close> is empty.\<close>

definition XSS :: "gin \<Rightarrow> gin" where
  "XSS c = c"

section \<open>The stack of a recovered panic\<close>

definition dunno :: string where
  "dunno = ''???''"

text \<open>The middle dot in UTF-8, and \<open>bytes.Replace\<close> of all of them by a full stop.\<close>

definition centerDot :: string where
  "centerDot = [CHR 0xC2, CHR 0xB7]"

fun replace_dots :: "string \<Rightarrow> string" where
  "replace_dots (a # b # s) = (if [a, b] = centerDot then CHR ''.'' # replace_dots s else a # replace_dots (b # s))"
| "replace_dots s = s"

definition function_name :: "string option \<Rightarrow> string" where
  "function_name fn =
     (case fn of
        None \<Rightarrow> dunno
      | Some name \<Rightarrow>
          let lastslash = LastIndex name (CHR ''/'');
              name1 = (if 0 \<le> lastslash then drop (nat (lastslash + 1)) name else name);
              period = Index name1 (CHR ''.'');
              name2 = (if 0 \<le> period then drop (nat (period + 1)) name1 else name1)
          in replace_dots name2)"

text \<open>\<open>bytes.TrimSpace\<close>: the encodings of the runes with the property White Space are removed at both ends.\<close>

definition space_runes :: "rune list" where
  "space_runes = [9, 10, 11, 12, 13, 32, 0x85, 0xA0, 0x1680] @ [0x2000..<0x200B] @ [0x2028, 0x2029, 0x202F, 0x205F, 0x3000]"

definition space_at :: "(string \<Rightarrow> string \<Rightarrow> bool) \<Rightarrow> string \<Rightarrow> string option" where
  "space_at at s = List.find (\<lambda>e. at e s) (map encoderune space_runes)"

function trim_left :: "string \<Rightarrow> string" where
  "trim_left s = (case space_at prefix s of None \<Rightarrow> s | Some e \<Rightarrow> trim_left (drop (length e) s))"
  by pat_completeness auto
termination
proof (relation "measure length")
  fix s e assume "space_at prefix s = Some e"
  then have "e \<in> encoderune ` set space_runes" "prefix e s" using find_index(1) [of _ _ e] by (fastforce simp: space_at_def)+
  then have "e \<noteq> []" "length e \<le> length s" by (auto simp: prefix_length_le)
  then show "(drop (length e) s, s) \<in> measure length" by (cases s) auto
qed simp

function trim_right :: "string \<Rightarrow> string" where
  "trim_right s = (case space_at suffix s of None \<Rightarrow> s | Some e \<Rightarrow> trim_right (take (length s - length e) s))"
  by pat_completeness auto
termination
proof (relation "measure length")
  fix s e assume "space_at suffix s = Some e"
  then have "e \<in> encoderune ` set space_runes" "suffix e s" using find_index(1) [of _ _ e] by (fastforce simp: space_at_def)+
  then have "e \<noteq> []" "length e \<le> length s" by (auto simp: suffix_length_le)
  then show "(take (length s - length e) s, s) \<in> measure length" by (cases s) auto
qed simp

declare trim_left.simps [simp del] trim_right.simps [simp del]

definition source :: "string list \<Rightarrow> int \<Rightarrow> string" where
  "source lines n =
     (let n1 = n - 1 in
      if n1 < 0 \<or> int (length lines) \<le> n1 then dunno else trim_right (trim_left (lines ! nat n1)))"

fun hex_text :: "nat \<Rightarrow> string" where
  "hex_text n = (if n < 16 then [''0123456789abcdef'' ! n] else hex_text (n div 16) @ [''0123456789abcdef'' ! (n mod 16)])"

declare hex_text.simps [simp del]

fun split_lines :: "string \<Rightarrow> string list" where
  "split_lines [] = [[]]"
| "split_lines (c # s) =
     (if c = CHR 0x0A then [] # split_lines s
      else case split_lines s of l # ls \<Rightarrow> (c # l) # ls | [] \<Rightarrow> [[c]])"

text \<open>A frame is its program counter, its file and its line; \<open>skip\<close> of them are left out.\<close>

record go_frame =
  fr_pc :: nat
  fr_file :: string
  fr_line :: int

fun stack_loop :: "(string \<Rightarrow> string option) \<Rightarrow> (nat \<Rightarrow> string option) \<Rightarrow> string list \<Rightarrow> string \<Rightarrow> go_frame list \<Rightarrow> string" where
  "stack_loop ReadFile FuncForPC lines lastFile [] = []"
| "stack_loop ReadFile FuncForPC lines lastFile (f # fs) =
     (let h = fr_file f @ '':'' @ Itoa (fr_line f) @ '' (0x'' @ hex_text (fr_pc f) @ '')'' @ [CHR 0x0A];
          entry = (\<lambda>lines. [CHR 0x09] @ function_name (FuncForPC (fr_pc f)) @ '': '' @ source lines (fr_line f) @ [CHR 0x0A])
      in if fr_file f \<noteq> lastFile then
           (case ReadFile (fr_file f) of
              None \<Rightarrow> h @ stack_loop ReadFile FuncForPC lines lastFile fs
            | Some data \<Rightarrow>
                let lines1 = split_lines data in h @ entry lines1 @ stack_loop ReadFile FuncForPC lines1 (fr_file f) fs)
         else h @ entry lines @ stack_loop ReadFile FuncForPC lines lastFile fs)"

definition stack_text :: "(string \<Rightarrow> string option) \<Rightarrow> (nat \<Rightarrow> string option) \<Rightarrow> go_frame list \<Rightarrow> nat \<Rightarrow> string" where
  "stack_text ReadFile FuncForPC frames skip = stack_loop ReadFile FuncForPC [] [] (drop skip frames)"

section \<open>Properties\<close>

text \<open>A request without a route is answered exactly like one without a method, whatever the counters of the pages are: a page for an address with the page
  suffix, an empty JSON value for a script, and nothing otherwise.\<close>

lemma NoRoute_eq_NoMethod: "NoRoute urimap c = NoMethod c"
  by (simp add: NoRoute_def NoMethod_def Let_def)

text \<open>C39: the name printed for a frame of a recovered panic whose function is known is the name that the error package prints for it, with the middle dots turned into full stops.\<close>

theorem function_name_eq_funcname: "function_name (Some name) = replace_dots (funcname name)"
proof -
  have "LastIndex s c = -1 \<or> 0 \<le> LastIndex s c" for s c
  proof (cases "c \<in> set s")
    case True
    then have "takeWhile (\<lambda>x. x \<noteq> c) (rev s) \<noteq> rev s" by (auto simp: takeWhile_eq_all_conv)
    then have "length (after_last c s) \<noteq> length s" unfolding after_last_def by (metis length_rev takeWhile_eq_take take_all_iff order_refl)
    moreover have "length (after_last c s) \<le> length s" unfolding after_last_def by (metis length_rev length_takeWhile_le)
    ultimately show ?thesis by (simp add: LastIndex_def)
  qed (simp add: LastIndex_def)
  moreover have "Index s c = -1 \<or> 0 \<le> Index s c" for s c by (simp add: Index_def)
  ultimately have l: "(if 0 \<le> LastIndex s c then drop (nat (LastIndex s c + 1)) s else s) = drop (nat (LastIndex s c + 1)) s"
    and i: "(if 0 \<le> Index s c then drop (nat (Index s c + 1)) s else s) = drop (nat (Index s c + 1)) s" for s c
    by (smt (verit) drop0 nat_0_iff)+
  show ?thesis by (simp add: function_name_def funcname_def Let_def l i)
qed

text \<open>With the recovery in front, no panic of the handlers leaves the server: the request ends with the status 500 after what was already written, is
  aborted, and requests without a panic are not changed.\<close>

lemma Recovery_contains_panics:
  "(case nxt c of
      Ret c1 \<Rightarrow> Recovery unwound nxt c = c1
    | Panic p \<Rightarrow> g_aborted (Recovery unwound nxt c) \<and> g_responses (Recovery unwound nxt c) = g_responses (unwound c) @ [StatusOnly 500])"
  by (simp add: Recovery_def split: go.split)

text \<open>For a body that can be read, the handlers behind the parameter middleware see the raw text under its key and can read the same body again, and they see the
  decoded parameter exactly if the body decodes; a body that cannot be read aborts the request, and no handler runs.\<close>

lemma JsonParam_passes_body:
  assumes "\<not> g_aborted c" and "map_of (g_keys c) ''json-param'' = None"
  shows "case g_body c of
      (body, Some err) \<Rightarrow> (\<exists>c'. JsonParam Unmarshal nxt c = Ret c' \<and> g_aborted c' \<and> last (g_responses c') = StatusOnly 403)
    | (body, None) \<Rightarrow> (\<exists>c'. JsonParam Unmarshal nxt c = nxt c' \<and> g_body c' = (body, None) \<and> map_of (g_keys c') ''raw-data'' = Some (JString body)
         \<and> map_of (g_keys c') ''json-param'' = (if body = [] then None else Unmarshal body) \<and> g_responses c' = g_responses c)"
  using assms by (auto simp: JsonParam_def Let_def update_conv' split: prod.split option.split)

text \<open>The usual chain, with the recovery outermost: errors that the handlers recorded are answered with the status 400.\<close>

lemma middleware_chain:
  assumes "\<not> g_aborted c" and "g_body c = (body, None)" and "\<And>x. nxt x = Ret (x\<lparr>g_errors := g_errors x @ es\<rparr>)"
  shows "\<exists>c'. Recovery unwound (Error_middleware (JsonParam Unmarshal nxt)) c = c'
    \<and> g_responses c' = g_responses c @ (if g_errors c @ es = [] then [] else [JSON 400 (JErrors (g_errors c @ es))])"
  using assms by (auto simp: Recovery_def Error_middleware_def JsonParam_def Let_def split: option.split)

text \<open>The logger passes on what the handlers did, and its line has the status and the path of the request.\<close>

lemma Logger_passes:
  "Logger_middleware env nxt c = Ret (c1, line) \<longleftrightarrow> nxt c = Ret c1 \<and> line = request_line env c1"
  "\<exists>a b. request_line env c1 = ''Common:'' @ pad3 (re_status env c1) @ a @ re_path env @ b"
proof -
  show "Logger_middleware env nxt c = Ret (c1, line) \<longleftrightarrow> nxt c = Ret c1 \<and> line = request_line env c1"
    by (auto simp: Logger_middleware_def)
  have "request_line env c1 = ''Common:'' @ pad3 (re_status env c1)
      @ ('' | '' @ Duration_String (re_end env - re_start env) @ '' | '' @ re_clientIP env @ '' |  '' @ re_method env @ ''  '')
      @ re_path env @ ('' Headers:'' @ GetHeader ''Common-Params'' c1 @ '' Errors:'' @ re_errors env (g_errors c1) @ [CHR 0x60])"
    by (simp add: request_line_def)
  then show "\<exists>a b. request_line env c1 = ''Common:'' @ pad3 (re_status env c1) @ a @ re_path env @ b" by blast
qed

end
