(* ===== verification/J7f_Util.thy ===== *)
theory J7f_Util
  imports J7f_Prelude "HOL-Library.AList" "HOL-Library.Sublist"
begin

text \<open>
  Small parts: the JSON column type (\<open>types/type_JSON.go\<close>), metadata, local addresses and struct conversion (\<open>util/helper.go\<close>,
  \<open>util/reflect.go\<close>), the configuration of the logger (\<open>components/log/zap.go\<close>), the request helper and the log levels of the message
  queue (\<open>components/mq/api_request.go\<close>, \<open>components/mq/consumer.go\<close>). Encoders, network calls and log output are parameters.
\<close>

section \<open>The JSON column\<close>

text \<open>A value is a slice of bytes, which may be nil.\<close>

type_synonym JSON_col = "string option"

datatype sql_value = SqlNull | SqlBytes string | SqlText string | SqlOther

definition bytes_of :: "JSON_col \<Rightarrow> string" where
  "bytes_of j = (case j of None \<Rightarrow> [] | Some b \<Rightarrow> b)"

definition IsNull :: "JSON_col \<Rightarrow> bool" where
  "IsNull j \<longleftrightarrow> bytes_of j = ''null''"

definition Value :: "JSON_col \<Rightarrow> sql_value" where
  "Value j = (if IsNull j then SqlNull else SqlText (bytes_of j))"

text \<open>Appending nothing to a nil slice leaves it nil. The error of a value that is not bytes is made and dropped.\<close>

definition append_slice :: "JSON_col \<Rightarrow> string \<Rightarrow> JSON_col" where
  "append_slice j s = (if j = None \<and> s = [] then None else Some (bytes_of j @ s))"

definition Scan :: "sql_value \<Rightarrow> JSON_col \<Rightarrow> JSON_col" where
  "Scan v j = (case v of SqlNull \<Rightarrow> None | SqlBytes s \<Rightarrow> append_slice j s | _ \<Rightarrow> append_slice j [])"

definition MarshalJSON :: "JSON_col \<Rightarrow> string" where
  "MarshalJSON j = (case j of None \<Rightarrow> ''null'' | Some b \<Rightarrow> b)"

definition UnmarshalJSON :: "string \<Rightarrow> JSON_col option \<Rightarrow> (string option \<times> JSON_col option)" where
  "UnmarshalJSON data m =
     (case m of None \<Rightarrow> (Some ''null point exception'', None) | Some j \<Rightarrow> (None, Some (append_slice j data)))"

definition Equals :: "JSON_col \<Rightarrow> JSON_col \<Rightarrow> bool" where
  "Equals j j1 \<longleftrightarrow> bytes_of j = bytes_of j1"

section \<open>Metadata, addresses and structs\<close>

definition GetMetaData :: "(string \<rightharpoonup> string list) option \<Rightarrow> string \<Rightarrow> string go" where
  "GetMetaData ctx meta =
     (case ctx of
        None \<Rightarrow> Ret (''mock-metadata-'' @ meta)
      | Some md \<Rightarrow> (case md meta of None \<Rightarrow> Ret (''mock-metadata-'' @ meta) | Some vals \<Rightarrow> go_index vals 0))"

record address =
  ad_IsIPNet :: bool
  ad_Loopback :: bool
  ad_To4 :: bool
  ad_String :: string

record interface =
  if_Up :: bool
  if_Addrs :: "address list"

definition GetLocalIps :: "interface list \<Rightarrow> string list" where
  "GetLocalIps ifs =
     fold (\<lambda>i ips.
       if if_Up i then
         fold (\<lambda>a ips. if ad_IsIPNet a \<and> \<not> ad_Loopback a then if ad_To4 a then ips @ [ad_String a] else ips else ips) (if_Addrs i) ips
       else ips) ifs []"

record 'v field =
  fd_Name :: string
  fd_Tag :: string
  fd_Value :: 'v

definition Struct2Map :: "'v field list \<Rightarrow> (string \<times> 'v) list" where
  "Struct2Map fs = fold (\<lambda>f. AList.update (if fd_Tag f = [] then fd_Name f else fd_Tag f) (fd_Value f)) fs []"

section \<open>The logger\<close>

datatype log_level = LDebug | LInfo | LWarn | LError

record EncoderConfig =
  MessageKey :: string
  LevelKey :: string
  TimeKey :: string
  NameKey :: string
  CallerKey :: string
  StacktraceKey :: string
  LineEnding :: string

record log_config =
  lg_Level :: string
  lg_Encoding :: string
  lg_Encoder :: EncoderConfig
  lg_OutputPaths :: "string list"
  lg_ErrorOutputPaths :: "string list"
  lg_InitialFields :: "(string \<times> string) list"

text \<open>The configuration of the library, with the encoders by name; \<open>'l\<close> is its type of levels.\<close>

datatype encoder =
    CapitalLevelEncoder | LowercaseLevelEncoder | CSTTime | EpochTimeEncoder
  | StringDurationEncoder | SecondsDurationEncoder | ShortCallerEncoder

record 'l zap_config =
  zc_Level :: 'l
  zc_Development :: bool
  zc_Sampling :: "int \<times> int"
  zc_Encoding :: string
  zc_Encoder :: EncoderConfig
  zc_EncodeLevel :: encoder
  zc_EncodeTime :: encoder
  zc_EncodeDuration :: encoder
  zc_EncodeCaller :: encoder
  zc_OutputPaths :: "string list"
  zc_ErrorOutputPaths :: "string list"
  zc_InitialFields :: "(string \<times> string) list"

definition or_default :: "string \<Rightarrow> string \<Rightarrow> string" where
  "or_default s d = (if s = [] then d else s)"

definition default_encoder :: "EncoderConfig \<Rightarrow> EncoderConfig" where
  "default_encoder e = e\<lparr>TimeKey := or_default (TimeKey e) ''T'', LevelKey := or_default (LevelKey e) ''L'',
     NameKey := or_default (NameKey e) ''N'', CallerKey := or_default (CallerKey e) ''C'', MessageKey := or_default (MessageKey e) ''M'',
     StacktraceKey := or_default (StacktraceKey e) ''S''\<rparr>"

definition DefaultLineEnding :: string where
  "DefaultLineEnding = [CHR 0x0A]"

text \<open>
  \<open>Parse\<close> reads a level or gives an error, \<open>InfoEnabled\<close> says whether a level enables informational messages, and \<open>Build\<close> is the error of
  building the logger. The configuration is passed by pointer, so the defaults are written back to it.
\<close>

definition NewZap :: "(string \<Rightarrow> string + 'l) \<Rightarrow> ('l \<Rightarrow> bool) \<Rightarrow> ('l zap_config \<Rightarrow> string option) \<Rightarrow> log_config
    \<Rightarrow> 'l zap_config option \<times> string option \<times> log_config" where
  "NewZap Parse InfoEnabled Build logCfg =
     (case Parse (lg_Level logCfg) of
        Inl err \<Rightarrow> (None, Some err, logCfg)
      | Inr ll \<Rightarrow>
          let isDebugMode = InfoEnabled ll;
              cfg1 = logCfg\<lparr>lg_Encoder := default_encoder (lg_Encoder logCfg)\<rparr>;
              cfg2 = (if lg_OutputPaths cfg1 = [] then cfg1\<lparr>lg_OutputPaths := [''stderr'']\<rparr> else cfg1);
              cfg3 = (if lg_ErrorOutputPaths cfg2 = [] then cfg2\<lparr>lg_ErrorOutputPaths := [''stderr'']\<rparr> else cfg2);
              z = \<lparr>zc_Level = ll, zc_Development = isDebugMode, zc_Sampling = (100, 100), zc_Encoding = lg_Encoding cfg3,
                   zc_Encoder = (lg_Encoder cfg3)\<lparr>LineEnding := DefaultLineEnding\<rparr>,
                   zc_EncodeLevel = (if isDebugMode then CapitalLevelEncoder else LowercaseLevelEncoder),
                   zc_EncodeTime = (if isDebugMode then CSTTime else EpochTimeEncoder),
                   zc_EncodeDuration = (if isDebugMode then StringDurationEncoder else SecondsDurationEncoder),
                   zc_EncodeCaller = ShortCallerEncoder,
                   zc_OutputPaths = lg_OutputPaths cfg3, zc_ErrorOutputPaths = lg_ErrorOutputPaths cfg3, zc_InitialFields = []\<rparr>
          in (Some z, Build z, cfg3))"

text \<open>The field a logger with a trace adds, if any.\<close>

definition Trace :: "(string \<rightharpoonup> string list) option option \<Rightarrow> string option go" where
  "Trace ctx =
     (case ctx of
        None \<Rightarrow> Ret None
      | Some None \<Rightarrow> Ret None
      | Some (Some md) \<Rightarrow>
          (case md ''trace_id'' of None \<Rightarrow> Ret None | Some ids \<Rightarrow> go_bind (go_index ids 0) (\<lambda>t. Ret (Some t))))"

definition Write :: "string \<Rightarrow> (log_level \<times> string) \<times> int" where
  "Write p = ((LDebug, ''HTTP: '' @ p), int (length p))"

definition Output :: "string \<Rightarrow> (log_level \<times> string) option go" where
  "Output s =
     go_bind (go_slice s 0 3) (\<lambda>h.
       Ret (if h = ''INF'' then Some (LInfo, s) else if h = ''WRN'' then Some (LWarn, s)
            else if h = ''ERR'' then Some (LError, s) else if h = ''DBG'' then Some (LDebug, s) else None))"

section \<open>The message queue\<close>

definition SetLogger :: "string \<Rightarrow> log_level" where
  "SetLogger lvl =
     (if lvl = ''info'' then LInfo else if lvl = ''error'' then LError else if lvl = ''warning'' then LWarn else LDebug)"

text \<open>
  The answer of an HTTP request: its status, whether it declares version 1 of the protocol, and the error or the text of its body. \<open>Unmarshal\<close>
  decodes a body, plain or wrapped in an envelope.
\<close>

record http_answer =
  an_StatusCode :: int
  an_Status :: string
  an_V1 :: bool
  an_Body :: "string + string"

definition apiRequestNegotiateV1 ::
  "(string \<Rightarrow> string option) \<Rightarrow> (string + http_answer) \<Rightarrow> (string \<Rightarrow> string) \<Rightarrow> (bool \<Rightarrow> string \<Rightarrow> string + 'r) \<Rightarrow> string \<Rightarrow> string + 'r" where
  "apiRequestNegotiateV1 NewRequest answer quote Unmarshal endpoint =
     (case NewRequest endpoint of
        Some err \<Rightarrow> Inl err
      | None \<Rightarrow>
          (case answer of
             Inl err \<Rightarrow> Inl err
           | Inr resp \<Rightarrow>
               (case an_Body resp of
                  Inl err \<Rightarrow> Inl err
                | Inr respBody \<Rightarrow>
                    if an_StatusCode resp \<noteq> 200 then Inl (''got response '' @ an_Status resp @ '' '' @ quote respBody)
                    else Unmarshal (an_V1 resp) (if length respBody = 0 then ''{}'' else respBody))))"

section \<open>Properties\<close>

text \<open>A value read into an empty column and written again is the value that was read, except for the text \<open>null\<close>, which is written as SQL NULL; SQL NULL
  itself is written back as an empty text. Reading into a column that holds a value appends to it.\<close>

lemma JSON_column_round_trip:
  "Value (Scan (SqlBytes s) None) = (if s = ''null'' then SqlNull else SqlText s) \<and> Value (Scan SqlNull j) = SqlText []
    \<and> Scan (SqlBytes s) (Some old) = Some (old @ s)"
  by (simp add: Value_def Scan_def IsNull_def append_slice_def bytes_of_def)

text \<open>The keys of a converted struct are the tags of its fields, or their names where there is no tag; each key has the value of the last field with
  that key.\<close>

lemma Struct2Map_lookup:
  "map_of (Struct2Map fs) k = map_option fd_Value (List.find (\<lambda>f. (if fd_Tag f = [] then fd_Name f else fd_Tag f) = k) (rev fs))"
proof -
  let ?key = "\<lambda>f. if fd_Tag f = [] then fd_Name f else fd_Tag f"
  have find_append: "List.find P (xs @ ys) = (case List.find P xs of None \<Rightarrow> List.find P ys | Some x \<Rightarrow> Some x)" for P and xs ys :: "'v field list"
    by (induction xs) auto
  have "map_of (fold (\<lambda>f. AList.update (?key f) (fd_Value f)) fs m) k =
      (case List.find (\<lambda>f. ?key f = k) (rev fs) of None \<Rightarrow> map_of m k | Some f \<Rightarrow> Some (fd_Value f))" for m
    by (induction fs arbitrary: m) (auto simp: update_conv' find_append split: option.split)
  from this [of "[]"] show ?thesis by (simp add: Struct2Map_def split: option.split)
qed

lemma GetLocalIps_eq:
  "GetLocalIps ifs = map ad_String (List.filter (\<lambda>a. ad_IsIPNet a \<and> \<not> ad_Loopback a \<and> ad_To4 a) (concat (map if_Addrs (List.filter if_Up ifs))))"
proof -
  let ?P = "\<lambda>a. ad_IsIPNet a \<and> \<not> ad_Loopback a \<and> ad_To4 a"
  have one: "fold (\<lambda>a ips. if ad_IsIPNet a \<and> \<not> ad_Loopback a then if ad_To4 a then ips @ [ad_String a] else ips else ips) as ips
      = ips @ map ad_String (List.filter ?P as)" for as ips
    by (induction as arbitrary: ips) auto
  have "fold (\<lambda>i ips. if if_Up i
        then fold (\<lambda>a ips. if ad_IsIPNet a \<and> \<not> ad_Loopback a then if ad_To4 a then ips @ [ad_String a] else ips else ips) (if_Addrs i) ips
        else ips) ifs ips = ips @ map ad_String (List.filter ?P (concat (map if_Addrs (List.filter if_Up ifs))))" for ips
    by (induction ifs arbitrary: ips) (auto simp: one)
  from this [of "[]"] show ?thesis by (simp add: GetLocalIps_def)
qed

lemma Output_short: "length s < 3 \<Longrightarrow> Output s = Panic SliceOutOfRange"
  by (simp add: Output_def go_slice_def)

text \<open>A built logger has a name for each of its keys and somewhere to write to, and these are written back to the configuration. The line ending
  and the initial fields of the configuration have no effect.\<close>

lemma NewZap_defaults:
  assumes "NewZap Parse InfoEnabled Build cfg = (Some z, err, cfg')"
  shows "TimeKey (zc_Encoder z) \<noteq> [] \<and> LevelKey (zc_Encoder z) \<noteq> [] \<and> MessageKey (zc_Encoder z) \<noteq> [] \<and> NameKey (zc_Encoder z) \<noteq> []
    \<and> CallerKey (zc_Encoder z) \<noteq> [] \<and> StacktraceKey (zc_Encoder z) \<noteq> [] \<and> zc_OutputPaths z \<noteq> [] \<and> zc_ErrorOutputPaths z \<noteq> []
    \<and> zc_OutputPaths z = lg_OutputPaths cfg' \<and> zc_ErrorOutputPaths z = lg_ErrorOutputPaths cfg'
    \<and> zc_InitialFields z = [] \<and> LineEnding (zc_Encoder z) = DefaultLineEnding"
proof -
  have keys: "or_default s d \<noteq> [] \<longleftrightarrow> s \<noteq> [] \<or> d \<noteq> []" for s d by (simp add: or_default_def)
  obtain m where "Parse (lg_Level cfg) = Inr m" using assms by (cases "Parse (lg_Level cfg)") (simp_all add: NewZap_def)
  moreover have "z = the (fst (NewZap Parse InfoEnabled Build cfg))" "cfg' = snd (snd (NewZap Parse InfoEnabled Build cfg))" using assms by simp_all
  ultimately show ?thesis by (simp add: NewZap_def Let_def default_encoder_def keys)
qed

text \<open>Encoding and decoding into an empty column gives an equal column, except that nil comes back as the text \<open>null\<close>.\<close>

lemma JSON_marshal_round_trip:
  "UnmarshalJSON (MarshalJSON (Some b)) (Some None) = (None, Some c) \<Longrightarrow> Equals c (Some b)"
  "UnmarshalJSON (MarshalJSON None) (Some None) = (None, Some (Some ''null''))"
  by (auto simp: UnmarshalJSON_def MarshalJSON_def append_slice_def Equals_def bytes_of_def split: if_splits)

text \<open>Both readers of the metadata panic on a key without values.\<close>

lemma metadata_without_values:
  "md k = Some [] \<Longrightarrow> GetMetaData (Some md) k = Panic IndexOutOfRange"
  "md ''trace_id'' = Some [] \<Longrightarrow> Trace (Some (Some md)) = Panic IndexOutOfRange"
  by (simp_all add: GetMetaData_def Trace_def go_index_def)

text \<open>A result of a lookup request comes from an answer with the status 200; an empty body counts as an empty object.\<close>

lemma apiRequest_result:
  "apiRequestNegotiateV1 NewRequest answer quote Unmarshal endpoint = Inr r \<Longrightarrow>
     \<exists>resp body. answer = Inr resp \<and> an_StatusCode resp = 200 \<and> an_Body resp = Inr body
       \<and> Unmarshal (an_V1 resp) (if body = [] then ''{}'' else body) = Inr r"
  by (auto simp: apiRequestNegotiateV1_def split: option.splits sum.splits if_splits)

end
