(* ===== verification/Mq_Config.thy ===== *)
theory Mq_Config
  imports J7f_Util
begin

text \<open>
  The configuration of the message queue (\<open>components/mq/config.go\<close>) and the constructor of a consumer (\<open>components/mq/consumer.go\<close>). A
  configuration is turned into a map by \<open>Struct2Map\<close> and passed to the setter of the NSQ library value by value. The order in which Go
  iterates over a map is not fixed: it is an argument here, and the results do not depend on it.
\<close>

section \<open>Values\<close>

text \<open>
  The dynamic types of the values. An interface that holds no value is \<open>VNil\<close>; a nil pointer to a TLS configuration is a value of its type. A
  floating-point number is given by its bits.
\<close>

datatype cfg_value =
    VInt int | VString string | VDuration int | VBool bool | VNil
  | VInt64 int | VUint16 int | VFloat64 int | VTls "nat option" | VAddr string

text \<open>A comparison of an interface value with a constant compares the types first; the constant 0 has the type \<open>int\<close>.\<close>

definition isEmpty :: "cfg_value \<Rightarrow> bool" where
  "isEmpty value =
     (case value of
        VInt _ \<Rightarrow> (if value = VInt 0 then True else False)
      | VString _ \<Rightarrow> (if value = VString [] then False else False)
      | VDuration _ \<Rightarrow> (if value = VInt 0 then True else False)
      | VBool _ \<Rightarrow> (if value = VBool False then True else False)
      | VNil \<Rightarrow> True
      | _ \<Rightarrow> False)"

section \<open>The configuration\<close>

record mq_Config =
  c_DialTimeout :: int
  c_ReadTimeout :: int
  c_WriteTimeout :: int
  c_LocalAddr :: "string option"
  c_LookupdPollInterval :: int
  c_LookupdPollJitter :: int
  c_MaxRequeueDelay :: int
  c_DefaultRequeueDelay :: int
  c_MaxAttempts :: int
  c_HeartbeatInterval :: int
  c_TlsV1 :: bool
  c_TlsConfig :: "nat option"
  c_Deflate :: bool
  c_DeflateLevel :: int
  c_Snappy :: bool
  c_OutputBufferSize :: int
  c_OutputBufferTimeout :: int
  c_MaxInFlight :: int
  c_MsgTimeout :: int
  c_PoolCap :: int
  c_Concurrency :: int

text \<open>What reflection finds: the names, tags and values of the fields, in the order of their declaration.\<close>

definition config_fields :: "mq_Config \<Rightarrow> cfg_value field list" where
  "config_fields c =
     [\<lparr>fd_Name = ''DialTimeout'', fd_Tag = ''dial_timeout'', fd_Value = VDuration (c_DialTimeout c)\<rparr>,
      \<lparr>fd_Name = ''ReadTimeout'', fd_Tag = ''read_timeout'', fd_Value = VDuration (c_ReadTimeout c)\<rparr>,
      \<lparr>fd_Name = ''WriteTimeout'', fd_Tag = ''write_timeout'', fd_Value = VDuration (c_WriteTimeout c)\<rparr>,
      \<lparr>fd_Name = ''LocalAddr'', fd_Tag = ''local_addr'', fd_Value = (case c_LocalAddr c of None \<Rightarrow> VNil | Some a \<Rightarrow> VAddr a)\<rparr>,
      \<lparr>fd_Name = ''LookupdPollInterval'', fd_Tag = ''lookupd_poll_interval'', fd_Value = VDuration (c_LookupdPollInterval c)\<rparr>,
      \<lparr>fd_Name = ''LookupdPollJitter'', fd_Tag = ''lookupd_poll_jitter'', fd_Value = VFloat64 (c_LookupdPollJitter c)\<rparr>,
      \<lparr>fd_Name = ''MaxRequeueDelay'', fd_Tag = ''max_requeue_delay'', fd_Value = VDuration (c_MaxRequeueDelay c)\<rparr>,
      \<lparr>fd_Name = ''DefaultRequeueDelay'', fd_Tag = ''default_requeue_delay'', fd_Value = VDuration (c_DefaultRequeueDelay c)\<rparr>,
      \<lparr>fd_Name = ''MaxAttempts'', fd_Tag = ''max_attempts'', fd_Value = VUint16 (c_MaxAttempts c)\<rparr>,
      \<lparr>fd_Name = ''HeartbeatInterval'', fd_Tag = ''heartbeat_interval'', fd_Value = VDuration (c_HeartbeatInterval c)\<rparr>,
      \<lparr>fd_Name = ''TlsV1'', fd_Tag = ''tls_v1'', fd_Value = VBool (c_TlsV1 c)\<rparr>,
      \<lparr>fd_Name = ''TlsConfig'', fd_Tag = ''tls_config'', fd_Value = VTls (c_TlsConfig c)\<rparr>,
      \<lparr>fd_Name = ''Deflate'', fd_Tag = ''deflate'', fd_Value = VBool (c_Deflate c)\<rparr>,
      \<lparr>fd_Name = ''DeflateLevel'', fd_Tag = ''deflate_level'', fd_Value = VInt (c_DeflateLevel c)\<rparr>,
      \<lparr>fd_Name = ''Snappy'', fd_Tag = ''snappy'', fd_Value = VBool (c_Snappy c)\<rparr>,
      \<lparr>fd_Name = ''OutputBufferSize'', fd_Tag = ''output_buffer_size'', fd_Value = VInt64 (c_OutputBufferSize c)\<rparr>,
      \<lparr>fd_Name = ''OutputBufferTimeout'', fd_Tag = ''output_buffer_timeout'', fd_Value = VDuration (c_OutputBufferTimeout c)\<rparr>,
      \<lparr>fd_Name = ''MaxInFlight'', fd_Tag = ''max_in_flight'', fd_Value = VInt (c_MaxInFlight c)\<rparr>,
      \<lparr>fd_Name = ''MsgTimeout'', fd_Tag = ''msg_timeout'', fd_Value = VDuration (c_MsgTimeout c)\<rparr>,
      \<lparr>fd_Name = ''PoolCap'', fd_Tag = ''pool_cap'', fd_Value = VInt (c_PoolCap c)\<rparr>,
      \<lparr>fd_Name = ''Concurrency'', fd_Tag = ''concurrency'', fd_Value = VInt (c_Concurrency c)\<rparr>]"

text \<open>
  \<open>Set\<close> is the setter of the library's configuration and \<open>initial\<close> the configuration it makes; a value that the setter refuses is skipped. The argument
  \<open>order\<close> is the order of iteration over the map.
\<close>

definition set_entry :: "(string \<Rightarrow> cfg_value \<Rightarrow> 'c \<Rightarrow> 'c option) \<Rightarrow> string \<times> cfg_value \<Rightarrow> 'c \<Rightarrow> 'c" where
  "set_entry Set = (\<lambda>(k, v) config.
     if \<not> isEmpty v then (case Set k v config of None \<Rightarrow> config | Some config' \<Rightarrow> config') else config)"

definition NewConfig ::
  "(string \<Rightarrow> cfg_value \<Rightarrow> 'c \<Rightarrow> 'c option) \<Rightarrow> 'c \<Rightarrow> ((string \<times> cfg_value) list \<Rightarrow> (string \<times> cfg_value) list) \<Rightarrow> mq_Config \<Rightarrow> 'c" where
  "NewConfig Set initial order cfg = fold (set_entry Set) (order (Struct2Map (config_fields cfg))) initial"

text \<open>\<open>New\<close> is the constructor of the library. The error of \<open>NewConfig\<close> is always nil.\<close>

definition NewConsumer ::
  "(string \<Rightarrow> string \<Rightarrow> 'c \<Rightarrow> string + 'n) \<Rightarrow> (string \<Rightarrow> cfg_value \<Rightarrow> 'c \<Rightarrow> 'c option) \<Rightarrow> 'c \<Rightarrow> ((string \<times> cfg_value) list \<Rightarrow> (string \<times> cfg_value) list)
    \<Rightarrow> string \<Rightarrow> string \<Rightarrow> mq_Config \<Rightarrow> 'n option \<times> string option" where
  "NewConsumer New Set initial order topic channel cfg =
     (case New topic channel (NewConfig Set initial order cfg) of Inl err \<Rightarrow> (None, Some err) | Inr consumer \<Rightarrow> (Some consumer, None))"

section \<open>Properties\<close>

lemma AList_update_fresh: "k \<notin> fst ` set al \<Longrightarrow> AList.update k v al = al @ [(k, v)]"
  by (induction al) auto

text \<open>A struct whose fields have different keys becomes the list of its keys and values.\<close>

lemma Struct2Map_distinct:
  assumes "distinct (map (\<lambda>f. if fd_Tag f = [] then fd_Name f else fd_Tag f) fs)"
  shows "Struct2Map fs = map (\<lambda>f. (if fd_Tag f = [] then fd_Name f else fd_Tag f, fd_Value f)) fs"
proof -
  let ?key = "\<lambda>f. if fd_Tag f = [] then fd_Name f else fd_Tag f"
  have "fold (\<lambda>f. AList.update (?key f) (fd_Value f)) fs al = al @ map (\<lambda>f. (?key f, fd_Value f)) fs"
    if "distinct (map fst al @ map ?key fs)" for al
    using that
  proof (induction fs arbitrary: al)
    case (Cons f fs)
    then have "?key f \<notin> fst ` set al" by auto
    from AList_update_fresh [OF this] Cons show ?case by auto
  qed simp
  from this [of "[]"] assms show ?thesis by (simp add: Struct2Map_def)
qed

text \<open>
  What the code relies on: setting a value changes the option with that name and no other one, and whether a value is
  accepted depends on the name and the value alone.
\<close>

definition setter_laws ::
  "(string \<Rightarrow> cfg_value \<Rightarrow> 'c \<Rightarrow> 'c option) \<Rightarrow> ('c \<Rightarrow> string \<Rightarrow> 'o) \<Rightarrow> (string \<Rightarrow> cfg_value \<Rightarrow> 'o option) \<Rightarrow> bool" where
  "setter_laws Set get stored \<longleftrightarrow>
     (\<forall>k v c. case stored k v of None \<Rightarrow> Set k v c = None | Some x \<Rightarrow> \<exists>c'. Set k v c = Some c' \<and> get c' = (get c)(k := x))"

lemma get_set_entry:
  assumes "setter_laws Set get stored"
  shows "get (set_entry Set (k, v) c) =
    (if isEmpty v then get c else case stored k v of None \<Rightarrow> get c | Some x \<Rightarrow> (get c)(k := x))"
proof -
  have "case stored k v of None \<Rightarrow> Set k v c = None | Some x \<Rightarrow> \<exists>c'. Set k v c = Some c' \<and> get c' = (get c)(k := x)"
    using assms by (simp add: setter_laws_def)
  then show ?thesis by (auto simp: set_entry_def split: option.splits)
qed

text \<open>The effect of one entry of the map on the option of its name.\<close>

definition setting :: "(string \<Rightarrow> cfg_value \<Rightarrow> 'o option) \<Rightarrow> string \<Rightarrow> cfg_value option \<Rightarrow> 'o \<Rightarrow> 'o" where
  "setting stored k v old =
     (case v of None \<Rightarrow> old | Some v \<Rightarrow> if isEmpty v then old else case stored k v of None \<Rightarrow> old | Some x \<Rightarrow> x)"

lemma get_fold_entries:
  assumes "setter_laws Set get stored"
  shows "distinct (map fst kvs) \<Longrightarrow> get (fold (set_entry Set) kvs c) k = setting stored k (map_of kvs k) (get c k)"
proof (induction kvs arbitrary: c)
  case Nil
  show ?case by (simp add: setting_def)
next
  case (Cons kv kvs)
  obtain k' v' where kv: "kv = (k', v')" by fastforce
  have "map_of kvs k' = None" using Cons.prems by (simp add: kv map_of_eq_None_iff)
  with Cons show ?case by (auto simp: kv setting_def get_set_entry [OF assms] split: option.split)
qed

lemma map_of_reorder: "distinct (map fst xs) \<Longrightarrow> mset ys = mset xs \<Longrightarrow> distinct (map fst ys) \<and> map_of ys = map_of xs"
  by (metis map_of_inject_set mset_eq_imp_distinct_iff mset_eq_setD mset_map)

lemma config_keys_distinct: "distinct (map (\<lambda>f. if fd_Tag f = [] then fd_Name f else fd_Tag f) (config_fields cfg))"
  by (simp add: config_fields_def)

lemma config_map: "Struct2Map (config_fields cfg) = map (\<lambda>f. (fd_Tag f, fd_Value f)) (config_fields cfg)"
  unfolding Struct2Map_distinct [OF config_keys_distinct] by (simp add: config_fields_def)

text \<open>
  What a configuration gives to the library, option by option: the durations and the numbers of other types than \<open>int\<close> always, also when they
  are zero; the flags that are set, the numbers of type \<open>int\<close> that are not zero, and the address if there is one.
\<close>

definition given :: "mq_Config \<Rightarrow> (string \<times> cfg_value) list" where
  "given c =
     [(''dial_timeout'', VDuration (c_DialTimeout c)), (''read_timeout'', VDuration (c_ReadTimeout c)), (''write_timeout'', VDuration (c_WriteTimeout c))]
     @ (case c_LocalAddr c of None \<Rightarrow> [] | Some a \<Rightarrow> [(''local_addr'', VAddr a)])
     @ [(''lookupd_poll_interval'', VDuration (c_LookupdPollInterval c)), (''lookupd_poll_jitter'', VFloat64 (c_LookupdPollJitter c)),
        (''max_requeue_delay'', VDuration (c_MaxRequeueDelay c)), (''default_requeue_delay'', VDuration (c_DefaultRequeueDelay c)),
        (''max_attempts'', VUint16 (c_MaxAttempts c)), (''heartbeat_interval'', VDuration (c_HeartbeatInterval c))]
     @ (if c_TlsV1 c then [(''tls_v1'', VBool True)] else [])
     @ [(''tls_config'', VTls (c_TlsConfig c))]
     @ (if c_Deflate c then [(''deflate'', VBool True)] else [])
     @ (if c_DeflateLevel c = 0 then [] else [(''deflate_level'', VInt (c_DeflateLevel c))])
     @ (if c_Snappy c then [(''snappy'', VBool True)] else [])
     @ [(''output_buffer_size'', VInt64 (c_OutputBufferSize c)), (''output_buffer_timeout'', VDuration (c_OutputBufferTimeout c))]
     @ (if c_MaxInFlight c = 0 then [] else [(''max_in_flight'', VInt (c_MaxInFlight c))])
     @ [(''msg_timeout'', VDuration (c_MsgTimeout c))]
     @ (if c_PoolCap c = 0 then [] else [(''pool_cap'', VInt (c_PoolCap c))])
     @ (if c_Concurrency c = 0 then [] else [(''concurrency'', VInt (c_Concurrency c))])"

lemma filter_Cons_append: "List.filter P (x # xs) = (if P x then [x] else []) @ List.filter P xs"
  by simp

lemma given_eq: "given c = List.filter (\<lambda>(k, v). \<not> isEmpty v) (map (\<lambda>f. (fd_Tag f, fd_Value f)) (config_fields c))"
proof -
  have empty: "isEmpty (VInt i) \<longleftrightarrow> i = 0" "\<not> isEmpty (VDuration i)" "isEmpty (VBool b) \<longleftrightarrow> \<not> b" "isEmpty VNil"
    "\<not> isEmpty (VInt64 i)" "\<not> isEmpty (VUint16 i)" "\<not> isEmpty (VFloat64 i)" "\<not> isEmpty (VTls t)" "\<not> isEmpty (VAddr a)" for i b t a
    by (simp_all add: isEmpty_def)
  show ?thesis
    by (simp only: given_def config_fields_def list.map filter_Cons_append field.simps prod.case empty List.filter.simps(1) append_Nil append_Cons
        append_Nil2 not_not if_True if_False simp_thms append_assoc split: option.split) (simp add: empty split: option.split)
qed

lemma setting_given:
  assumes "distinct (map fst kvs)"
  shows "setting stored k (map_of kvs k) old =
    (case map_of (List.filter (\<lambda>(k, v). \<not> isEmpty v) kvs) k of None \<Rightarrow> old | Some v \<Rightarrow> (case stored k v of None \<Rightarrow> old | Some x \<Rightarrow> x))"
proof -
  have "map_of (List.filter (\<lambda>(k, v). \<not> isEmpty v) kvs) k = (case map_of kvs k of None \<Rightarrow> None | Some v \<Rightarrow> if isEmpty v then None else Some v)"
    using assms
  proof (induction kvs)
    case (Cons kv kvs)
    then have "map_of kvs (fst kv) = None" by (simp add: map_of_eq_None_iff)
    with Cons show ?case by (cases kv) auto
  qed simp
  then show ?thesis by (simp add: setting_def split: option.split)
qed

text \<open>C36: the library configuration has, under each tag, what the configuration gives for it and the library accepts, and its default for everything else, in whatever order
  Go iterates over the map. A flag that is not set, a number of type \<open>int\<close> that is zero and an absent address give nothing; a duration gives its value also when it is zero,
  and so replaces the default, and so do the numbers of the other types.\<close>

theorem NewConfig_settings:
  assumes "setter_laws Set get stored" and "\<forall>kvs. mset (order kvs) = mset kvs"
  shows "get (NewConfig Set initial order cfg) k =
    (case map_of (given cfg) k of
       None \<Rightarrow> get initial k
     | Some v \<Rightarrow> (case stored k v of None \<Rightarrow> get initial k | Some x \<Rightarrow> x))"
proof -
  have d: "distinct (map fst (Struct2Map (config_fields cfg)))"
    using config_keys_distinct [of cfg] by (simp add: Struct2Map_distinct comp_def)
  have "get (NewConfig Set initial order cfg) k = setting stored k (map_of (Struct2Map (config_fields cfg)) k) (get initial k)"
    using map_of_reorder [OF d assms(2) [rule_format]] get_fold_entries [OF assms(1), of "order (Struct2Map (config_fields cfg))" initial k]
    by (simp add: NewConfig_def)
  with setting_given [OF d] show ?thesis by (simp add: config_map given_eq)
qed

definition zero_config :: mq_Config where
  "zero_config = \<lparr>c_DialTimeout = 0, c_ReadTimeout = 0, c_WriteTimeout = 0, c_LocalAddr = None, c_LookupdPollInterval = 0,
     c_LookupdPollJitter = 0, c_MaxRequeueDelay = 0, c_DefaultRequeueDelay = 0, c_MaxAttempts = 0, c_HeartbeatInterval = 0,
     c_TlsV1 = False, c_TlsConfig = None, c_Deflate = False, c_DeflateLevel = 0, c_Snappy = False, c_OutputBufferSize = 0,
     c_OutputBufferTimeout = 0, c_MaxInFlight = 0, c_MsgTimeout = 0, c_PoolCap = 0, c_Concurrency = 0\<rparr>"

definition sample_set :: "string \<Rightarrow> cfg_value \<Rightarrow> (string \<rightharpoonup> cfg_value) \<Rightarrow> (string \<rightharpoonup> cfg_value) option" where
  "sample_set k v c = (if k = ''read_timeout'' \<and> v = VDuration 0 then None else Some (c(k \<mapsto> v)))"

definition sample_stored :: "string \<Rightarrow> cfg_value \<Rightarrow> cfg_value option option" where
  "sample_stored k v = (if k = ''read_timeout'' \<and> v = VDuration 0 then None else Some (Some v))"

theorem NewConfig_settings_witness:
  "NewConfig sample_set [''dial_timeout'' \<mapsto> VDuration 1000000000, ''snappy'' \<mapsto> VBool True] rev zero_config ''dial_timeout'' = Some (VDuration 0)
    \<and> NewConfig sample_set [''dial_timeout'' \<mapsto> VDuration 1000000000, ''snappy'' \<mapsto> VBool True] rev zero_config ''snappy'' = Some (VBool True)"
proof -
  have laws: "setter_laws sample_set (\<lambda>c. c) sample_stored"
    by (auto simp: setter_laws_def sample_set_def sample_stored_def split: option.split)
  show ?thesis
    using NewConfig_settings [OF laws, of rev "[''dial_timeout'' \<mapsto> VDuration 1000000000, ''snappy'' \<mapsto> VBool True]" zero_config "''dial_timeout''"]
      NewConfig_settings [OF laws, of rev "[''dial_timeout'' \<mapsto> VDuration 1000000000, ''snappy'' \<mapsto> VBool True]" zero_config "''snappy''"]
    by (simp add: given_def zero_config_def sample_stored_def)
qed

end
