(* ===== verification/J7f_Wrappers.thy ===== *)
theory J7f_Wrappers
  imports Mq_Config Grpc_Stream
begin

text \<open>
  The parts of the library that hand their work to another package: the methods of the queue's consumer (\<open>components/mq/consumer.go\<close>) and its transport
  (\<open>components/mq/api_request.go\<close>), the dialer of e-mails (\<open>components/email/email.go\<close>), the configuration (\<open>components/config\<close>), the remaining
  methods of the wrapped streams (\<open>components/grpc/server/grpc.go\<close>, \<open>components/grpc/client/grpc.go\<close>), the watch of the registry's etcd client and
  the replacement of a logger. What is wrapped is a record of operations on a state of any type.
\<close>

section \<open>The consumer\<close>

record ('st, 'h) nsq_consumer =
  nc_ConnectToNSQLookupd :: "string \<Rightarrow> 'st \<Rightarrow> (string option \<times> 'st) go"
  nc_ConnectToNSQLookupds :: "string list \<Rightarrow> 'st \<Rightarrow> (string option \<times> 'st) go"
  nc_ConnectToNSQD :: "string \<Rightarrow> 'st \<Rightarrow> (string option \<times> 'st) go"
  nc_ConnectToNSQDs :: "string list \<Rightarrow> 'st \<Rightarrow> (string option \<times> 'st) go"
  nc_DisconnectFromNSQD :: "string \<Rightarrow> 'st \<Rightarrow> (string option \<times> 'st) go"
  nc_DisconnectFromNSQLookupd :: "string \<Rightarrow> 'st \<Rightarrow> (string option \<times> 'st) go"
  nc_AddHandler :: "'h \<Rightarrow> 'st \<Rightarrow> 'st go"
  nc_AddConcurrentHandlers :: "'h \<Rightarrow> int \<Rightarrow> 'st \<Rightarrow> 'st go"
  nc_SetLogger :: "nat \<Rightarrow> log_level \<Rightarrow> 'st \<Rightarrow> 'st go"

definition Consumer_ConnectToNSQLookupd :: "('st, 'h) nsq_consumer \<Rightarrow> string \<Rightarrow> 'st \<Rightarrow> (string option \<times> 'st) go" where
  "Consumer_ConnectToNSQLookupd c addr = nc_ConnectToNSQLookupd c addr"

definition Consumer_ConnectToNSQLookupds :: "('st, 'h) nsq_consumer \<Rightarrow> string list \<Rightarrow> 'st \<Rightarrow> (string option \<times> 'st) go" where
  "Consumer_ConnectToNSQLookupds c addresses = nc_ConnectToNSQLookupds c addresses"

definition Consumer_ConnectToNSQD :: "('st, 'h) nsq_consumer \<Rightarrow> string \<Rightarrow> 'st \<Rightarrow> (string option \<times> 'st) go" where
  "Consumer_ConnectToNSQD c addr = nc_ConnectToNSQD c addr"

definition Consumer_ConnectToNSQDs :: "('st, 'h) nsq_consumer \<Rightarrow> string list \<Rightarrow> 'st \<Rightarrow> (string option \<times> 'st) go" where
  "Consumer_ConnectToNSQDs c addresses = nc_ConnectToNSQDs c addresses"

definition Consumer_DisconnectFromNSQD :: "('st, 'h) nsq_consumer \<Rightarrow> string \<Rightarrow> 'st \<Rightarrow> (string option \<times> 'st) go" where
  "Consumer_DisconnectFromNSQD c addr = nc_DisconnectFromNSQD c addr"

definition Consumer_DisconnectFromNSQLookupd :: "('st, 'h) nsq_consumer \<Rightarrow> string \<Rightarrow> 'st \<Rightarrow> (string option \<times> 'st) go" where
  "Consumer_DisconnectFromNSQLookupd c addr = nc_DisconnectFromNSQLookupd c addr"

definition Consumer_AddHandler :: "('st, 'h) nsq_consumer \<Rightarrow> 'h \<Rightarrow> 'st \<Rightarrow> 'st go" where
  "Consumer_AddHandler c handler = nc_AddHandler c handler"

definition Consumer_AddConcurrentHandlers :: "('st, 'h) nsq_consumer \<Rightarrow> 'h \<Rightarrow> int \<Rightarrow> 'st \<Rightarrow> 'st go" where
  "Consumer_AddConcurrentHandlers c handler concurrency = nc_AddConcurrentHandlers c handler concurrency"

definition Consumer_SetLogger :: "('st, 'h) nsq_consumer \<Rightarrow> nat \<Rightarrow> string \<Rightarrow> 'st \<Rightarrow> 'st go" where
  "Consumer_SetLogger c l lvl = nc_SetLogger c l (SetLogger lvl)"

text \<open>Adding handlers is allowed before the first connection only, as the comments of both methods say: the order of the calls decides.\<close>

lemma handlers_first:
  assumes "\<And>h st. \<not> connected st \<Longrightarrow> \<exists>st'. nc_AddHandler c h st = Ret st' \<and> \<not> connected st'"
    and "\<And>h st. connected st \<Longrightarrow> \<exists>p. nc_AddHandler c h st = Panic p"
    and "\<And>as st. \<exists>e st'. nc_ConnectToNSQLookupds c as st = Ret (e, st') \<and> connected st'"
    and "\<not> connected st"
  shows "\<exists>e st'. go_bind (go_fold (Consumer_AddHandler c) hs st) (Consumer_ConnectToNSQLookupds c addrs) = Ret (e, st')"
    and "\<exists>p. go_bind (Consumer_ConnectToNSQLookupds c addrs st) (\<lambda>(e, st). Consumer_AddHandler c h st) = Panic p"
proof -
  have "\<exists>st'. go_fold (Consumer_AddHandler c) hs st = Ret st'"
    using assms(4)
  proof (induction hs arbitrary: st)
    case (Cons h hs)
    with assms(1) [of st h] show ?case by (auto simp: Consumer_AddHandler_def)
  qed simp
  then show "\<exists>e st'. go_bind (go_fold (Consumer_AddHandler c) hs st) (Consumer_ConnectToNSQLookupds c addrs) = Ret (e, st')"
    using assms(3) [of addrs] by (auto simp: Consumer_ConnectToNSQLookupds_def) metis
  from assms(3) [of addrs st] obtain e st' where "nc_ConnectToNSQLookupds c addrs st = Ret (e, st')" "connected st'" by blast
  with assms(2) [of st' h] show "\<exists>p. go_bind (Consumer_ConnectToNSQLookupds c addrs st) (\<lambda>(e, st). Consumer_AddHandler c h st) = Panic p"
    by (simp add: Consumer_ConnectToNSQLookupds_def Consumer_AddHandler_def)
qed

section \<open>The transport of requests to lookup servers\<close>

text \<open>A connection of the package \<open>net\<close> has a number and the deadline that was set on it, if any.\<close>

record net_conn =
  conn_id :: nat
  conn_deadline :: "int option"

record deadlinedConn =
  dc_Timeout :: int
  dc_Conn :: net_conn

definition newDeadlineTransport :: "(string \<Rightarrow> string \<Rightarrow> int \<Rightarrow> string + net_conn) \<Rightarrow> int \<Rightarrow> string \<Rightarrow> string \<Rightarrow> string + deadlinedConn" where
  "newDeadlineTransport DialTimeout timeout netw addr =
     (case DialTimeout netw addr timeout of
        Inl err \<Rightarrow> Inl err
      | Inr c \<Rightarrow> Inr \<lparr>dc_Timeout = timeout, dc_Conn = c\<rparr>)"

text \<open>The time limit holds for the dialling only: the connection keeps what it had, and a new connection has no deadline.\<close>

lemma transport_sets_no_deadline:
  assumes "\<And>netw addr t c. DialTimeout netw addr t = Inr c \<Longrightarrow> conn_deadline c = None"
    and "newDeadlineTransport DialTimeout timeout netw addr = Inr d"
  shows "dc_Timeout d = timeout \<and> conn_deadline (dc_Conn d) = None"
  using assms(2) by (auto simp: newDeadlineTransport_def dest: assms(1) split: sum.splits)

section \<open>E-mail\<close>

record 'tls email_config =
  SmtpAddr :: string
  em_Port :: int
  User :: string
  em_Password :: string
  SenderName :: string
  TlsConfig :: "'tls option"
  ToUsers :: "string list"

record 'tls Dialer =
  d_Host :: string
  d_Port :: int
  d_Username :: string
  d_Password :: string
  d_SSL :: bool
  d_TLSConfig :: "'tls option"

definition email_New :: "(string \<Rightarrow> int \<Rightarrow> string \<Rightarrow> string \<Rightarrow> 'tls Dialer) \<Rightarrow> 'tls email_config \<Rightarrow> 'tls Dialer" where
  "email_New NewDialer c =
     (let d = NewDialer (SmtpAddr c) (em_Port c) (User c) (em_Password c) in
      if TlsConfig c \<noteq> None then d\<lparr>d_TLSConfig := TlsConfig c\<rparr> else d)"

text \<open>A configuration of TLS replaces that of the dialer, a missing one leaves it; nothing else of the dialer changes.\<close>

lemma email_New_tls:
  "d_TLSConfig (email_New NewDialer c)
     = (case TlsConfig c of Some t \<Rightarrow> Some t | None \<Rightarrow> d_TLSConfig (NewDialer (SmtpAddr c) (em_Port c) (User c) (em_Password c)))"
  "email_New NewDialer c\<lparr>d_TLSConfig := t\<rparr> = NewDialer (SmtpAddr c) (em_Port c) (User c) (em_Password c)\<lparr>d_TLSConfig := t\<rparr>"
  by (auto simp: email_New_def Let_def split: option.split)

section \<open>The configuration and the logger\<close>

definition NewViper :: "'v \<Rightarrow> 'v" where
  "NewViper viper_New = viper_New"

definition config_NewConfig :: "'v \<Rightarrow> 'v option \<times> string option" where
  "config_NewConfig viper_New = (Some (NewViper viper_New), None)"

record 'z Logger =
  lg_zap :: 'z

definition ResetLogger :: "'z Logger \<Rightarrow> 'z Logger \<Rightarrow> 'z Logger" where
  "ResetLogger logger l = l\<lparr>lg_zap := lg_zap logger\<rparr>"

lemma ResetLogger_last: "ResetLogger b (ResetLogger a l) = ResetLogger b l"
  by (simp add: ResetLogger_def)

section \<open>The wrapped streams\<close>

record 'st server_stream =
  ss_SetHeader :: "metadata \<Rightarrow> 'st \<Rightarrow> string option \<times> 'st"
  ss_SendHeader :: "metadata \<Rightarrow> 'st \<Rightarrow> string option \<times> 'st"
  ss_SetTrailer :: "metadata \<Rightarrow> 'st \<Rightarrow> 'st"

definition GrpcStream_SetHeader :: "'st server_stream \<Rightarrow> metadata \<Rightarrow> 'st \<Rightarrow> string option \<times> 'st" where
  "GrpcStream_SetHeader g m = ss_SetHeader g m"

definition GrpcStream_SendHeader :: "'st server_stream \<Rightarrow> metadata \<Rightarrow> 'st \<Rightarrow> string option \<times> 'st" where
  "GrpcStream_SendHeader g m = ss_SendHeader g m"

definition GrpcStream_SetTrailer :: "'st server_stream \<Rightarrow> metadata \<Rightarrow> 'st \<Rightarrow> 'st" where
  "GrpcStream_SetTrailer g m = ss_SetTrailer g m"

text \<open>The context of the server's stream is its own, not that of the wrapped stream.\<close>

definition GrpcStream_Context :: "GrpcStream \<Rightarrow> metadata option" where
  "GrpcStream_Context s = gs_ctx s"

lemma Context_after_reply: "SendMsg err m s = Ret (Some (e, s')) \<Longrightarrow> GrpcStream_Context s' = gs_parent s"
  by (auto simp: SendMsg_def GrpcStream_Context_def split: option.splits if_splits)

record 'st client_stream =
  cl_Header :: "'st \<Rightarrow> (metadata \<times> string option) \<times> 'st"
  cl_Trailer :: "'st \<Rightarrow> metadata"
  cl_CloseSend :: "'st \<Rightarrow> string option \<times> 'st"
  cl_Context :: "'st \<Rightarrow> metadata option"

definition clientStream_Header :: "'st client_stream \<Rightarrow> 'st \<Rightarrow> (metadata \<times> string option) \<times> 'st" where
  "clientStream_Header g = cl_Header g"

definition clientStream_Trailer :: "'st client_stream \<Rightarrow> 'st \<Rightarrow> metadata" where
  "clientStream_Trailer g = cl_Trailer g"

definition clientStream_CloseSend :: "'st client_stream \<Rightarrow> 'st \<Rightarrow> string option \<times> 'st" where
  "clientStream_CloseSend g = cl_CloseSend g"

definition clientStream_Context :: "'st client_stream \<Rightarrow> 'st \<Rightarrow> metadata option" where
  "clientStream_Context g = cl_Context g"

end
