(* ===== verification/Log_Time.thy ===== *)
theory Log_Time
  imports Go_Time Go_Duration
begin

text \<open>
  The time stamps of the logger: \<open>CSTTimeEncoder\<close> of \<open>components/log/zap.go\<close>, over \<open>Time.Format\<close> with the layout
  \<open>2006-01-02 15:04:05.999999999\<close>. A time is the seconds since 1970 with the nanoseconds in the second; the location gives the
  offset from UTC, in seconds, for every instant. Shown: the stamps sort as texts the way the local times do, and so, while the offset stays the
  same, the way the times do.
\<close>

section \<open>The stamp of a time\<close>

type_synonym time = "int \<times> nat"

definition clock_text :: "nat \<Rightarrow> string" where
  "clock_text a =
     (let secs = a mod 86400 in
      pad_int 2 (int (secs div 3600)) @ '':'' @ pad_int 2 (int (secs mod 3600 div 60)) @ '':'' @ pad_int 2 (int (secs mod 60)))"

definition Format_stamp :: "(int \<Rightarrow> int) \<Rightarrow> time \<Rightarrow> string" where
  "Format_stamp tz t =
     (let offset = tz (fst t)
      in format_date (date_of offset (fst t)) @ '' '' @ clock_text (abs_seconds offset (fst t)) @ fmtFrac (snd t) 9)"

text \<open>The encoder appends to an array of texts.\<close>

definition CSTTimeEncoder :: "(int \<Rightarrow> int) \<Rightarrow> time \<Rightarrow> string list \<Rightarrow> string list" where
  "CSTTimeEncoder tz t enc = enc @ [Format_stamp tz t]"

section \<open>Texts of digits\<close>

definition text_less :: "string \<Rightarrow> string \<Rightarrow> bool" where
  "text_less s t \<longleftrightarrow> (s, t) \<in> lexord {(c, d). (of_char c :: nat) < of_char d}"

lemma text_less_simps [simp]:
  "\<not> text_less s []" "text_less [] (c # t)"
  "text_less (c # s) (d # t) \<longleftrightarrow> (of_char c :: nat) < of_char d \<or> c = d \<and> text_less s t"
  by (auto simp: text_less_def)

lemma text_less_irrefl [simp]: "\<not> text_less s s"
  by (induction s) auto

lemma text_less_append:
  "length s = length t \<Longrightarrow> text_less (s @ x) (t @ y) \<longleftrightarrow> text_less s t \<or> s = t \<and> text_less x y"
  by (induction s t rule: list_induct2) auto

fun digits :: "nat \<Rightarrow> nat \<Rightarrow> string" where
  "digits 0 n = []"
| "digits (Suc w) n = digits w (n div 10) @ [digit_char (n mod 10)]"

lemma length_digits [simp]: "length (digits w n) = w"
  by (induction w arbitrary: n) auto

lemma digit_char_zero: "digit_char 0 = CHR ''0''"
  by code_simp

lemma of_char_zero: "(of_char c :: nat) = 48 \<longleftrightarrow> c = CHR ''0''"
  using of_char_digit_char [of 0] of_char_eq_iff [of c "CHR ''0''"] by (simp add: digit_char_zero)

lemma digits_zero: "digits w 0 = replicate w (CHR ''0'')"
  by (induction w) (auto simp: digit_char_zero replicate_append_same)

lemma pad_digits: "n < 10 ^ Suc w \<Longrightarrow> replicate (Suc w - length (format_nat n)) (CHR ''0'') @ format_nat n = digits (Suc w) n"
proof (induction w arbitrary: n)
  case 0
  then show ?case by (subst (1 2) format_nat.simps) simp
next
  case (Suc w)
  show ?case
  proof (cases "n < 10")
    case True
    then show ?thesis using digits_zero [of "Suc w"] by (subst (1 2) format_nat.simps) simp
  next
    case False
    then have "n div 10 < 10 ^ Suc w" using Suc.prems by (simp add: less_mult_imp_div_less mult.commute)
    from Suc.IH [OF this] False show ?thesis by (subst (1 2) format_nat.simps) simp
  qed
qed

lemma pad_int_eq_digits: "n < 10 ^ w \<Longrightarrow> 0 < w \<Longrightarrow> pad_int w (int n) = digits w n"
  using pad_digits [of n "w - 1"] by (simp add: pad_int_def)

lemma digits_less:
  "a < 10 ^ w \<Longrightarrow> b < 10 ^ w \<Longrightarrow> (text_less (digits w a) (digits w b) \<longleftrightarrow> a < b) \<and> (digits w a = digits w b \<longleftrightarrow> a = b)"
proof (induction w arbitrary: a b)
  case (Suc w)
  have ab: "a = 10 * (a div 10) + a mod 10" "b = 10 * (b div 10) + b mod 10" by simp_all
  have "a div 10 < 10 ^ w" "b div 10 < 10 ^ w" using Suc.prems by (simp_all add: less_mult_imp_div_less mult.commute)
  note IH = Suc.IH [OF this]
  have c: "digit_char (a mod 10) = digit_char (b mod 10) \<longleftrightarrow> a mod 10 = b mod 10"
    by (metis digit_val_digit_char mod_less_divisor zero_less_numeral)
  have "text_less (digits (Suc w) a) (digits (Suc w) b) \<longleftrightarrow> a div 10 < b div 10 \<or> a div 10 = b div 10 \<and> a mod 10 < b mod 10"
    using IH by (simp add: text_less_append)
  also have "\<dots> \<longleftrightarrow> a < b" using ab by linarith
  finally have "text_less (digits (Suc w) a) (digits (Suc w) b) \<longleftrightarrow> a < b" .
  moreover have "digits (Suc w) a = digits (Suc w) b \<longleftrightarrow> a div 10 = b div 10 \<and> a mod 10 = b mod 10" using IH c by simp
  moreover have "\<dots> \<longleftrightarrow> a = b" using ab by metis
  ultimately show ?case by simp
qed simp

lemma pad_less:
  assumes "a < 10 ^ w" and "b < 10 ^ w" and "0 < w"
  shows "text_less (pad_int w (int a) @ x) (pad_int w (int b) @ y) \<longleftrightarrow> a < b \<or> a = b \<and> text_less x y"
  using digits_less [OF assms(1,2)] by (simp add: pad_int_eq_digits assms text_less_append)

section \<open>Fractions without trailing zeros\<close>

definition strip_zeros :: "string \<Rightarrow> string" where
  "strip_zeros ds = rev (dropWhile (\<lambda>c. c = CHR ''0'') (rev ds))"

lemma strip_zeros_simps [simp]:
  "strip_zeros [] = []"
  "strip_zeros (c # ds) = (if c = CHR ''0'' \<and> strip_zeros ds = [] then [] else c # strip_zeros ds)"
  by (auto simp: strip_zeros_def dropWhile_append)

lemma strip_zeros_less:
  "length s = length t \<Longrightarrow> list_all is_digit s \<Longrightarrow> list_all is_digit t \<Longrightarrow> text_less (strip_zeros s) (strip_zeros t) \<longleftrightarrow> text_less s t"
proof (induction s t rule: list_induct2)
  case (Cons c s d t)
  have "48 \<le> (of_char c :: nat)" "48 \<le> (of_char d :: nat)" using Cons.prems by (simp_all add: is_digit_def)
  then have "c = CHR ''0'' \<or> 48 < (of_char c :: nat)" "d = CHR ''0'' \<or> 48 < (of_char d :: nat)"
    using of_char_zero [of c] of_char_zero [of d] by linarith+
  then show ?case using Cons of_char_zero [of "CHR ''0''"] by (cases "strip_zeros s"; cases "strip_zeros t") auto
qed simp

lemma digits_is_digit: "list_all is_digit (digits w n)"
  by (induction w arbitrary: n) auto

lemma fmtFrac_less:
  assumes "a < 10 ^ 9" and "b < 10 ^ 9"
  shows "text_less (fmtFrac a 9) (fmtFrac b 9) \<longleftrightarrow> a < b"
proof -
  have f: "fmtFrac n 9 = (if strip_zeros (digits 9 n) = [] then [] else CHR ''.'' # strip_zeros (digits 9 n))"
    if "n < 10 ^ 9" for n
    using pad_digits [of n 8] that by (simp add: fmtFrac_def strip_zeros_def Let_def)
  have "text_less (fmtFrac a 9) (fmtFrac b 9) \<longleftrightarrow> text_less (strip_zeros (digits 9 a)) (strip_zeros (digits 9 b))"
    unfolding f [OF assms(1)] f [OF assms(2)]
    by (cases "strip_zeros (digits 9 b)") (cases "strip_zeros (digits 9 a)"; simp)+
  also have "\<dots> \<longleftrightarrow> a < b"
    using digits_less [OF assms] by (subst strip_zeros_less) (simp_all only: length_digits digits_is_digit)
  finally show ?thesis .
qed

section \<open>Stamps sort as times\<close>

text \<open>Numbers compare as the pairs of their quotients and remainders.\<close>

lemma div_mod_lex:
  fixes a b k :: nat
  shows "a div k < b div k \<or> a div k = b div k \<and> (a mod k < b mod k \<or> a mod k = b mod k \<and> P) \<longleftrightarrow> a < b \<or> a = b \<and> P"
proof -
  have "a = b \<longleftrightarrow> a div k = b div k \<and> a mod k = b mod k" by (metis mult_div_mod_eq)
  moreover have "a < b" if "a div k < b div k" using that by (meson div_le_mono leD leI)
  moreover have "a < b \<longleftrightarrow> a mod k < b mod k" if "a div k = b div k"
    using that by (metis mult_div_mod_eq nat_add_left_cancel_less)
  moreover have "a div k \<le> b div k" if "a < b" using that by (simp add: div_le_mono)
  ultimately show ?thesis by (metis le_neq_implies_less)
qed

lemma radix_lex:
  fixes a b m n k :: nat
  assumes "m < k" and "n < k"
  shows "a < b \<or> a = b \<and> (m < n \<or> m = n \<and> P) \<longleftrightarrow> a * k + m < b * k + n \<or> a * k + m = b * k + n \<and> P"
  using div_mod_lex [of "a * k + m" k "b * k + n" P] assms by simp

definition stamp_ok :: "(int \<Rightarrow> int) \<Rightarrow> time \<Rightarrow> bool" where
  "stamp_ok tz t \<longleftrightarrow> in_calendar (tz (fst t)) (fst t) \<and> 0 \<le> year (date_of (tz (fst t)) (fst t)) \<and> year (date_of (tz (fst t)) (fst t)) \<le> 9999
    \<and> snd t < 10 ^ 9"

definition local_time :: "(int \<Rightarrow> int) \<Rightarrow> time \<Rightarrow> time" where
  "local_time tz t = (fst t + tz (fst t), snd t)"

definition time_less :: "time \<Rightarrow> time \<Rightarrow> bool" where
  "time_less t u \<longleftrightarrow> fst t < fst u \<or> fst t = fst u \<and> snd t < snd u"

lemma format_date_less:
  assumes "0 \<le> year d" and "year d \<le> 9999" and "month d < 100" and "day d < 100"
    and "0 \<le> year e" and "year e \<le> 9999" and "month e < 100" and "day e < 100"
  shows "text_less (format_date d @ x) (format_date e @ y) \<longleftrightarrow> date_code d < date_code e \<or> date_code d = date_code e \<and> text_less x y"
proof -
  obtain yd ye where y: "year d = int yd" "year e = int ye" using assms(1,5) by (metis nonneg_int_cases)
  then have "text_less (format_date d @ x) (format_date e @ y) \<longleftrightarrow> yd < ye \<or> yd = ye \<and> (month d < month e \<or>
      month d = month e \<and> (day d < day e \<or> day d = day e \<and> text_less x y))"
    using assms by (simp add: format_date_def pad_less)
  also have "\<dots> \<longleftrightarrow> date_code d < date_code e \<or> date_code d = date_code e \<and> text_less x y"
  proof -
    have code: "date_code d = int ((yd * 100 + month d) * 100 + day d)" "date_code e = int ((ye * 100 + month e) * 100 + day e)"
      by (simp_all add: date_code_def y)
    show ?thesis
      unfolding code of_nat_less_iff of_nat_eq_iff radix_lex [OF assms(4,8), symmetric] radix_lex [OF assms(3,7), symmetric]
      by (rule refl)
  qed
  finally show ?thesis .
qed

lemma clock_text_less:
  "text_less (clock_text a @ x) (clock_text b @ y) \<longleftrightarrow> a mod 86400 < b mod 86400 \<or> a mod 86400 = b mod 86400 \<and> text_less x y"
proof -
  define s where "s = a mod 86400"
  define t where "t = b mod 86400"
  have st: "s < 86400" "t < 86400" by (simp_all add: s_def t_def)
  then have lt: "s div 3600 < 100" "t div 3600 < 100" "s mod 3600 div 60 < 100" "t mod 3600 div 60 < 100" "s mod 60 < 100" "t mod 60 < 100"
    by (simp_all add: less_mult_imp_div_less less_trans [OF mod_less_divisor])
  have "text_less (clock_text a @ x) (clock_text b @ y) \<longleftrightarrow> s div 3600 < t div 3600 \<or> s div 3600 = t div 3600 \<and>
      (s mod 3600 div 60 < t mod 3600 div 60 \<or> s mod 3600 div 60 = t mod 3600 div 60 \<and> (s mod 60 < t mod 60 \<or> s mod 60 = t mod 60 \<and> text_less x y))"
    using lt by (simp add: clock_text_def s_def [symmetric] t_def [symmetric] Let_def pad_less)
  also have "\<dots> \<longleftrightarrow> s < t \<or> s = t \<and> text_less x y"
  proof -
    have "n mod 60 = n mod 3600 mod 60" for n :: nat by (simp add: mod_mod_cancel)
    then show ?thesis unfolding div_mod_lex [of "s mod 3600" 60 "t mod 3600", symmetric] div_mod_lex [of s 3600 t, symmetric] by simp
  qed
  finally show ?thesis by (simp add: s_def t_def)
qed

lemma date_code_days:
  "date_code (date_of offset s) < date_code (date_of offset s') \<longleftrightarrow> day_number offset s < day_number offset s'"
  "date_code (date_of offset s) = date_code (date_of offset s') \<longleftrightarrow> day_number offset s = day_number offset s'"
  using date_code_less [of offset s s'] date_code_less [of offset s' s] date_of_day [of offset s offset s'] by force+

text \<open>A stamp is the stamp of the local time without an offset.\<close>

lemma Format_stamp_local: "Format_stamp tz t = Format_stamp (\<lambda>_. 0) (local_time tz t)"
  by (simp add: Format_stamp_def local_time_def date_of_def abs_seconds_def Let_def)

lemma stamp_ok_local: "stamp_ok tz t = stamp_ok (\<lambda>_. 0) (local_time tz t)"
  by (simp add: stamp_ok_def local_time_def in_calendar_def date_of_def abs_seconds_def)

lemma Format_stamp_less:
  assumes "stamp_ok (\<lambda>_. 0) t" and "stamp_ok (\<lambda>_. 0) u"
  shows "text_less (Format_stamp (\<lambda>_. 0) t) (Format_stamp (\<lambda>_. 0) u) \<longleftrightarrow> time_less t u"
proof -
  define a where "a = abs_seconds 0 (fst t)"
  define b where "b = abs_seconds 0 (fst u)"
  have ab: "a < b \<longleftrightarrow> fst t < fst u" "b < a \<longleftrightarrow> fst u < fst t"
    using assms abs_seconds_mono by (simp_all add: a_def b_def stamp_ok_def)
  have "text_less (Format_stamp (\<lambda>_. 0) t) (Format_stamp (\<lambda>_. 0) u) \<longleftrightarrow>
      a div 86400 < b div 86400 \<or> a div 86400 = b div 86400 \<and> (a mod 86400 < b mod 86400 \<or> a mod 86400 = b mod 86400 \<and> snd t < snd u)"
    using assms date_of_bounds [of 0 "fst t"] date_of_bounds [of 0 "fst u"]
    by (simp add: Format_stamp_def format_date_less date_code_days clock_text_less fmtFrac_less stamp_ok_def day_number_def a_def b_def)
  also have "\<dots> \<longleftrightarrow> a < b \<or> a = b \<and> snd t < snd u"
    by (rule div_mod_lex)
  finally show ?thesis using ab by (auto simp: time_less_def)
qed

lemma Format_stamp_eq:
  assumes "stamp_ok (\<lambda>_. 0) t" and "stamp_ok (\<lambda>_. 0) u"
  shows "Format_stamp (\<lambda>_. 0) t = Format_stamp (\<lambda>_. 0) u \<longleftrightarrow> t = u"
proof -
  have "time_less t u \<or> time_less u t" if "t \<noteq> u" using that by (auto simp: time_less_def prod_eq_iff)
  then show ?thesis using Format_stamp_less [OF assms] Format_stamp_less [OF assms(2,1)] by (metis text_less_irrefl)
qed

text \<open>C38: for two times of one location, in years of four digits of the calendar, the stamp of the first comes before the stamp of the second in the order of texts
  exactly when its local time is earlier, to the nanosecond, and the stamps are the same exactly when the local times are. So when the location has the same offset at both
  times, the stamps sort as the times and tell them apart. The stamp does not show the offset: where clocks are set back, the times of the repeated hour share their stamps.\<close>

theorem stamps_sort_as_times:
  assumes "stamp_ok tz t" and "stamp_ok tz u"
  shows "(text_less (last (CSTTimeEncoder tz t enc)) (last (CSTTimeEncoder tz u enc')) \<longleftrightarrow> time_less (local_time tz t) (local_time tz u))
    \<and> (last (CSTTimeEncoder tz t enc) = last (CSTTimeEncoder tz u enc') \<longleftrightarrow> local_time tz t = local_time tz u)
    \<and> (tz (fst t) = tz (fst u) \<longrightarrow>
        (text_less (last (CSTTimeEncoder tz t enc)) (last (CSTTimeEncoder tz u enc')) \<longleftrightarrow> time_less t u)
        \<and> (last (CSTTimeEncoder tz t enc) = last (CSTTimeEncoder tz u enc') \<longleftrightarrow> t = u))"
proof -
  have ok: "stamp_ok (\<lambda>_. 0) (local_time tz t)" "stamp_ok (\<lambda>_. 0) (local_time tz u)" using assms by (simp_all flip: stamp_ok_local)
  have "time_less (local_time tz t) (local_time tz u) \<longleftrightarrow> time_less t u" "local_time tz t = local_time tz u \<longleftrightarrow> t = u" if "tz (fst t) = tz (fst u)"
    using that by (auto simp: time_less_def local_time_def prod_eq_iff)
  then show ?thesis
    using Format_stamp_less [OF ok] Format_stamp_eq [OF ok] by (simp add: CSTTimeEncoder_def Format_stamp_local [of tz])
qed

text \<open>A location that sets its clocks back by an hour at one instant.\<close>

definition clocks_back :: "int \<Rightarrow> int" where
  "clocks_back sec = (if sec < 1600000000 then 7200 else 3600)"

theorem stamps_sort_as_times_witness:
  "text_less (last (CSTTimeEncoder clocks_back (1600000000, 50000000) [])) (last (CSTTimeEncoder clocks_back (1600000000, 500000000) []))
    \<and> last (CSTTimeEncoder clocks_back (1599998400, 0) []) = last (CSTTimeEncoder clocks_back (1600002000, 0) [])"
proof -
  have y: "year (date_of offset sec) = 2020" if "abs_seconds offset sec div 86400 = 106751991091612" for offset sec
  proof -
    have "absYear 106751991091612 = (292277024419, 256)" by (rule absYear_unique) (simp_all add: days_to_year_def)
    then show ?thesis using date_of_eq(1) [of offset sec] that by (simp add: absoluteZeroYear_def)
  qed
  have "stamp_ok clocks_back (1600000000, n)" "stamp_ok clocks_back (1599998400, n)" "stamp_ok clocks_back (1600002000, n)" if "n < 10 ^ 9" for n
    using that
    by (simp_all add: stamp_ok_def clocks_back_def in_calendar_def unixToAbsolute_def y abs_seconds_def uint64_def)
  then have ok: "stamp_ok clocks_back (1600000000, 50000000)" "stamp_ok clocks_back (1600000000, 500000000)"
    "stamp_ok clocks_back (1599998400, 0)" "stamp_ok clocks_back (1600002000, 0)" by simp_all
  from stamps_sort_as_times [OF ok(1,2), of "[]" "[]"] stamps_sort_as_times [OF ok(3,4), of "[]" "[]"] show ?thesis
    by (simp add: time_less_def local_time_def clocks_back_def)
qed

end
