(* ===== verification/Std_Logger.thy ===== *)
theory Std_Logger
  imports J7f_Prelude
begin

text \<open>
  The default logger (\<open>internal/log/logger.go\<close>), over the parts of the packages \<open>log\<close> and \<open>fmt\<close> that it calls. The time stamp of a line and the
  expansion of a format are parameters; an argument is a string or a value of another type with the text it prints as.
\<close>

section \<open>Printing\<close>

datatype arg = ArgString (arg_text: string) | ArgOther (arg_text: string)

fun is_ArgString :: "arg \<Rightarrow> bool" where
  "is_ArgString (ArgString s) = True"
| "is_ArgString (ArgOther s) = False"

text \<open>\<open>fmt.Sprint\<close> puts a space between two operands when neither is a string, \<open>fmt.Sprintln\<close> always, with a newline at the end.\<close>

fun Sprint :: "arg list \<Rightarrow> string" where
  "Sprint [] = []"
| "Sprint [a] = arg_text a"
| "Sprint (a # b # as) =
     arg_text a @ (if \<not> is_ArgString a \<and> \<not> is_ArgString b then '' '' else []) @ Sprint (b # as)"

fun Sprint_spaced :: "arg list \<Rightarrow> string" where
  "Sprint_spaced [] = []"
| "Sprint_spaced [a] = arg_text a"
| "Sprint_spaced (a # b # as) = arg_text a @ '' '' @ Sprint_spaced (b # as)"

definition Sprintln :: "arg list \<Rightarrow> string" where
  "Sprintln as = Sprint_spaced as @ [CHR 0x0A]"

section \<open>The logger\<close>

text \<open>What was written to the standard error stream, and whether the process was ended.\<close>

record LoggerD =
  written :: string
  exited :: bool

definition NewLoggerDefault :: LoggerD where
  "NewLoggerDefault = \<lparr>written = [], exited = False\<rparr>"

text \<open>\<open>log.Logger.Output\<close>: the stamp, the text, and a newline unless the text ends with one.\<close>

definition log_line_text :: "string \<Rightarrow> string \<Rightarrow> string" where
  "log_line_text stamp s = stamp @ s @ (if s = [] \<or> last s \<noteq> CHR 0x0A then [CHR 0x0A] else [])"

definition log_output :: "string \<Rightarrow> string \<Rightarrow> LoggerD \<Rightarrow> LoggerD" where
  "log_output stamp s g = g\<lparr>written := written g @ log_line_text stamp s\<rparr>"

definition log_fatal :: "string \<Rightarrow> string \<Rightarrow> LoggerD \<Rightarrow> LoggerD" where
  "log_fatal stamp s g = (log_output stamp s g)\<lparr>exited := True\<rparr>"

definition std_Info :: "string \<Rightarrow> arg list \<Rightarrow> LoggerD \<Rightarrow> LoggerD" where
  "std_Info stamp args g = log_output stamp (Sprint args) g"

definition std_Infoln :: "string \<Rightarrow> arg list \<Rightarrow> LoggerD \<Rightarrow> LoggerD" where
  "std_Infoln stamp args g = log_output stamp (Sprintln args) g"

definition std_Infof :: "(string \<Rightarrow> arg list \<Rightarrow> string) \<Rightarrow> string \<Rightarrow> string \<Rightarrow> arg list \<Rightarrow> LoggerD \<Rightarrow> LoggerD" where
  "std_Infof Sprintf stamp format args g = log_output stamp (Sprintf format args) g"

definition std_Warning :: "string \<Rightarrow> arg list \<Rightarrow> LoggerD \<Rightarrow> LoggerD" where
  "std_Warning stamp args g = log_output stamp (Sprint args) g"

definition std_Warningln :: "string \<Rightarrow> arg list \<Rightarrow> LoggerD \<Rightarrow> LoggerD" where
  "std_Warningln stamp args g = log_output stamp (Sprintln args) g"

definition std_Warningf :: "(string \<Rightarrow> arg list \<Rightarrow> string) \<Rightarrow> string \<Rightarrow> string \<Rightarrow> arg list \<Rightarrow> LoggerD \<Rightarrow> LoggerD" where
  "std_Warningf Sprintf stamp format args g = log_output stamp (Sprintf format args) g"

definition std_Error :: "string \<Rightarrow> arg list \<Rightarrow> LoggerD \<Rightarrow> LoggerD" where
  "std_Error stamp args g = log_output stamp (Sprint args) g"

definition std_Errorln :: "string \<Rightarrow> arg list \<Rightarrow> LoggerD \<Rightarrow> LoggerD" where
  "std_Errorln stamp args g = log_output stamp (Sprintln args) g"

definition std_Errorf :: "(string \<Rightarrow> arg list \<Rightarrow> string) \<Rightarrow> string \<Rightarrow> string \<Rightarrow> arg list \<Rightarrow> LoggerD \<Rightarrow> LoggerD" where
  "std_Errorf Sprintf stamp format args g = log_output stamp (Sprintf format args) g"

definition std_Fatal :: "string \<Rightarrow> arg list \<Rightarrow> LoggerD \<Rightarrow> LoggerD" where
  "std_Fatal stamp args g = log_fatal stamp (Sprint args) g"

definition std_Fatalln :: "string \<Rightarrow> arg list \<Rightarrow> LoggerD \<Rightarrow> LoggerD" where
  "std_Fatalln stamp args g = log_fatal stamp (Sprintln args) g"

definition std_Fatalf :: "(string \<Rightarrow> arg list \<Rightarrow> string) \<Rightarrow> string \<Rightarrow> string \<Rightarrow> arg list \<Rightarrow> LoggerD \<Rightarrow> LoggerD" where
  "std_Fatalf Sprintf stamp format args g = log_fatal stamp (Sprintf format args) g"

definition std_V :: "int \<Rightarrow> bool" where
  "std_V l \<longleftrightarrow> l \<le> 0"

section \<open>Properties\<close>

lemmas std_defs = std_Info_def std_Infoln_def std_Infof_def std_Warning_def std_Warningln_def std_Warningf_def
  std_Error_def std_Errorln_def std_Errorf_def std_Fatal_def std_Fatalln_def std_Fatalf_def

text \<open>The lines of the levels cannot be told apart, and a fatal message differs from an error only in that it ends the process.\<close>

lemma levels_alike:
  "std_Warning stamp args g = std_Info stamp args g \<and> std_Error stamp args g = std_Info stamp args g
   \<and> std_Warningln stamp args g = std_Infoln stamp args g \<and> std_Errorln stamp args g = std_Infoln stamp args g
   \<and> std_Fatal stamp args g = (std_Error stamp args g)\<lparr>exited := True\<rparr> \<and> std_Fatalln stamp args g = (std_Errorln stamp args g)\<lparr>exited := True\<rparr>"
  by (simp add: std_defs log_fatal_def)

text \<open>Each call writes one line that ends with a newline.\<close>

lemma log_line_text_ends: "\<exists>l. log_line_text stamp s = l @ [CHR 0x0A]"
proof (cases "s = [] \<or> last s \<noteq> CHR 0x0A")
  case False
  then have "s = butlast s @ [CHR 0x0A]" by (metis append_butlast_last_id)
  then show ?thesis using False by (auto simp: log_line_text_def intro!: exI [of _ "stamp @ butlast s"])
qed (auto simp: log_line_text_def)

text \<open>For operands of which no two neighbours are values other than strings, printing joins the texts.\<close>

lemma Sprint_strings: "list_all is_ArgString args \<Longrightarrow> Sprint args = concat (map arg_text args)"
  by (induction args rule: Sprint.induct) auto

end
