(* ===== verification/Spec2Isabelle.thy ===== *)
theory Spec2Isabelle
  imports Sensitive_Trie Dao_Node J7f_Errors Etcd_System Mq_Producer Redis_Lock Service_Register Grace Grpc_Logging
    J7f_Servers Http_Middleware J7f_Wrappers Log_Time Std_Logger
begin

text \<open>
  \<^bold>\<open>The j7f component library: a verification development.\<close>

  j7f is a Go library of components for services: a filter of sensitive words, a layer over sharded and
  replicated SQL databases, errors with codes and stack traces, listeners that follow a key tree in etcd,
  a client of the NSQ message queue, a distributed lock over Redis, registration of services, graceful restart, and
  servers and clients for gRPC and HTTP with their middleware.

  \<^bold>\<open>Conventions.\<close> A Go function becomes an Isabelle function over values of the model. A function that
  may panic returns \<open>'a go\<close>, which is \<open>Ret x\<close> or \<open>Panic p\<close>; a Go result pair \<open>(x, err)\<close> is the pair
  \<open>(x, e)\<close> with \<open>e\<close> of type \<open>error option\<close>. An object with mutable fields is a record that the methods take
  and return. A pointer that may be nil is an \<open>option\<close>. An integer of Go is an \<open>int\<close> with the wrap-around of its
  width written out (\<open>int64\<close>, \<open>uint64\<close>, \<open>int32\<close>) where the code can leave the range. A Go string is a list of
  bytes (\<open>string\<close>); conversions between bytes and runes are modelled by \<open>runes_of\<close> and \<open>string_of_runes\<close>.

  \<^bold>\<open>Theories.\<close>
  \<^item> \<open>J7f_Prelude\<close>: panics and their sequencing, integers of fixed width, indexing and slicing with Go's bounds
    checks, reachable states with the contracts \<open>invariant_system\<close> and \<open>safe_system\<close> of components with a state, and the
    contracts \<open>printer_parser\<close> (a parser inverts a printer) and \<open>cyclic_selector\<close> (a
    cursor that walks round a list). Several components meet each of them.
  \<^item> \<open>Go_Strings\<close>: the parts of \<open>strconv\<close>, \<open>strings\<close> and \<open>unicode/utf8\<close> that the sources use; \<open>Itoa\<close>/\<open>Atoi\<close>
    and UTF-8 encoding/decoding are interpreted as printer and parser.
  \<^item> \<open>Go_Time\<close>, \<open>Go_Duration\<close>: the calendar arithmetic of package \<open>time\<close> that the date rules use, and the text of a duration.
  \<^item> \<open>Sensitive_Trie\<close>: src/components/trie/trie.go. \<open>Trie\<close> and \<open>Node\<close> are datatypes; a \<open>sync.Map\<close> of children
    is an association list with distinct keys. All operations are modelled: \<open>Add\<close>, \<open>Del\<close>,
    \<open>Query\<close> with its two loops and the white lists, \<open>ReadAll\<close>. Shown: the query meets a specification
    that mentions the set of keywords alone, masking is in place, what a clean verdict means, what deletion
    removes, that reading all keywords gives back what was added, and that every history of additions and deletions keeps the
    tree well-formed and acts on the words as on a plain set. The callers see the tree through the contracts \<open>keyword_store\<close> and
    \<open>keyword_filter\<close>, which mention the words alone.
  \<^item> \<open>Dao_Errors\<close>, \<open>Dao_Shard\<close>: src/components/dao/errors/errors.go, src/components/dao/shard/shard.go and numkey.go. The
    dynamic type of a key is the datatype \<open>key\<close>; the interface \<open>Shard\<close> is the datatype \<open>shard\<close> with the
    dispatch \<open>FindForKey\<close>. Shown: the range of the modulus rule, that ranges partition the numbers, that the date
    rules agree between timestamps and date texts and are monotone, what reading a configuration yields.
  \<^item> \<open>Dao_Node\<close>: src/components/dao/node.go and balancer.go. Shown: the divisor search of the balancer computes the
    greatest common divisor, every replica is chosen in proportion to its weight whatever the random draws
    are, which configurations open, which table a row is routed to, what the health check reports, and the
    life of a transaction and of its timer.
  \<^item> \<open>J7f_Errors\<close>: src/components/errors/errors.go and stack.go. Shown: annotations keep the cause, codes of
    response headers, output of every verb, names of functions, depth of stacks.
  \<^item> \<open>Etcd_Watcher\<close>, \<open>Etcd_Listen\<close>: src/util/etcd_listen/etcd_watcher.go, etcd_listen.go and src/util/funcs.go. The goroutine of a watch
    is a function of the list of responses it receives; the manager of watches is a step relation over its
    operations and over the ends of its goroutines. Shown: close handlers and running watches correspond in
    every reachable state, what the listener holds mirrors what etcd reported and is exported, the index from keys to
    names is exact and is undone by emptying a group.
  \<^item> \<open>Etcd_System\<close>: the listener under the watches of several keys at once. A goroutine takes up a message, enters a critical section whose
    mutex is free, or leaves it. Which maps a section reads and writes is modelled: when the refresh, which reads the mirror without its mutex, overlaps with a section that writes the same map, the run
    has raced, and anything may follow. Shown: run without interruption the sections are the methods of the listener; in every interleaving without a race nothing panics, some goroutine can go on, and
    the mirror and the exports of a key are current whenever its goroutine waits; a race is reachable and can end the process; reloading the exports leaves those of every key current.
  \<^item> \<open>Mq_Config\<close>: src/components/mq/config.go and the constructor of consumer.go. The configuration is a record, and what reflection finds in it is the list of its
    fields. Shown: which values reach the library, against a table of the options, in whatever order Go iterates over the map.
  \<^item> \<open>Mq_Producer\<close>: src/components/mq/producer.go and error.go. A pool of connections is a bounded buffer; blocking on
    an empty channel is a value (\<open>Waits\<close>). Shown: the lookup servers are asked in turn, a query that no server answers moves
    the cursor only, the invariant of the pools, publishing gives its connection back, closing stops every connection.
  \<^item> \<open>Go_Float\<close>: the arithmetic of \<open>float64\<close> and \<open>float32\<close> that the sources use.
  \<^item> \<open>Redsync\<close>: src/lib/gopkg.in/redsync.v1. The mutex is a record; \<open>Lock\<close>, \<open>Unlock\<close> and \<open>Extend\<close> pass a world along, whose
    steps are the outcomes of the requests to the servers, so that the moves of other clients lie between any two requests. Floating-point
    numbers are pairs of mantissa and exponent with rounding to the bits of their format. The promises of Redis are the locales
    \<open>redis_cluster\<close> and \<open>redis_server\<close>, both interpreted on servers in memory; the majorities of pools are an interpretation of
    the locale \<open>quorums\<close>. Shown: mutual exclusion, failure without a majority, what \<open>Unlock\<close> reports, that the scripts act on the own value only.
  \<^item> \<open>Redis_Lock\<close>: src/components/lock/redis.go. The limits on the configuration, and \<open>Lock\<close> and \<open>Unlock\<close> as
    a step relation on statements, since goroutines interleave there. Shown: at most one holder in a process, and the order of statements in \<open>Unlock\<close> that loses
    the lock.
  \<^item> \<open>Service_Register\<close>: src/components/service_register. The interface of a registry is a record over the state of its implementation, and its contract is the locale
    \<open>registry\<close>, interpreted on the etcd client. Shown: no lease or watcher leaks in any reachable state, what a
    registration writes, and that times to live are consistent.
  \<^item> \<open>Grace\<close>: src/components/grace. The handler of signals is a function of what it receives. Shown: a server is stopped once, it
    forks at most once and hands over no socket, and hooks cannot be registered.
  \<^item> \<open>Grpc_Stream\<close>: src/components/grpc/server/grpc.go the streams of src/components/grpc/client/grpc.go, and src/components/grpc/interceptor. Channels count their entries, and a run is a
    list of operations. Shown: how many replies a request can have, that a reply carries the trace of its request, what a timeout does, which messages
    a client sees.
  \<^item> \<open>Grpc_Client\<close>: src/components/grpc/client/client.go, with the log levels of grpc.go. Shown: what \<open>Endpoint\<close> returns and caches.
  \<^item> \<open>Grpc_Logging\<close>: the logging interceptors of src/components/grpc/client/grpc.go, with \<open>path.Clean\<close> and \<open>path.Dir\<close>. Shown: a call passes
    unchanged, never panics because of its method name, and is logged at the level of its code with its service, method, trace, error and time.
  \<^item> \<open>J7f_Servers\<close>: src/components/grpc/server/server.go and src/components/http/server/server.go. The contract that both meet is the
    locale \<open>callback_server\<close>. Callbacks, \<open>grpc.NewServer\<close> and the registration of a route with gin may panic. Shown: when they start, what a failed start leaves, and how the routes are listed as services.
  \<^item> \<open>Http_Middleware\<close>: src/components/http/middleware, controller.go and result.go. Shown: what a handler sees of the body, that a panic is contained, and that
    the names of functions agree with those of the error package.
  \<^item> \<open>Std_Logger\<close>: src/internal/log/logger.go. Shown: the levels write the same lines, each of which ends with a newline.
  \<^item> \<open>J7f_Util\<close>: src/types/type_JSON.go, src/util/helper.go, src/util/reflect.go, src/components/log/zap.go and parts of src/components/mq. Shown: what survives
    in a JSON column, the keys of a converted struct, the local addresses, the defaults of a logger.
  \<^item> \<open>Log_Time\<close>: the time encoder of src/components/log/zap.go. The offset of a location may change from instant to instant. Shown: time stamps sort as texts the way the local
    times do, and the way the times do while the offset stays the same.
  \<^item> \<open>J7f_Wrappers\<close>: code that hands its work to another package: the methods of a consumer, src/components/email, src/components/config, the
    remaining methods of the wrapped streams, the transport of lookup requests.

  \<^bold>\<open>Interaction.\<close> The node calls the rules of the shard package through one interface (locale
  \<open>shard_contract\<close>); this theory composes configuration, routing, rules and calendar, and, in its last section, the signals of a server with the
  registry it is registered in. The etcd
  listener calls the watcher, whose goroutines call back into the listener (locale \<open>listener\<close>, interpreted on
  the listener of this library). The lock of a process uses the distributed mutex. The timeout of a gRPC request makes an error
  with the error package.

  \<^bold>\<open>Parameters.\<close> Code outside the repository is an argument: opening and pinging a database, the random
  draws of the shuffle, the offset of the local time zone, the tables of program counters of the Go runtime, the
  printable runes, the responses of etcd, the decoding of JSON, dialling and publishing of NSQ, the answers
  of the lookup servers, the Redis servers with clock and random bytes, processes and signals, the wrapped streams and engines of gRPC
  and gin. No hypothesis is made of them unless a theorem states it.

  \<^bold>\<open>Fuel.\<close> Every loop of the model terminates by a proved measure; the only counters are those the code has
  (three attempts to publish, three attempts to ask a lookup server, the tries of the lock).

  \<^bold>\<open>Not modelled.\<close> Generated code (src/proto), src/components/application, which is commented out, and debug output of the etcd listener. Groups of the etcd
  listener are not added or emptied while the system of its watches runs, so races on the index are left out. A call of a producer is one step; calls that overlap are left out. The
  health check that opening a node starts is a definition of its own.
\<close>

section \<open>From a configuration to the table of a dated row\<close>

text \<open>C8: on a node opened from a configuration in which every sharding rule has a known type, a row of a table with a date rule, whose local date lies in the years 0 to 9999, is found in
  the same table whether it is asked for by its timestamp or by the text of its local date, with or without a time of day, and the name of that table ends in the number of
  the year, month or day of the row. A rule of an unknown type is left out when the node is opened and shifts the rules behind it, so it is excluded here.\<close>

theorem dated_row_one_table:
  assumes "NewNode Open Ping draws cfg = Ret (Some n, e)" and "dc_Shard cfg = map Some shs"
    and "list_all (\<lambda>c. rule_of c \<noteq> None) shs"
    and "Option.bind (table_cfg shs db table) rule_of = Some r" and "r \<in> {DateYearShard, DateMonthShard, DateDayShard}"
    and "in_int64 v" and "0 \<le> year (unix_date tz v)" and "year (unix_date tz v) \<le> 9999"
  shows "GetTable tz n db table [KInt v] = Ret (db @ ''.'' @ table @ ''_'' @ Itoa (date_index r (unix_date tz v)), None)
    \<and> GetTable tz n db table [KString (format_date (unix_date tz v) @ rest)] = GetTable tz n db table [KInt v]"
  using date_shards_find [OF assms(5-8), of _ rest]
  by (simp add: GetTable_def NewNode_checkShard [OF assms(1-3)] assms(4))

theorem dated_row_one_table_witness:
  "\<exists>n. NewNode (\<lambda>_. None) (\<lambda>_. None) (\<lambda>_. 0) sample_config = Ret (Some n, None)
    \<and> GetTable (\<lambda>_. 28800) n ''shop'' ''visits'' [KInt 1583000000] = Ret (''shop.visits_20200301'', None)
    \<and> GetTable (\<lambda>_. 28800) n ''shop'' ''visits'' [KString ''2020-03-01 02:13:20''] = Ret (''shop.visits_20200301'', None)"
proof -
  obtain n where n: "NewNode (\<lambda>_. None) (\<lambda>_. None) (\<lambda>_. 0) sample_config = Ret (Some n, None)" using sample_open by blast
  have f: "format_date \<lparr>year = 2020, month = 3, day = 1\<rparr> = ''2020-03-01''" by code_simp
  have i: "Itoa 20200301 = ''20200301''" by (simp add: Itoa_def format_nat.simps) code_simp
  from dated_row_one_table [OF n sample_shards_rule(1,2,4), of 1583000000 "\<lambda>_. 28800" "'' 02:13:20''"] n f i
  show ?thesis by (simp add: march_2020 date_index_def date_code_def in_int64_def)
qed

section \<open>From a signal to the registry\<close>

text \<open>What stopping a server does to the registry it is registered in: the action \<open>Deregister\<close> calls \<open>DeRegister\<close> of its options.\<close>

definition registry_act :: "'st RegisterOpts \<Rightarrow> act \<Rightarrow> 'st \<Rightarrow> 'st" where
  "registry_act r a st = (if a = Deregister then snd (Opts_DeRegister r st) else st)"

lemma fold_registry_act: "fold (registry_act r) as st = fold (registry_act r) (List.filter is_stop as) st"
  by (induction as arbitrary: st) (auto simp: registry_act_def)

text \<open>C9: a server that registered a service in etcd, with whatever outcome, and then receives a signal that ends it has deleted the key of the service exactly once and
  has closed every lease and watcher, also when etcd answers the deletion with an error.\<close>

theorem shutdown_releases_registration:
  assumes "reachable cli_initial cli_step e" and "Opts_Register (NewRegisterOpts s (etcd_registry cli)) e = (err, r, e1)" and "s_Key s \<noteq> []"
    and "runing g" and "Registered g" and "stops g = []" and "StopPanic env = None" and "Args env \<noteq> []"
    and "\<forall>sg \<in> set pre. \<not> terminating sg" and "terminating sig"
  shows "\<exists>g'. handleSignals env (map Received (pre @ sig # post)) g = Ret g' \<and> \<not> runing g'
    \<and> deleted_keys (calls (fold (registry_act r) (acts g') e1)) = deleted_keys (calls e) @ [s_Key s]
    \<and> open_leases (calls (fold (registry_act r) (acts g') e1)) = {} \<and> open_watchers (calls (fold (registry_act r) (acts g') e1)) = {}"
proof -
  obtain s1 where reg: "Register cli background s e = (err, s1, e1)" and r: "r = NewRegisterOpts s1 (etcd_registry cli)"
    using assms(2) by (auto simp: Opts_Register_def NewRegisterOpts_def etcd_registry_def split: prod.splits)
  have ok: "cli_ok e1" by (rule Register_ok [OF client.reachable_inv [OF assms(1)] reg])
  obtain g' where g': "handleSignals env (map Received (pre @ sig # post)) g = Ret g'" "\<not> runing g'"
    and st: "stops g' = stops g @ (if Registered g then [Deregister] else [])
        @ [if sig = SIGTERM \<and> 0 < DefaultTimeout g then AfterFunc (DefaultTimeout g) else GracefulStop]"
    using stops_on_first_signal [OF assms(4,7-10)] by blast
  have run: "fold (registry_act r) (acts g') e1 = snd (DeRegister cli s1 e1)"
    by (simp add: fold_registry_act [of _ "acts g'"] st assms(5,6) registry_act_def Opts_DeRegister_def r NewRegisterOpts_def etcd_registry_def)
  show ?thesis
    using g' Register_keeps_keys [OF reg] DeRegister_deletes [of s1 cli e1] assms(3)
      DeRegister_closes [OF ok, of cli s1 "fst (DeRegister cli s1 e1)" "snd (DeRegister cli s1 e1)"]
    by (simp add: run)
qed

theorem shutdown_releases_registration_witness:
  "\<exists>err r e1 g'. Opts_Register (NewRegisterOpts sample_service (etcd_registry answering)) fresh_cli = (err, r, e1)
    \<and> handleSignals quiet_env (map Received ([SIGHUP] @ SIGTERM # [])) serving = Ret g'
    \<and> deleted_keys (calls (fold (registry_act r) (acts g') e1)) = [''/shop/1'']"
proof -
  obtain err r e1 where reg: "Opts_Register (NewRegisterOpts sample_service (etcd_registry answering)) fresh_cli = (err, r, e1)"
    using prod_cases3 by blast
  have "s_Key sample_service \<noteq> []" "runing serving" "Registered serving" "stops serving = []" "StopPanic quiet_env = None" "Args quiet_env \<noteq> []"
    "\<forall>sg \<in> set [SIGHUP]. \<not> terminating sg" "terminating SIGTERM"
    by (simp_all add: sample_service_def serving_def quiet_env_def NewServer_def package_init_def terminating_def)
  from shutdown_releases_registration [OF fresh_cli_reachable reg this, of "[]"] reg show ?thesis
    by (auto simp: sample_service_def fresh_cli_def)
qed

end
